(* ===== verification/Golib.thy ===== *)
theory Golib
  imports
    Main
    "HOL-Library.Word"
    "HOL-Library.AList"
    "HOL-Library.Char_ord"
    "HOL-Library.List_Lexorder"
begin

text \<open>
  Prelude of the Golectra development: the Go values the components share and the parts of Go's
  standard library the sources call.

  \<^item> Go strings are byte sequences; a \<open>string\<close> here is the list of those bytes (one \<open>char\<close> each).
  \<^item> \<open>int64\<close> is a 64-bit word read with \<open>sint\<close>; \<open>float64\<close> is the 64-bit IEEE pattern, which the
    program stores, copies and hands to \<open>strconv\<close>, and never computes with.
  \<^item> A Go map is an association list without duplicate keys. Go's \<open>range\<close> over a map may use any
    order, so the order of the list is the order of one iteration, and statements about what the
    program computes quantify over every list with the same lookup function.
  \<^item> \<open>strings.TrimSpace\<close>, \<open>strings.ToLower\<close>, \<open>strings.TrimRight\<close>, \<open>strings.Contains\<close>,
    \<open>strconv.ParseInt\<close> and \<open>strconv.FormatInt\<close> are modelled on bytes.
\<close>

named_theorems go_defs \<open>definitions of the prelude that component proofs unfold\<close>
named_theorems gomap_simps \<open>lookup and key facts of Go maps\<close>

section \<open>Types\<close>

type_synonym int64 = "64 word"
type_synonym float64 = "64 word"
type_synonym duration = "64 word"
type_synonym 'v gomap = "(string \<times> 'v) list"

section \<open>Go maps\<close>

definition gm_set :: "string \<Rightarrow> 'v \<Rightarrow> 'v gomap \<Rightarrow> 'v gomap" where
  "gm_set k v m = AList.update k v m"

definition gm_wf :: "'v gomap \<Rightarrow> bool" where
  "gm_wf m \<longleftrightarrow> distinct (map fst m)"

text \<open>\<open>m[k] += d\<close>: a missing key reads as the zero value, and the addition wraps.\<close>

definition gm_add :: "string \<Rightarrow> int64 \<Rightarrow> int64 gomap \<Rightarrow> int64 gomap" where
  "gm_add k d m = gm_set k ((case map_of m k of None \<Rightarrow> 0 | Some v \<Rightarrow> v) + d) m"

text \<open>\<open>maps.Copy(dst, src)\<close> writes every entry of \<open>src\<close> into \<open>dst\<close>.\<close>

fun maps_Copy :: "'v gomap \<Rightarrow> 'v gomap \<Rightarrow> 'v gomap" where
  "maps_Copy dst [] = dst"
| "maps_Copy dst ((k, v) # src) = maps_Copy (gm_set k v dst) src"

section \<open>Package strings\<close>

fun strip_prefix :: "string \<Rightarrow> string \<Rightarrow> string option" where
  "strip_prefix [] s = Some s"
| "strip_prefix (p # ps) [] = None"
| "strip_prefix (p # ps) (c # cs) = (if p = c then strip_prefix ps cs else None)"

definition HasPrefix :: "string \<Rightarrow> string \<Rightarrow> bool" where
  "HasPrefix s p \<longleftrightarrow> strip_prefix p s \<noteq> None"

definition TrimPrefix :: "string \<Rightarrow> string \<Rightarrow> string" where
  "TrimPrefix s p = (case strip_prefix p s of None \<Rightarrow> s | Some r \<Rightarrow> r)"

definition TrimSuffix :: "string \<Rightarrow> string \<Rightarrow> string" where
  "TrimSuffix s p = rev (TrimPrefix (rev s) (rev p))"

fun Contains :: "string \<Rightarrow> string \<Rightarrow> bool" where
  "Contains [] p \<longleftrightarrow> p = []"
| "Contains (c # cs) p \<longleftrightarrow> HasPrefix (c # cs) p \<or> Contains cs p"

text \<open>The first of the given byte sequences that is a prefix of \<open>s\<close>, removed.\<close>

fun strip_any :: "string list \<Rightarrow> string \<Rightarrow> string option" where
  "strip_any [] s = None"
| "strip_any (p # ps) s = (case strip_prefix p s of Some r \<Rightarrow> Some r | None \<Rightarrow> strip_any ps s)"

text \<open>
  The UTF-8 encodings of the code points for which \<open>unicode.IsSpace\<close> holds: the ASCII spaces, U+0085,
  U+00A0, U+1680, U+2000 to U+200A, U+2028, U+2029, U+202F, U+205F and U+3000.
\<close>

definition space_seqs :: "string list" where
  "space_seqs =
     [[CHR 0x09], [CHR 0x0A], [CHR 0x0B], [CHR 0x0C], [CHR 0x0D], [CHR 0x20],
      [CHR 0xC2, CHR 0x85], [CHR 0xC2, CHR 0xA0], [CHR 0xE1, CHR 0x9A, CHR 0x80],
      [CHR 0xE2, CHR 0x80, CHR 0x80], [CHR 0xE2, CHR 0x80, CHR 0x81],
      [CHR 0xE2, CHR 0x80, CHR 0x82], [CHR 0xE2, CHR 0x80, CHR 0x83],
      [CHR 0xE2, CHR 0x80, CHR 0x84], [CHR 0xE2, CHR 0x80, CHR 0x85],
      [CHR 0xE2, CHR 0x80, CHR 0x86], [CHR 0xE2, CHR 0x80, CHR 0x87],
      [CHR 0xE2, CHR 0x80, CHR 0x88], [CHR 0xE2, CHR 0x80, CHR 0x89],
      [CHR 0xE2, CHR 0x80, CHR 0x8A], [CHR 0xE2, CHR 0x80, CHR 0xA8],
      [CHR 0xE2, CHR 0x80, CHR 0xA9], [CHR 0xE2, CHR 0x80, CHR 0xAF],
      [CHR 0xE2, CHR 0x81, CHR 0x9F], [CHR 0xE3, CHR 0x80, CHR 0x80]]"

text \<open>Removes leading sequences until none is left; a sequence that is empty removes nothing.\<close>

function trim_seqs :: "string list \<Rightarrow> string \<Rightarrow> string" where
  "trim_seqs ps s =
     (case strip_any ps s of
        None \<Rightarrow> s
      | Some r \<Rightarrow> if length r < length s then trim_seqs ps r else s)"
  by pat_completeness auto
termination
  by (relation "measure (\<lambda>(ps, s). length s)") auto

declare trim_seqs.simps [simp del]

definition TrimSpace :: "string \<Rightarrow> string" where
  "TrimSpace s = rev (trim_seqs (map rev space_seqs) (rev (trim_seqs space_seqs s)))"

text \<open>\<open>strings.TrimRight(s, cutset)\<close> for a cutset of ASCII bytes.\<close>

definition TrimRight :: "string \<Rightarrow> string \<Rightarrow> string" where
  "TrimRight s cutset = rev (dropWhile (\<lambda>c. c \<in> set cutset) (rev s))"

text \<open>
  \<open>strings.ToLower\<close>: ASCII letters, and the two non-ASCII code points whose lower case is ASCII
  (U+212A, the Kelvin sign, and U+0130). Every other non-ASCII code point maps to a non-ASCII one;
  it is kept as it is, which no comparison with an ASCII string observes.
\<close>

definition lower_byte :: "char \<Rightarrow> char" where
  "lower_byte c = (let n = of_char c :: nat in if 65 \<le> n \<and> n \<le> 90 then char_of (n + 32) else c)"

function ToLower :: "string \<Rightarrow> string" where
  "ToLower [] = []"
| "ToLower (c # cs) =
     (case strip_prefix [CHR 0xE2, CHR 0x84, CHR 0xAA] (c # cs) of
        Some r \<Rightarrow> if length r \<le> length cs then CHR ''k'' # ToLower r else []
      | None \<Rightarrow>
          (case strip_prefix [CHR 0xC4, CHR 0xB0] (c # cs) of
             Some r \<Rightarrow> if length r \<le> length cs then CHR ''i'' # ToLower r else []
           | None \<Rightarrow> lower_byte c # ToLower cs))"
  by pat_completeness auto
termination
  by (relation "measure length") auto

text \<open>
  \<open>strings.EqualFold(s, t)\<close> where one side is ASCII and has no \<open>k\<close> and no \<open>s\<close>, the letters with a
  non-ASCII fold partner; the source compares with a lower-case hexadecimal digest only.
\<close>

definition EqualFold :: "string \<Rightarrow> string \<Rightarrow> bool" where
  "EqualFold s t \<longleftrightarrow> map lower_byte s = map lower_byte t"

section \<open>Package strconv\<close>

definition is_digit :: "char \<Rightarrow> bool" where
  "is_digit c \<longleftrightarrow> (let n = of_char c :: nat in 48 \<le> n \<and> n \<le> 57)"

definition digit_char :: "nat \<Rightarrow> char" where
  "digit_char d = char_of (48 + d)"

fun parse_digits :: "nat \<Rightarrow> string \<Rightarrow> nat option" where
  "parse_digits acc [] = Some acc"
| "parse_digits acc (c # cs) =
     (if is_digit c then parse_digits (acc * 10 + (of_char c - 48)) cs else None)"

text \<open>
  \<open>strconv.ParseInt(s, 10, 64)\<close>: \<open>None\<close> for both of its errors (syntax and range), which the
  callers do not tell apart. \<open>strconv.Atoi\<close> agrees with it where \<open>int\<close> has 64 bits.
\<close>

definition ParseInt :: "string \<Rightarrow> int64 option" where
  "ParseInt s =
     (let neg = (case s of c # cs \<Rightarrow> c = CHR ''-'' | [] \<Rightarrow> False);
          ds = (case s of c # cs \<Rightarrow> if c = CHR ''+'' \<or> c = CHR ''-'' then cs else s | [] \<Rightarrow> [])
      in if ds = [] then None
         else case parse_digits 0 ds of
                None \<Rightarrow> None
              | Some n \<Rightarrow>
                  if \<not> neg \<and> 2 ^ 63 \<le> n then None
                  else if neg \<and> 2 ^ 63 < n then None
                  else Some (word_of_int (if neg then - int n else int n)))"

fun nat_digits :: "nat \<Rightarrow> string" where
  "nat_digits n = (if n < 10 then [digit_char n] else nat_digits (n div 10) @ [digit_char (n mod 10)])"

declare nat_digits.simps [simp del]

text \<open>\<open>strconv.FormatInt(v, 10)\<close>.\<close>

definition FormatInt :: "int64 \<Rightarrow> string" where
  "FormatInt v =
     (if sint v < 0 then CHR ''-'' # nat_digits (nat (- sint v)) else nat_digits (nat (sint v)))"

section \<open>Facts about Go maps\<close>

lemma gm_set_lookup [simp, gomap_simps]: "map_of (gm_set k v m) = (map_of m)(k \<mapsto> v)"
  by (simp add: gm_set_def update_conv')

lemma gm_set_wf [simp, intro]: "gm_wf m \<Longrightarrow> gm_wf (gm_set k v m)"
  by (simp add: gm_wf_def gm_set_def distinct_update)

lemma gm_wf_Nil [simp]: "gm_wf []"
  by (simp add: gm_wf_def)

lemma gm_wf_Cons [simp]: "gm_wf ((k, v) # m) \<longleftrightarrow> k \<notin> fst ` set m \<and> gm_wf m"
  by (simp add: gm_wf_def)

lemma gm_set_Nil [simp]: "gm_set k v [] = [(k, v)]"
  by (simp add: gm_set_def)

lemma gm_set_Cons [simp]: "gm_set k v ((k', v') # m) = (if k = k' then (k, v) # m else (k', v') # gm_set k v m)"
  by (simp add: gm_set_def)

lemma gm_add_wf [simp, intro]: "gm_wf m \<Longrightarrow> gm_wf (gm_add k d m)"
  by (simp add: gm_add_def)

lemma gm_add_lookup [simp, gomap_simps]:
  "map_of (gm_add k d m) = (map_of m)(k \<mapsto> (case map_of m k of None \<Rightarrow> 0 | Some v \<Rightarrow> v) + d)"
  by (simp add: gm_add_def)

lemma maps_Copy_lookup: "gm_wf src \<Longrightarrow> map_of (maps_Copy dst src) = map_of dst ++ map_of src"
proof (induction dst src rule: maps_Copy.induct)
  case (1 dst)
  show ?case by simp
next
  case (2 dst k v src)
  from "2.prems" have fresh: "k \<notin> dom (map_of src)" and wf: "gm_wf src"
    by (auto simp: dom_map_of_conv_image_fst)
  have "map_of (maps_Copy dst ((k, v) # src)) = (map_of dst)(k \<mapsto> v) ++ map_of src"
    by (simp only: maps_Copy.simps gm_set_lookup "2.IH" [OF wf])
  also have "\<dots> = map_of dst ++ map_of ((k, v) # src)"
    using fresh by (auto simp: map_add_def fun_eq_iff domIff split: option.split)
  finally show ?case .
qed

lemma maps_Copy_wf: "gm_wf dst \<Longrightarrow> gm_wf (maps_Copy dst src)"
  by (induction dst src rule: maps_Copy.induct) auto

lemma maps_Copy_empty [simp]: "gm_wf m \<Longrightarrow> map_of (maps_Copy [] m) = map_of m"
  by (simp add: maps_Copy_lookup)

lemma map_of_rev_distinct: "distinct (map fst xs) \<Longrightarrow> map_of (rev xs) = map_of xs"
  by (intro map_of_inject_set [THEN iffD2]) (simp_all add: rev_map [symmetric])

lemma gm_lookup_in: "gm_wf m \<Longrightarrow> map_of m k = Some v \<longleftrightarrow> (k, v) \<in> set m"
  by (simp add: gm_wf_def)

section \<open>Facts about strings\<close>

lemma takeWhile_stop: "x \<notin> set xs \<Longrightarrow> takeWhile (\<lambda>c. c \<noteq> x) (xs @ x # ys) = xs"
  by (induction xs) auto

lemma strip_prefix_Some [simp]: "strip_prefix p s = Some r \<longleftrightarrow> s = p @ r"
  by (induction p s rule: strip_prefix.induct) auto

lemma strip_prefix_None: "strip_prefix p s = None \<longleftrightarrow> (\<forall>r. s \<noteq> p @ r)"
  by (metis not_None_eq strip_prefix_Some)

lemma HasPrefix_iff: "HasPrefix s p \<longleftrightarrow> (\<exists>r. s = p @ r)"
  by (simp add: HasPrefix_def strip_prefix_None)

lemma Contains_iff: "Contains s p \<longleftrightarrow> (\<exists>a b. s = a @ p @ b)"
proof (induction s)
  case Nil
  show ?case by auto
next
  case (Cons c cs)
  have "(\<exists>a b. c # cs = a @ p @ b) \<longleftrightarrow> (\<exists>b. c # cs = p @ b) \<or> (\<exists>a b. cs = a @ p @ b)"
    by (metis Cons_eq_append_conv append_Cons append_Nil)
  then show ?case using Cons.IH by (simp add: HasPrefix_iff)
qed

lemma strip_any_Some: "strip_any ps s = Some r \<Longrightarrow> \<exists>p \<in> set ps. s = p @ r"
  by (induction ps s rule: strip_any.induct) (auto split: option.splits)

lemma strip_any_None: "strip_any ps s = None \<longleftrightarrow> (\<forall>p \<in> set ps. \<forall>r. s \<noteq> p @ r)"
  by (induction ps s rule: strip_any.induct) (auto simp: strip_prefix_None split: option.splits)

lemma trim_seqs_fixed: "strip_any ps s = None \<Longrightarrow> trim_seqs ps s = s"
  by (simp add: trim_seqs.simps)

lemma trim_seqs_stops: "[] \<notin> set ps \<Longrightarrow> strip_any ps (trim_seqs ps s) = None"
proof (induction ps s rule: trim_seqs.induct)
  case (1 ps s)
  show ?case
  proof (cases "strip_any ps s")
    case None
    then show ?thesis by (simp add: trim_seqs_fixed)
  next
    case (Some r)
    with "1.prems" have "length r < length s"
      by (auto dest!: strip_any_Some)
    with Some "1" show ?thesis by (simp add: trim_seqs.simps [of ps s])
  qed
qed

lemma trim_seqs_suffix: "\<exists>q. s = q @ trim_seqs ps s"
proof (induction ps s rule: trim_seqs.induct)
  case (1 ps s)
  show ?case
  proof (cases "strip_any ps s")
    case None
    then show ?thesis by (simp add: trim_seqs_fixed)
  next
    case (Some r)
    then obtain p where "s = p @ r" by (auto dest: strip_any_Some)
    show ?thesis
    proof (cases "length r < length s")
      case True
      with Some "1" obtain q where "r = q @ trim_seqs ps r" by blast
      with \<open>s = p @ r\<close> have "s = (p @ q) @ trim_seqs ps r" by simp
      moreover from Some True have "trim_seqs ps s = trim_seqs ps r"
        by (simp add: trim_seqs.simps [of ps s])
      ultimately show ?thesis by metis
    next
      case False
      with Some show ?thesis by (simp add: trim_seqs.simps [of ps s])
    qed
  qed
qed

lemma Nil_notin_space_seqs [simp]: "[] \<notin> set space_seqs" "[] \<notin> set (map rev space_seqs)"
  by (auto simp: space_seqs_def)

text \<open>
  What \<open>TrimSpace\<close> returns has no white space at either end, and \<open>TrimSpace\<close> leaves such a string
  alone; so trimming twice is trimming once.
\<close>

lemma TrimSpace_no_prefix: "strip_any space_seqs (TrimSpace s) = None"
proof -
  define l where "l = trim_seqs space_seqs s"
  obtain q where "rev l = q @ trim_seqs (map rev space_seqs) (rev l)"
    using trim_seqs_suffix by blast
  then have l: "l = TrimSpace s @ rev q"
    by (metis TrimSpace_def l_def rev_append rev_rev_ident)
  have "strip_any space_seqs l = None"
    by (simp add: l_def trim_seqs_stops)
  with l show ?thesis
    by (metis append.assoc strip_any_None)
qed

lemma TrimSpace_no_suffix: "strip_any (map rev space_seqs) (rev (TrimSpace s)) = None"
  by (simp add: TrimSpace_def trim_seqs_stops del: set_map)

lemma TrimSpace_idem [simp]: "TrimSpace (TrimSpace s) = TrimSpace s"
proof -
  have "trim_seqs space_seqs (TrimSpace s) = TrimSpace s"
    by (rule trim_seqs_fixed [OF TrimSpace_no_prefix])
  moreover have "trim_seqs (map rev space_seqs) (rev (TrimSpace s)) = rev (TrimSpace s)"
    by (rule trim_seqs_fixed [OF TrimSpace_no_suffix])
  ultimately show ?thesis by (simp add: TrimSpace_def [of "TrimSpace s"])
qed

lemma TrimSpace_Nil [simp]: "TrimSpace [] = []"
proof -
  have "strip_any ps [] = None" if "[] \<notin> set ps" for ps
    using that by (auto simp: strip_any_None)
  then show ?thesis by (simp add: TrimSpace_def trim_seqs_fixed del: set_map)
qed

section \<open>Facts about strconv\<close>

lemma of_char_digit_char: "d < 10 \<Longrightarrow> of_char (digit_char d) = 48 + d"
  by (simp add: digit_char_def)

lemma is_digit_digit_char [simp]: "d < 10 \<Longrightarrow> is_digit (digit_char d)"
  by (simp add: is_digit_def of_char_digit_char)

lemma parse_digits_append:
  "parse_digits acc (xs @ ys) = (case parse_digits acc xs of None \<Rightarrow> None | Some a \<Rightarrow> parse_digits a ys)"
  by (induction acc xs rule: parse_digits.induct) auto

lemma parse_nat_digits: "parse_digits 0 (nat_digits n) = Some n"
proof (induction n rule: nat_digits.induct)
  case (1 n)
  show ?case
  proof (cases "n < 10")
    case True
    then show ?thesis by (simp add: nat_digits.simps [of n] of_char_digit_char)
  next
    case False
    with "1" show ?thesis
      by (simp add: nat_digits.simps [of n] parse_digits_append of_char_digit_char)
  qed
qed

lemma nat_digits_not_Nil: "nat_digits n \<noteq> []"
  by (simp add: nat_digits.simps [of n])

lemma set_nat_digits: "c \<in> set (nat_digits n) \<Longrightarrow> is_digit c"
proof (induction n rule: nat_digits.induct)
  case (1 n)
  then show ?case
    by (cases "n < 10") (auto simp: nat_digits.simps [of n])
qed

lemma hd_nat_digits_sign: "nat_digits n = c # cs \<Longrightarrow> c \<noteq> CHR ''+'' \<and> c \<noteq> CHR ''-''"
  using set_nat_digits [of c n] by (auto simp: is_digit_def)

lemma sint64_bounds: "- (2 ^ 63) \<le> sint (v :: int64)" "sint (v :: int64) < 2 ^ 63"
  using sint_greater_eq [of v] sint_less [of v] by simp_all

lemma ParseInt_FormatInt: "ParseInt (FormatInt v) = Some v"
proof (cases "sint v < 0")
  case True
  have "nat (- sint v) \<le> 2 ^ 63" using sint64_bounds(1) [of v] by simp
  with True show ?thesis
    by (simp add: ParseInt_def FormatInt_def Let_def nat_digits_not_Nil parse_nat_digits)
next
  case False
  obtain c cs where d: "nat_digits (nat (sint v)) = c # cs"
    using nat_digits_not_Nil by (metis list.exhaust)
  have p: "parse_digits 0 (c # cs) = Some (nat (sint v))"
    using parse_nat_digits d by metis
  have "\<not> 2 ^ 63 \<le> nat (sint v)" using sint64_bounds(2) [of v] by simp
  with False d p hd_nat_digits_sign [OF d] show ?thesis
    by (simp add: ParseInt_def FormatInt_def Let_def del: parse_digits.simps)
qed

text \<open>Visible ASCII characters are not white space, so trimming leaves a text made of them alone.\<close>

definition visible :: "char \<Rightarrow> bool" where
  "visible c \<longleftrightarrow> 33 \<le> (of_char c :: nat) \<and> (of_char c :: nat) < 127"

lemma space_seqs_not_visible: "p \<in> set space_seqs \<Longrightarrow> \<not> visible (hd p) \<and> \<not> visible (last p) \<and> p \<noteq> []"
  unfolding space_seqs_def by (auto simp: visible_def)

lemma TrimSpace_visible:
  assumes "\<forall>c \<in> set s. visible c"
  shows "TrimSpace s = s"
proof -
  have "strip_any space_seqs s = None"
    using assms space_seqs_not_visible by (force simp: strip_any_None neq_Nil_conv)
  moreover have "strip_any (map rev space_seqs) (rev s) = None"
  proof -
    have "rev s \<noteq> rev p @ r" if "p \<in> set space_seqs" for p r
    proof
      assume "rev s = rev p @ r"
      then have "set p \<subseteq> set s" by (metis Un_upper1 set_append set_rev)
      with assms space_seqs_not_visible [OF that] show False by (meson last_in_set subsetD)
    qed
    then show ?thesis by (simp add: strip_any_None)
  qed
  ultimately show ?thesis by (simp add: TrimSpace_def trim_seqs_fixed del: set_map)
qed

lemma TrimSpace_digits: "\<forall>c \<in> set s. is_digit c \<Longrightarrow> TrimSpace s = s"
  by (rule TrimSpace_visible) (force simp: is_digit_def visible_def Let_def)

end
