(* ===== verification/Domain.thy ===== *)
theory Domain
  imports Golib
begin

unbundle bit_operations_syntax

text \<open>
  The domain model (\<open>internal/domain\<close>), Go's error values as the sources inspect them, the part of
  \<open>context.Context\<close> the audit trail uses (\<open>internal/services/audit/context.go\<close>), and the storage port
  (\<open>internal/ports/repository.go\<close>).

  A Go interface value is a record of the functions in its method table, over the state \<open>'r\<close> of the
  implementation. The locale \<open>metrics_repo\<close> states what every \<open>MetricsRepo\<close> promises its clients, seen
  through two lookup functions; \<open>separate_repo\<close> adds what a repository without I/O promises: every
  operation succeeds, and gauges and counters are separate name spaces.
\<close>

section \<open>Errors\<close>

text \<open>
  The sentinel errors and error types that the sources compare with \<open>errors.Is\<close> and \<open>errors.As\<close>.
  \<open>ErrNew\<close> is any other value made by \<open>errors.New\<close> or by \<open>fmt.Errorf\<close> without \<open>%w\<close>; \<open>Wrapf\<close> is
  \<open>fmt.Errorf\<close> with \<open>%w\<close>.
\<close>

datatype go_error =
    ErrNotFound
  | ErrInvalidType
  | ErrNew string
  | ErrNoRows
  | ErrBadConn
  | ErrNotExist
  | ContextCanceled
  | DeadlineExceeded
  | ECONNREFUSED
  | ECONNRESET
  | EPIPE
  | PqError string
  | HttpStatusError nat string
  | OpError go_error
  | UrlError bool go_error
  | Wrapf string go_error

text \<open>\<open>errors.Is\<close>: the error itself or one that \<open>Unwrap\<close> leads to.\<close>

fun errors_Is :: "go_error \<Rightarrow> go_error \<Rightarrow> bool" where
  "errors_Is (OpError e) t \<longleftrightarrow> OpError e = t \<or> errors_Is e t"
| "errors_Is (UrlError b e) t \<longleftrightarrow> UrlError b e = t \<or> errors_Is e t"
| "errors_Is (Wrapf s e) t \<longleftrightarrow> Wrapf s e = t \<or> errors_Is e t"
| "errors_Is e t \<longleftrightarrow> e = t"

text \<open>\<open>errors.As\<close>: the first error of the chain that \<open>f\<close> recognises.\<close>

fun errors_As :: "(go_error \<Rightarrow> 'a option) \<Rightarrow> go_error \<Rightarrow> 'a option" where
  "errors_As f (OpError e) = (case f (OpError e) of Some x \<Rightarrow> Some x | None \<Rightarrow> errors_As f e)"
| "errors_As f (UrlError b e) = (case f (UrlError b e) of Some x \<Rightarrow> Some x | None \<Rightarrow> errors_As f e)"
| "errors_As f (Wrapf s e) = (case f (Wrapf s e) of Some x \<Rightarrow> Some x | None \<Rightarrow> errors_As f e)"
| "errors_As f e = f e"

section \<open>Metrics\<close>

definition Gauge :: string where
  "Gauge = ''gauge''"

definition Counter :: string where
  "Counter = ''counter''"

record Metrics =
  Delta :: "int64 option"
  Value :: "float64 option"
  ID :: string
  MType :: string

record Snapshot =
  Gauges :: "float64 gomap"
  Counters :: "int64 gomap"

definition gauge_metric :: "string \<Rightarrow> float64 \<Rightarrow> Metrics" where
  "gauge_metric k v = \<lparr>Delta = None, Value = Some v, ID = k, MType = Gauge\<rparr>"

definition counter_metric :: "string \<Rightarrow> int64 \<Rightarrow> Metrics" where
  "counter_metric k d = \<lparr>Delta = Some d, Value = None, ID = k, MType = Counter\<rparr>"

text \<open>
  \<open>encoding/json\<close> refuses NaN and the infinities: the exponent field is all ones.
\<close>

definition is_nonfinite :: "float64 \<Rightarrow> bool" where
  "is_nonfinite v \<longleftrightarrow> drop_bit 52 v AND 0x7FF = 0x7FF"

definition json_refuses :: "Metrics \<Rightarrow> bool" where
  "json_refuses m \<longleftrightarrow> (case Value m of Some v \<Rightarrow> is_nonfinite v | None \<Rightarrow> False)"

section \<open>Contexts\<close>

text \<open>
  A context is a chain of \<open>WithValue\<close> nodes over the background context. Keys are compared together
  with their type, so \<open>clientIPKey\<close> is a constructor of its own; a value need not be a string.
\<close>

datatype ctx_key = clientIPKey | OtherKey string
datatype any_value = AnyString string | AnyOther
datatype go_context = Background | WithValue go_context ctx_key any_value

primrec ctx_Value :: "go_context \<Rightarrow> ctx_key \<Rightarrow> any_value option" where
  "ctx_Value Background k = None"
| "ctx_Value (WithValue c k' v) k = (if k = k' then Some v else ctx_Value c k)"

definition WithClientIP :: "go_context \<Rightarrow> string \<Rightarrow> go_context" where
  "WithClientIP c ip = WithValue c clientIPKey (AnyString ip)"

definition ClientIPFromContext :: "go_context option \<Rightarrow> string" where
  "ClientIPFromContext c =
     (case c of
        None \<Rightarrow> ''''
      | Some c' \<Rightarrow> (case ctx_Value c' clientIPKey of Some (AnyString ip) \<Rightarrow> ip | _ \<Rightarrow> ''''))"

section \<open>The storage port\<close>

record 'r MetricsRepo =
  repo_GetGauge :: "go_context \<Rightarrow> string \<Rightarrow> 'r \<Rightarrow> 'r \<times> (go_error + float64)"
  repo_GetCounter :: "go_context \<Rightarrow> string \<Rightarrow> 'r \<Rightarrow> 'r \<times> (go_error + int64)"
  repo_SetGauge :: "go_context \<Rightarrow> string \<Rightarrow> float64 \<Rightarrow> 'r \<Rightarrow> 'r \<times> go_error option"
  repo_AddCounter :: "go_context \<Rightarrow> string \<Rightarrow> int64 \<Rightarrow> 'r \<Rightarrow> 'r \<times> go_error option"
  repo_UpdateMany :: "go_context \<Rightarrow> Metrics list \<Rightarrow> 'r \<Rightarrow> 'r \<times> go_error option"
  repo_Snapshot :: "go_context \<Rightarrow> 'r \<Rightarrow> 'r \<times> (go_error + Snapshot)"
  repo_Ping :: "go_context \<Rightarrow> 'r \<Rightarrow> 'r \<times> go_error option"

section \<open>What a batch means\<close>

text \<open>
  The abstract effect of a list of metrics on the gauges and on the counters: a gauge item
  overwrites, a counter item adds (with wrap-around), any other item does nothing.
\<close>

fun spec_gauges :: "Metrics list \<Rightarrow> (string \<rightharpoonup> float64) \<Rightarrow> (string \<rightharpoonup> float64)" where
  "spec_gauges [] g = g"
| "spec_gauges (m # ms) g =
     spec_gauges ms
       (if MType m = Gauge then (case Value m of None \<Rightarrow> g | Some v \<Rightarrow> g(ID m \<mapsto> v)) else g)"

definition counter_or_zero :: "int64 option \<Rightarrow> int64" where
  "counter_or_zero x = (case x of None \<Rightarrow> 0 | Some v \<Rightarrow> v)"

fun spec_counters :: "Metrics list \<Rightarrow> (string \<rightharpoonup> int64) \<Rightarrow> (string \<rightharpoonup> int64)" where
  "spec_counters [] c = c"
| "spec_counters (m # ms) c =
     spec_counters ms
       (if MType m = Counter
        then (case Delta m of None \<Rightarrow> c | Some d \<Rightarrow> c(ID m \<mapsto> counter_or_zero (c (ID m)) + d))
        else c)"

text \<open>The deltas a batch adds to one counter, in order.\<close>

definition deltas_for :: "string \<Rightarrow> Metrics list \<Rightarrow> int64 list" where
  "deltas_for k ms =
     [d. m \<leftarrow> ms, MType m = Counter \<and> ID m = k, d \<leftarrow> (case Delta m of None \<Rightarrow> [] | Some d \<Rightarrow> [d])]"

definition values_for :: "string \<Rightarrow> Metrics list \<Rightarrow> float64 list" where
  "values_for k ms =
     [v. m \<leftarrow> ms, MType m = Gauge \<and> ID m = k, v \<leftarrow> (case Value m of None \<Rightarrow> [] | Some v \<Rightarrow> [v])]"

section \<open>Facts\<close>

lemma Gauge_neq_Counter [simp]: "Gauge \<noteq> Counter" "Counter \<noteq> Gauge"
  by (simp_all add: Gauge_def Counter_def)

lemma gauge_metric_sel [simp]:
  "Delta (gauge_metric k v) = None" "Value (gauge_metric k v) = Some v"
  "ID (gauge_metric k v) = k" "MType (gauge_metric k v) = Gauge"
  by (simp_all add: gauge_metric_def)

lemma counter_metric_sel [simp]:
  "Delta (counter_metric k d) = Some d" "Value (counter_metric k d) = None"
  "ID (counter_metric k d) = k" "MType (counter_metric k d) = Counter"
  by (simp_all add: counter_metric_def)

lemma json_refuses_simps [simp]:
  "\<not> json_refuses (counter_metric k d)" "json_refuses (gauge_metric k v) \<longleftrightarrow> is_nonfinite v"
  by (simp_all add: json_refuses_def)

lemma counter_or_zero_simps [simp]: "counter_or_zero None = 0" "counter_or_zero (Some v) = v"
  by (simp_all add: counter_or_zero_def)

lemma ClientIP_WithClientIP [simp]: "ClientIPFromContext (Some (WithClientIP c ip)) = ip"
  by (simp add: ClientIPFromContext_def WithClientIP_def)

lemma errors_Is_refl [simp, intro]: "errors_Is e e"
  by (cases e) auto

lemma spec_gauges_append: "spec_gauges (xs @ ys) g = spec_gauges ys (spec_gauges xs g)"
  by (induction xs g rule: spec_gauges.induct) auto

lemma spec_counters_append: "spec_counters (xs @ ys) c = spec_counters ys (spec_counters xs c)"
  by (induction xs c rule: spec_counters.induct) auto

lemma deltas_for_Nil [simp]: "deltas_for k [] = []"
  by (simp add: deltas_for_def)

lemma deltas_for_Cons [simp]:
  "deltas_for k (m # ms) =
     (if MType m = Counter \<and> ID m = k then (case Delta m of None \<Rightarrow> [] | Some d \<Rightarrow> [d]) else []) @ deltas_for k ms"
  by (simp add: deltas_for_def)

lemma values_for_Nil [simp]: "values_for k [] = []"
  by (simp add: values_for_def)

lemma values_for_Cons [simp]:
  "values_for k (m # ms) =
     (if MType m = Gauge \<and> ID m = k then (case Value m of None \<Rightarrow> [] | Some v \<Rightarrow> [v]) else []) @ values_for k ms"
  by (simp add: values_for_def)

text \<open>A batch adds to a counter the sum of its deltas, and leaves a counter it does not name alone.\<close>

lemma spec_counters_sum:
  "spec_counters ms c k =
     (if deltas_for k ms = [] then c k else Some (counter_or_zero (c k) + sum_list (deltas_for k ms)))"
proof (induction ms c rule: spec_counters.induct)
  case (1 c)
  show ?case by simp
next
  case (2 m ms c)
  then show ?case by (auto split: option.split simp: add.assoc)
qed

text \<open>A batch leaves in a gauge the last value it carries for it.\<close>

lemma spec_gauges_last:
  "spec_gauges ms g k = (if values_for k ms = [] then g k else Some (last (values_for k ms)))"
proof (induction ms g rule: spec_gauges.induct)
  case (1 g)
  show ?case by simp
next
  case (2 m ms g)
  then show ?case by (auto split: option.split)
qed

section \<open>The contract of a repository\<close>

locale metrics_repo =
  fixes R :: "'r MetricsRepo"
    and gauge_of :: "'r \<Rightarrow> string \<Rightarrow> float64 option"
    and counter_of :: "'r \<Rightarrow> string \<Rightarrow> int64 option"
    and inv :: "'r \<Rightarrow> bool"
  assumes get_gauge_frame:
      "inv r \<Longrightarrow> repo_GetGauge R c n r = (r', x) \<Longrightarrow>
         inv r' \<and> gauge_of r' = gauge_of r \<and> counter_of r' = counter_of r"
    and get_gauge_ok: "inv r \<Longrightarrow> repo_GetGauge R c n r = (r', Inr v) \<Longrightarrow> gauge_of r n = Some v"
    and get_counter_frame:
      "inv r \<Longrightarrow> repo_GetCounter R c n r = (r', y) \<Longrightarrow>
         inv r' \<and> gauge_of r' = gauge_of r \<and> counter_of r' = counter_of r"
    and get_counter_ok: "inv r \<Longrightarrow> repo_GetCounter R c n r = (r', Inr d) \<Longrightarrow> counter_of r n = Some d"
    and set_gauge_inv: "inv r \<Longrightarrow> repo_SetGauge R c n v r = (r', e) \<Longrightarrow> inv r'"
    and set_gauge_ok: "inv r \<Longrightarrow> repo_SetGauge R c n v r = (r', None) \<Longrightarrow> gauge_of r' = (gauge_of r)(n \<mapsto> v)"
    and set_gauge_frame:
      "inv r \<Longrightarrow> repo_SetGauge R c n v r = (r', e) \<Longrightarrow> k \<noteq> n \<Longrightarrow> counter_of r' k = counter_of r k"
    and set_gauge_err:
      "inv r \<Longrightarrow> repo_SetGauge R c n v r = (r', Some err) \<Longrightarrow>
         gauge_of r' = gauge_of r \<and> counter_of r' = counter_of r"
    and add_counter_inv: "inv r \<Longrightarrow> repo_AddCounter R c n d r = (r', e) \<Longrightarrow> inv r'"
    and add_counter_ok:
      "inv r \<Longrightarrow> repo_AddCounter R c n d r = (r', None) \<Longrightarrow>
         counter_of r' = (counter_of r)(n \<mapsto> counter_or_zero (counter_of r n) + d)"
    and add_counter_frame:
      "inv r \<Longrightarrow> repo_AddCounter R c n d r = (r', e) \<Longrightarrow> k \<noteq> n \<Longrightarrow> gauge_of r' k = gauge_of r k"
    and add_counter_err:
      "inv r \<Longrightarrow> repo_AddCounter R c n d r = (r', Some err) \<Longrightarrow>
         gauge_of r' = gauge_of r \<and> counter_of r' = counter_of r"
    and update_many_inv: "inv r \<Longrightarrow> repo_UpdateMany R c ms r = (r', e) \<Longrightarrow> inv r'"
    and update_many_frame:
      "inv r \<Longrightarrow> repo_UpdateMany R c ms r = (r', e) \<Longrightarrow> k \<notin> ID ` set ms \<Longrightarrow>
         gauge_of r' k = gauge_of r k \<and> counter_of r' k = counter_of r k"
    and update_many_err:
      "inv r \<Longrightarrow> repo_UpdateMany R c ms r = (r', Some err) \<Longrightarrow>
         gauge_of r' = gauge_of r \<and> counter_of r' = counter_of r"
    and snapshot_frame:
      "inv r \<Longrightarrow> repo_Snapshot R c r = (r', z) \<Longrightarrow>
         inv r' \<and> gauge_of r' = gauge_of r \<and> counter_of r' = counter_of r"
    and snapshot_ok:
      "inv r \<Longrightarrow> repo_Snapshot R c r = (r', Inr s) \<Longrightarrow>
         map_of (Gauges s) = gauge_of r \<and> map_of (Counters s) = counter_of r \<and>
         gm_wf (Gauges s) \<and> gm_wf (Counters s)"
begin

lemmas inv_intros =
  get_gauge_frame [THEN conjunct1] get_counter_frame [THEN conjunct1] set_gauge_inv
  add_counter_inv update_many_inv snapshot_frame [THEN conjunct1]

lemma set_then_get:
  assumes "inv r" and "repo_SetGauge R c n v r = (r', None)" and "repo_GetGauge R c' n r' = (r'', Inr x)"
  shows "x = v"
  using assms get_gauge_ok [of r' c' n r'' x] set_gauge_ok [of r c n v r'] set_gauge_inv [of r c n v r' None]
  by simp

lemma add_then_get:
  assumes "inv r" and "repo_AddCounter R c n d r = (r', None)" and "repo_GetCounter R c' n r' = (r'', Inr x)"
  shows "x = counter_or_zero (counter_of r n) + d"
  using assms get_counter_ok [of r' c' n r'' x] add_counter_ok [of r c n d r'] add_counter_inv [of r c n d r' None]
  by simp

end

text \<open>
  The weakest contract: a predicate that every call keeps, whatever its outcome. The invariant of the full
  contract is one.
\<close>

locale repo_keeps =
  fixes R :: "'r MetricsRepo"
    and I :: "'r \<Rightarrow> bool"
  assumes keeps_get_gauge: "I r \<Longrightarrow> I (fst (repo_GetGauge R c n r))"
    and keeps_get_counter: "I r \<Longrightarrow> I (fst (repo_GetCounter R c n r))"
    and keeps_set_gauge: "I r \<Longrightarrow> I (fst (repo_SetGauge R c n v r))"
    and keeps_add_counter: "I r \<Longrightarrow> I (fst (repo_AddCounter R c n d r))"
    and keeps_update_many: "I r \<Longrightarrow> I (fst (repo_UpdateMany R c ms r))"
    and keeps_snapshot: "I r \<Longrightarrow> I (fst (repo_Snapshot R c r))"

sublocale metrics_repo \<subseteq> weak: repo_keeps R inv
  by unfold_locales (use inv_intros in \<open>metis prod.collapse\<close>)+

locale separate_repo = metrics_repo +
  assumes get_gauge_total:
      "inv r \<Longrightarrow> snd (repo_GetGauge R c n r) =
         (case gauge_of r n of None \<Rightarrow> Inl ErrNotFound | Some v \<Rightarrow> Inr v)"
    and get_counter_total:
      "inv r \<Longrightarrow> snd (repo_GetCounter R c n r) =
         (case counter_of r n of None \<Rightarrow> Inl ErrNotFound | Some d \<Rightarrow> Inr d)"
    and set_gauge_total: "inv r \<Longrightarrow> snd (repo_SetGauge R c n v r) = None"
    and set_gauge_separate: "inv r \<Longrightarrow> counter_of (fst (repo_SetGauge R c n v r)) = counter_of r"
    and add_counter_total: "inv r \<Longrightarrow> snd (repo_AddCounter R c n d r) = None"
    and add_counter_separate: "inv r \<Longrightarrow> gauge_of (fst (repo_AddCounter R c n d r)) = gauge_of r"
    and update_many_total: "inv r \<Longrightarrow> snd (repo_UpdateMany R c ms r) = None"
    and update_many_gauges: "inv r \<Longrightarrow> gauge_of (fst (repo_UpdateMany R c ms r)) = spec_gauges ms (gauge_of r)"
    and update_many_counters: "inv r \<Longrightarrow> counter_of (fst (repo_UpdateMany R c ms r)) = spec_counters ms (counter_of r)"
    and snapshot_total: "inv r \<Longrightarrow> \<exists>s. snd (repo_Snapshot R c r) = Inr s"
begin

lemma update_many_counter_sum:
  "inv r \<Longrightarrow> deltas_for k ms \<noteq> [] \<Longrightarrow>
     counter_of (fst (repo_UpdateMany R c ms r)) k =
       Some (counter_or_zero (counter_of r k) + sum_list (deltas_for k ms))"
  by (simp add: update_many_counters spec_counters_sum)

lemma update_many_gauge_last:
  "inv r \<Longrightarrow> values_for k ms \<noteq> [] \<Longrightarrow>
     gauge_of (fst (repo_UpdateMany R c ms r)) k = Some (last (values_for k ms))"
  by (simp add: update_many_gauges spec_gauges_last)

end

end
