(* ===== verification/Misc.thy ===== *)
theory Misc
  imports Domain
begin

text \<open>
  The helpers of \<open>internal/misc\<close> and \<open>pkg/util\<close>: the retry loop, environment readers, the checksum, the
  resetting object pool, and the build-information printer.

  \<open>Retry\<close> runs over a world state \<open>'w\<close>. Its arguments besides the source's are what the loop reads of
  its context: \<open>ctxErr\<close> is \<open>ctx.Err()\<close>, and \<open>wait d\<close> is the \<open>select\<close> between the timer of duration \<open>d\<close>
  (no error) and \<open>ctx.Done()\<close> (the context's error). The index into \<open>delays\<close> grows at every turn, which
  is the termination measure.

  \<open>crypto/sha256\<close> and \<open>time.ParseDuration\<close> are arguments of the definitions that call them.
\<close>

section \<open>retry.go\<close>

definition Second :: duration where
  "Second = 1000000000"

definition DefaultBackoff :: "duration list" where
  "DefaultBackoff = [1 * Second, 3 * Second, 5 * Second]"

function Retry_from ::
  "('w \<Rightarrow> 'w \<times> go_error option) \<Rightarrow> (duration \<Rightarrow> 'w \<Rightarrow> 'w \<times> go_error option) \<Rightarrow> duration list \<Rightarrow>
   (go_error \<Rightarrow> bool) \<Rightarrow> ('w \<Rightarrow> 'w \<times> go_error option) \<Rightarrow> nat \<Rightarrow> 'w \<Rightarrow> 'w \<times> go_error option" where
  "Retry_from ctxErr wait delays isRetryable operation i w =
     (case operation w of
        (w1, None) \<Rightarrow> (w1, None)
      | (w1, Some err) \<Rightarrow>
          (case ctxErr w1 of
             (w2, Some ce) \<Rightarrow> (w2, Some ce)
           | (w2, None) \<Rightarrow>
               (if length delays \<le> i \<or> \<not> isRetryable err then (w2, Some err)
                else case wait (delays ! i) w2 of
                       (w3, Some ce) \<Rightarrow> (w3, Some ce)
                     | (w3, None) \<Rightarrow> Retry_from ctxErr wait delays isRetryable operation (Suc i) w3)))"
  by pat_completeness auto
termination
  by (relation "measure (\<lambda>(ce, wt, ds, ir, oper, i, w). length ds - i)") auto

declare Retry_from.simps [simp del]

definition Retry ::
  "('w \<Rightarrow> 'w \<times> go_error option) \<Rightarrow> (duration \<Rightarrow> 'w \<Rightarrow> 'w \<times> go_error option) \<Rightarrow> duration list \<Rightarrow>
   (go_error \<Rightarrow> bool) \<Rightarrow> ('w \<Rightarrow> 'w \<times> go_error option) \<Rightarrow> 'w \<Rightarrow> 'w \<times> go_error option" where
  "Retry ctxErr wait delays isRetryable operation w =
     Retry_from ctxErr wait delays isRetryable operation 0 w"

text \<open>
  An attempt that also writes a local variable of the caller (a scanned value, a response) runs on the
  pair of the world and that variable; steps that do not touch the variable are lifted.
\<close>

definition with_local :: "('w \<Rightarrow> 'w \<times> 'e) \<Rightarrow> 'w \<times> 'a \<Rightarrow> ('w \<times> 'a) \<times> 'e" where
  "with_local f wa = (let (w, a) = wa; (w', e) = f w in ((w', a), e))"

section \<open>env.go\<close>

text \<open>The process environment; \<open>os.Getenv\<close> returns the empty string for an unset variable.\<close>

type_synonym environ = "string gomap"

definition os_Getenv :: "environ \<Rightarrow> string \<Rightarrow> string" where
  "os_Getenv env key = (case map_of env key of None \<Rightarrow> '''' | Some v \<Rightarrow> v)"

definition Getenv :: "environ \<Rightarrow> string \<Rightarrow> string \<Rightarrow> string" where
  "Getenv env key def = (let v = os_Getenv env key in if v \<noteq> '''' then v else def)"

definition GetDuration ::
  "(string \<Rightarrow> duration option) \<Rightarrow> environ \<Rightarrow> string \<Rightarrow> duration \<Rightarrow> duration" where
  "GetDuration ParseDuration env key def =
     (let v = os_Getenv env key in
      if v = '''' then def
      else case ParseInt v of
             Some n \<Rightarrow> if sint n \<le> 0 then 0 else n * Second
           | None \<Rightarrow>
               (case ParseDuration v of
                  Some d \<Rightarrow> if sint d \<le> 0 then 0 else d
                | None \<Rightarrow> def))"

definition GetBool :: "environ \<Rightarrow> string \<Rightarrow> bool \<Rightarrow> bool" where
  "GetBool env key def =
     (let v = TrimSpace (ToLower (os_Getenv env key)) in
      if v = '''' then def
      else if v \<in> set [''1'', ''true'', ''t'', ''yes'', ''y''] then True
      else if v \<in> set [''0'', ''false'', ''f'', ''no'', ''n''] then False
      else def)"

section \<open>hash.go\<close>

definition hex_digit :: "nat \<Rightarrow> char" where
  "hex_digit n = (if n < 10 then char_of (48 + n) else char_of (87 + n))"

definition hex_EncodeToString :: "string \<Rightarrow> string" where
  "hex_EncodeToString bs =
     concat (map (\<lambda>b. let n = of_char b :: nat in [hex_digit (n div 16), hex_digit (n mod 16)]) bs)"

definition SumSHA256 :: "(string \<Rightarrow> string) \<Rightarrow> string \<Rightarrow> string \<Rightarrow> string" where
  "SumSHA256 sha256 val key = hex_EncodeToString (sha256 (val @ key))"

section \<open>pool.go\<close>

text \<open>
  The objects a \<open>sync.Pool\<close> holds, as a list. \<open>sync.Pool.Get\<close> may hand out any of them or call \<open>New\<close>,
  so \<open>Pool_Get\<close> takes the choice as an argument: a position, or a position out of range for \<open>New\<close>.
\<close>

record 't Pool =
  pool_new :: "unit \<Rightarrow> 't"
  pool_objs :: "'t list"

definition NewPool :: "'t \<Rightarrow> (unit \<Rightarrow> 't) option \<Rightarrow> 't Pool" where
  "NewPool zero newFn =
     \<lparr>pool_new = (\<lambda>_. case newFn of Some f \<Rightarrow> f () | None \<Rightarrow> zero), pool_objs = []\<rparr>"

definition Pool_Get :: "nat \<Rightarrow> 't Pool \<Rightarrow> 't Pool \<times> 't" where
  "Pool_Get i pl =
     (if i < length (pool_objs pl)
      then (pl\<lparr>pool_objs := take i (pool_objs pl) @ drop (i + 1) (pool_objs pl)\<rparr>, pool_objs pl ! i)
      else (pl, pool_new pl ()))"

definition Pool_Put :: "('t \<Rightarrow> 't) \<Rightarrow> 't \<Rightarrow> 't Pool \<Rightarrow> 't Pool" where
  "Pool_Put Reset v pl = pl\<lparr>pool_objs := pool_objs pl @ [Reset v]\<rparr>"

datatype 't pool_op = PGet nat | PPut 't

fun Pool_run :: "('t \<Rightarrow> 't) \<Rightarrow> 't Pool \<Rightarrow> 't pool_op list \<Rightarrow> 't Pool \<times> 't list" where
  "Pool_run Reset pl [] = (pl, [])"
| "Pool_run Reset pl (PGet i # ops) =
     (let (pl', x) = Pool_Get i pl; (pl'', xs) = Pool_run Reset pl' ops in (pl'', x # xs))"
| "Pool_run Reset pl (PPut v # ops) = Pool_run Reset (Pool_Put Reset v pl) ops"

section \<open>pkg/util\<close>

definition na :: "string \<Rightarrow> string" where
  "na v = (if v = '''' then ''N/A'' else v)"

definition PrintBuildInfo :: "string \<Rightarrow> string \<Rightarrow> string \<Rightarrow> string" where
  "PrintBuildInfo buildVersion buildDate buildCommit =
     ''Build version: '' @ na buildVersion @ [CHR 0x0A] @
     ''Build date: '' @ na buildDate @ [CHR 0x0A] @
     ''Build commit: '' @ na buildCommit @ [CHR 0x0A]"

section \<open>Facts about the retry loop\<close>

text \<open>The five ways one turn of the loop can go.\<close>

lemma Retry_from_cases:
  assumes "Retry_from ctxErr wait delays isRetryable operation i w = (w', x)"
  obtains (ok) "operation w = (w', None)" "x = None"
  | (ended) w1 e ce where "operation w = (w1, Some e)" "ctxErr w1 = (w', Some ce)" "x = Some ce"
  | (gave_up) w1 e where "operation w = (w1, Some e)" "ctxErr w1 = (w', None)" "x = Some e"
      "length delays \<le> i \<or> \<not> isRetryable e"
  | (interrupted) w1 e w2 ce where "operation w = (w1, Some e)" "ctxErr w1 = (w2, None)"
      "i < length delays" "isRetryable e" "wait (delays ! i) w2 = (w', Some ce)" "x = Some ce"
  | (again) w1 e w2 w3 where "operation w = (w1, Some e)" "ctxErr w1 = (w2, None)"
      "i < length delays" "isRetryable e" "wait (delays ! i) w2 = (w3, None)"
      "Retry_from ctxErr wait delays isRetryable operation (Suc i) w3 = (w', x)"
  using assms
  by (subst (asm) Retry_from.simps) (auto split: prod.splits option.splits if_splits)

text \<open>The same, as an induction rule over the turns of a finished run.\<close>

lemma Retry_from_run_induct [consumes 1, case_names ok ended gave_up interrupted again]:
  assumes run: "Retry_from ctxErr wait delays isRetryable operation i w = (w', x)"
    and "\<And>i w. operation w = (w', None) \<Longrightarrow> x = None \<Longrightarrow> P i w"
    and "\<And>i w w1 e ce. operation w = (w1, Some e) \<Longrightarrow> ctxErr w1 = (w', Some ce) \<Longrightarrow> x = Some ce \<Longrightarrow> P i w"
    and "\<And>i w w1 e. operation w = (w1, Some e) \<Longrightarrow> ctxErr w1 = (w', None) \<Longrightarrow> x = Some e \<Longrightarrow>
           length delays \<le> i \<or> \<not> isRetryable e \<Longrightarrow> P i w"
    and "\<And>i w w1 e w2 ce. operation w = (w1, Some e) \<Longrightarrow> ctxErr w1 = (w2, None) \<Longrightarrow> i < length delays \<Longrightarrow>
           isRetryable e \<Longrightarrow> wait (delays ! i) w2 = (w', Some ce) \<Longrightarrow> x = Some ce \<Longrightarrow> P i w"
    and again: "\<And>i w w1 e w2 w3. operation w = (w1, Some e) \<Longrightarrow> ctxErr w1 = (w2, None) \<Longrightarrow>
           i < length delays \<Longrightarrow> isRetryable e \<Longrightarrow> wait (delays ! i) w2 = (w3, None) \<Longrightarrow>
           P (Suc i) w3 \<Longrightarrow> P i w"
  shows "P i w"
  using run
proof (induction "length delays - i" arbitrary: i w rule: less_induct)
  case less
  from less.prems show ?case
  proof (cases rule: Retry_from_cases)
    case (again w1 e w2 w3)
    moreover from again have "P (Suc i) w3" using less.hyps [of "Suc i" w3] by simp
    ultimately show ?thesis using assms(6) by blast
  qed (use assms(2-5) in blast)+
qed

text \<open>
  A Hoare rule: \<open>I\<close> holds before every attempt and survives a failed one, a context check and a wait;
  a successful attempt establishes \<open>Q\<close>.
\<close>

lemma Retry_from_rule:
  assumes ok: "\<And>w w'. I w \<Longrightarrow> operation w = (w', None) \<Longrightarrow> Q w'"
    and err: "\<And>w w' e. I w \<Longrightarrow> operation w = (w', Some e) \<Longrightarrow> I w'"
    and ctx: "\<And>w w' x. I w \<Longrightarrow> ctxErr w = (w', x) \<Longrightarrow> I w'"
    and wait: "\<And>d w w' x. I w \<Longrightarrow> wait d w = (w', x) \<Longrightarrow> I w'"
    and run: "Retry_from ctxErr wait delays isRetryable operation i w = (w', x)"
    and init: "I w"
  shows "case x of None \<Rightarrow> Q w' | Some e \<Rightarrow> I w'"
  using run init
proof (induction rule: Retry_from_run_induct)
  case (interrupted i w w1 e w2 ce)
  then have "I w2" by (blast intro: err ctx)
  with interrupted show ?case by (auto intro: wait)
next
  case (again i w w1 e w2 w3)
  then have "I w2" by (blast intro: err ctx)
  with again show ?case by (blast intro: wait)
qed (auto intro: ok err ctx)

lemmas Retry_rule = Retry_from_rule [where i = 0, folded Retry_def]

text \<open>
  A measure of the world that every attempt moves by one and nothing else moves counts the attempts:
  at least one, at most one more than there are delays left.
\<close>

lemma Retry_from_attempts:
  assumes op: "\<And>w w' x. operation w = (w', x) \<Longrightarrow> calls w' = Suc (calls w)"
    and ctx: "\<And>w w' x. ctxErr w = (w', x) \<Longrightarrow> calls w' = calls w"
    and wait: "\<And>d w w' x. wait d w = (w', x) \<Longrightarrow> calls w' = calls w"
    and run: "Retry_from ctxErr wait delays isRetryable operation i w = (w', x)"
  shows "calls w < calls w' \<and> calls w' \<le> calls w + (length delays - i) + 1"
  using run
proof (induction rule: Retry_from_run_induct)
  case (again i w w1 e w2 w3)
  then show ?case using op ctx wait by fastforce
qed (auto dest!: op ctx wait)

text \<open>Success means that the last attempt succeeded, and the world is the one it left.\<close>

lemma Retry_from_success:
  assumes "Retry_from ctxErr wait delays isRetryable operation i w = (w', x)"
  shows "x = None \<Longrightarrow> \<exists>w0. operation w0 = (w', None)"
  using assms by (induction rule: Retry_from_run_induct) auto

text \<open>An error is the last attempt's, or the context's.\<close>

lemma Retry_from_error:
  assumes "Retry_from ctxErr wait delays isRetryable operation i w = (w', x)"
  shows "x = Some e \<Longrightarrow> (\<exists>w0 w1. operation w0 = (w1, Some e)) \<or> (\<exists>w0 w1. ctxErr w0 = (w1, Some e)) \<or>
         (\<exists>d w0 w1. wait d w0 = (w1, Some e))"
  using assms by (induction rule: Retry_from_run_induct) auto

section \<open>Facts about the other helpers\<close>

lemma Retry_ok_first: "operation w = (w', None) \<Longrightarrow> Retry ce wt ds ir operation w = (w', None)"
  by (simp add: Retry_def Retry_from.simps)

lemma Retry_not_retryable:
  "operation w = (w1, Some e) \<Longrightarrow> ctxErr w1 = (w2, None) \<Longrightarrow> \<not> ir e \<Longrightarrow>
     Retry ctxErr wt ds ir operation w = (w2, Some e)"
  by (simp add: Retry_def Retry_from.simps)

lemma Pool_Get_objs:
  "Pool_Get i pl = (pl', x) \<Longrightarrow>
     set (pool_objs pl') \<subseteq> set (pool_objs pl) \<and> pool_new pl' = pool_new pl \<and>
     (x \<in> set (pool_objs pl) \<or> x = pool_new pl ())"
  by (auto simp: Pool_Get_def split: if_splits dest: in_set_takeD in_set_dropD)

lemma Pool_run_objs:
  assumes "Pool_run Reset pl ops = (pl', xs)"
    and "\<forall>x \<in> set (pool_objs pl). \<exists>y. x = Reset y"
  shows "\<forall>x \<in> set xs. x = pool_new pl () \<or> (\<exists>y. x = Reset y)"
  using assms
proof (induction Reset pl ops arbitrary: xs rule: Pool_run.induct)
  case (1 Reset pl)
  then show ?case by simp
next
  case (2 Reset pl i ops)
  obtain pl1 x where g: "Pool_Get i pl = (pl1, x)" by fastforce
  obtain ys where r: "Pool_run Reset pl1 ops = (pl', ys)" and xs: "xs = x # ys"
    using "2.prems"(1) g by (auto split: prod.splits)
  from g have sub: "set (pool_objs pl1) \<subseteq> set (pool_objs pl)" and new: "pool_new pl1 = pool_new pl"
    and x: "x \<in> set (pool_objs pl) \<or> x = pool_new pl ()"
    using Pool_Get_objs by fast+
  have "\<forall>y \<in> set ys. y = pool_new pl1 () \<or> (\<exists>z. y = Reset z)"
    using "2.IH" [OF g [symmetric] refl r] "2.prems"(2) sub by blast
  with xs x new "2.prems"(2) show ?case by auto
next
  case (3 Reset pl v ops)
  then show ?case by (fastforce simp: Pool_Put_def)
qed

text \<open>The digest is over the concatenation only: moving bytes from the value into the key changes nothing.\<close>

lemma hex_visible: "c \<in> set (hex_EncodeToString bs) \<Longrightarrow> visible c"
proof -
  have "visible (hex_digit n)" if "n < 16" for n
    using that by (simp add: visible_def hex_digit_def)
  moreover have "(of_char b :: nat) div 16 < 16" for b
    by (cases b) (simp add: of_bool_def horner_sum_simps less_mult_imp_div_less)
  ultimately show "c \<in> set (hex_EncodeToString bs) \<Longrightarrow> visible c"
    by (auto simp: hex_EncodeToString_def Let_def)
qed

lemma TrimSpace_SumSHA256 [simp]: "TrimSpace (SumSHA256 h v k) = SumSHA256 h v k"
  by (rule TrimSpace_visible) (simp add: SumSHA256_def hex_visible)

lemma SumSHA256_shift: "SumSHA256 h (a @ b) k = SumSHA256 h a (b @ k)"
  by (simp add: SumSHA256_def)

lemma GetDuration_nonneg:
  assumes "0 \<le> sint def" and "\<And>n. ParseInt (os_Getenv env key) = Some n \<Longrightarrow> 0 \<le> sint (n * Second)"
  shows "0 \<le> sint (GetDuration P env key def)"
  using assms by (auto simp: GetDuration_def Let_def split: option.split)

section \<open>Properties\<close>

text \<open>
  Instrumentation for counting: an operation that also counts its calls, and a step that leaves the
  count alone.
\<close>

definition counted :: "('w \<Rightarrow> 'w \<times> 'e) \<Rightarrow> 'w \<times> nat \<Rightarrow> ('w \<times> nat) \<times> 'e" where
  "counted f wn = (case f (fst wn) of (w', e) \<Rightarrow> ((w', Suc (snd wn)), e))"

definition uncounted :: "('w \<Rightarrow> 'w \<times> 'e) \<Rightarrow> 'w \<times> nat \<Rightarrow> ('w \<times> nat) \<times> 'e" where
  "uncounted f wn = (case f (fst wn) of (w', e) \<Rightarrow> ((w', snd wn), e))"

abbreviation Retry_counted where
  "Retry_counted ctxErr wait delays isRetryable operation w \<equiv>
     Retry (uncounted ctxErr) (\<lambda>d. uncounted (wait d)) delays isRetryable (counted operation) (w, 0 :: nat)"

lemma Retry_from_counted:
  "Retry_from (uncounted ce) (\<lambda>d. uncounted (wt d)) ds ir (counted f) i (w, n) = ((w', m), x) \<Longrightarrow>
     Retry_from ce wt ds ir f i w = (w', x)"
proof (induction "length ds - i" arbitrary: i w n rule: less_induct)
  case less
  from less.prems show ?case
  proof (cases rule: Retry_from_cases)
    case (again w1 e w2 w3)
    then obtain u1 u2 u3 k where "f w = (u1, Some e)" "ce u1 = (u2, None)" "wt (ds ! i) u2 = (u3, None)" "w3 = (u3, k)"
      by (auto simp: counted_def uncounted_def split: prod.splits)
    with again less.hyps [of "Suc i" u3 k] show ?thesis by (simp add: Retry_from.simps [of ce wt ds ir f i w])
  qed (auto simp: counted_def uncounted_def Retry_from.simps [of ce wt ds ir f i w] split: prod.splits)
qed

text \<open>
  C28: \<open>Retry\<close> always returns, after at least one call of its operation and at most one more than there
  are delays (four under \<open>DefaultBackoff\<close>); counting the calls does not change what it does.
\<close>

theorem Retry_bounded:
  "case Retry_counted ctxErr wait delays isRetryable operation w of
     ((w', n), x) \<Rightarrow> 1 \<le> n \<and> n \<le> length delays + 1 \<and>
       Retry ctxErr wait delays isRetryable operation w = (w', x) \<and> length DefaultBackoff + 1 = 4"
proof -
  obtain w' n x where run: "Retry_counted ctxErr wait delays isRetryable operation w = ((w', n), x)"
    by (metis surj_pair)
  have "snd (w, 0 :: nat) < snd (w', n) \<and> snd (w', n) \<le> snd (w, 0 :: nat) + (length delays - 0) + 1"
    by (rule Retry_from_attempts [OF _ _ _ run [unfolded Retry_def]])
       (auto simp: counted_def uncounted_def split: prod.splits)
  with run Retry_from_counted [OF run [unfolded Retry_def]] show ?thesis
    by (simp add: Retry_def DefaultBackoff_def)
qed

text \<open>An operation that fails as a script says: the next element of the list, success when it is empty.\<close>

fun scripted :: "go_error option list \<Rightarrow> go_error option list \<times> go_error option" where
  "scripted [] = ([], None)"
| "scripted (x # xs) = (xs, x)"

abbreviation live :: "'w \<Rightarrow> 'w \<times> go_error option" where
  "live w \<equiv> (w, None)"

lemma Retry_from_scripted:
  assumes "\<forall>e \<in> set errs. isRetryable e" and "i \<le> length delays"
  shows "Retry_from live (\<lambda>d. live) delays isRetryable scripted i (map Some errs @ rest) =
    (if length errs \<le> length delays - i
     then Retry_from live (\<lambda>d. live) delays isRetryable scripted (i + length errs) rest
     else (map Some (drop (length delays - i + 1) errs) @ rest, Some (errs ! (length delays - i))))"
  using assms
proof (induction errs arbitrary: i)
  case Nil
  show ?case by simp
next
  case (Cons e errs)
  show ?case
  proof (cases "i < length delays")
    case True
    with Cons.IH [of "Suc i"] Cons.prems show ?thesis
      by (auto simp: Retry_from.simps [of live "\<lambda>d. live" delays isRetryable scripted i "Some e # map Some errs @ rest"] Suc_diff_Suc [symmetric])
  next
    case False
    with Cons.prems have "i = length delays" by simp
    then show ?thesis
      by (simp add: Retry_from.simps [of live "\<lambda>d. live" delays isRetryable scripted "length delays"])
  qed
qed

text \<open>
  C36: while its context lives, \<open>Retry\<close> hides a run of retryable failures exactly when there are no more
  of them than delays; otherwise it stops after the last delay with the error of that attempt. An
  error that is not retryable is returned at once, without another attempt.
\<close>

theorem Retry_transient:
  assumes "\<forall>e \<in> set errs. isRetryable e" and "\<not> isRetryable fatal" and "length errs \<le> length delays"
    and "\<forall>e \<in> set errs'. isRetryable e" and "length delays < length errs'"
  shows "Retry live (\<lambda>d. live) delays isRetryable scripted (map Some errs @ None # rest) = (rest, None) \<and>
         Retry live (\<lambda>d. live) delays isRetryable scripted (map Some errs @ Some fatal # rest) = (rest, Some fatal) \<and>
         Retry live (\<lambda>d. live) delays isRetryable scripted (map Some errs') =
           (map Some (drop (length delays + 1) errs'), Some (errs' ! length delays))"
  using Retry_from_scripted [OF assms(1), of 0 delays] Retry_from_scripted [OF assms(4), of 0 delays "[]"] assms(2,3,5)
  by (simp add: Retry_def Retry_from.simps [of _ _ _ _ _ _ "None # rest"]
        Retry_from.simps [of _ _ _ _ _ _ "Some fatal # rest"])

theorem Retry_transient_witness:
  "Retry live (\<lambda>d. live) DefaultBackoff (\<lambda>e. e = EPIPE) scripted [Some EPIPE, None] = ([], None) \<and>
   Retry live (\<lambda>d. live) DefaultBackoff (\<lambda>e. e = EPIPE) scripted [Some EPIPE, Some ErrNotFound] = ([], Some ErrNotFound) \<and>
   Retry live (\<lambda>d. live) DefaultBackoff (\<lambda>e. e = EPIPE) scripted (replicate 5 (Some EPIPE)) = ([Some EPIPE], Some EPIPE)"
  using Retry_transient [of "[EPIPE]" "\<lambda>e. e = EPIPE" ErrNotFound DefaultBackoff "[EPIPE, EPIPE, EPIPE, EPIPE, EPIPE]" "[]"]
  by (simp add: DefaultBackoff_def numeral_eq_Suc)

text \<open>
  whatever sequence of \<open>Get\<close> and \<open>Put\<close> a pool sees, every object it hands out is either newly made
  or has been reset: no caller sees the state another one left.
\<close>

theorem Pool_hands_out_reset:
  "\<forall>x \<in> set (snd (Pool_run Reset (NewPool zero newFn) ops)).
     x = pool_new (NewPool zero newFn) () \<or> (\<exists>y. x = Reset y)"
  using Pool_run_objs [of Reset "NewPool zero newFn" ops]
  by (cases "Pool_run Reset (NewPool zero newFn) ops") (auto simp: NewPool_def)

theorem Pool_hands_out_reset_witness:
  "set (snd (Pool_run (\<lambda>x. 0) (NewPool (1 :: nat) None) [PPut 5, PGet 0, PGet 0])) \<subseteq> {0, 1}"
  using Pool_hands_out_reset [of "\<lambda>x. 0" "1 :: nat" None "[PPut 5, PGet 0, PGet 0]"]
  by (auto simp: NewPool_def simp del: Pool_run.simps)

end
