(* ===== verification/Filesystem.thy ===== *)
theory Filesystem
  imports Misc
begin

text \<open>
  The parts of packages \<open>os\<close> and \<open>path/filepath\<close> (Unix) that the file adapters and the code generator
  call. A file system maps path names to contents; \<open>fs_faults\<close> scripts what the next system calls
  do (an exhausted script succeeds), and a write may fail after some of its bytes; \<open>fs_rand\<close> is the
  stream of random names that \<open>os.CreateTemp\<close> tries. Directories carry no state of their own.
\<close>

section \<open>path/filepath\<close>

definition slash :: char where
  "slash = CHR ''/''"

fun split_slash :: "string \<Rightarrow> string list" where
  "split_slash [] = [[]]"
| "split_slash (c # cs) =
     (if c = slash then [] # split_slash cs
      else case split_slash cs of [] \<Rightarrow> [[c]] | s # ss \<Rightarrow> (c # s) # ss)"

text \<open>The element stack (reversed) of \<open>filepath.Clean\<close>.\<close>

fun clean_elems :: "bool \<Rightarrow> string list \<Rightarrow> string list \<Rightarrow> string list" where
  "clean_elems rooted stack [] = stack"
| "clean_elems rooted stack (e # es) =
     (if e = '''' \<or> e = ''.'' then clean_elems rooted stack es
      else if e = ''..'' then
        (case stack of
           prev # rest \<Rightarrow> if prev = ''..'' then clean_elems rooted (e # stack) es else clean_elems rooted rest es
         | [] \<Rightarrow> clean_elems rooted (if rooted then [] else [e]) es)
      else clean_elems rooted (e # stack) es)"

fun join_slash :: "string list \<Rightarrow> string" where
  "join_slash [] = []"
| "join_slash [e] = e"
| "join_slash (e # es) = e @ slash # join_slash es"

definition filepath_Clean :: "string \<Rightarrow> string" where
  "filepath_Clean path =
     (let rooted = HasPrefix path [slash];
          body = join_slash (rev (clean_elems rooted [] (split_slash path)))
      in if rooted then slash # body else if body = '''' then ''.'' else body)"

definition last_slash_prefix :: "string \<Rightarrow> string" where
  "last_slash_prefix path = rev (dropWhile (\<lambda>c. c \<noteq> slash) (rev path))"

definition filepath_Dir :: "string \<Rightarrow> string" where
  "filepath_Dir path = filepath_Clean (last_slash_prefix path)"

definition filepath_Join :: "string \<Rightarrow> string \<Rightarrow> string" where
  "filepath_Join a b =
     (if a = '''' \<and> b = '''' then '''' else if a = '''' then filepath_Clean b
      else if b = '''' then filepath_Clean a else filepath_Clean (a @ slash # b))"

section \<open>os\<close>

datatype fs_fault = FsOk | FsFail go_error | FsPartial nat go_error

record fs =
  fs_files :: "string gomap"
  fs_faults :: "fs_fault list"
  fs_rand :: "string list"

definition fs_next :: "fs \<Rightarrow> fs \<times> fs_fault" where
  "fs_next s = (case fs_faults s of [] \<Rightarrow> (s, FsOk) | x # xs \<Rightarrow> (s\<lparr>fs_faults := xs\<rparr>, x))"

text \<open>A system call with no effect on contents: \<open>MkdirAll\<close>, \<open>Close\<close>.\<close>

definition fs_call :: "fs \<Rightarrow> fs \<times> go_error option" where
  "fs_call s = (case fs_next s of (s1, FsOk) \<Rightarrow> (s1, None) | (s1, FsFail e) \<Rightarrow> (s1, Some e) | (s1, FsPartial n e) \<Rightarrow> (s1, Some e))"

definition fs_put :: "string \<Rightarrow> string \<Rightarrow> fs \<Rightarrow> fs" where
  "fs_put path content s = s\<lparr>fs_files := gm_set path content (fs_files s)\<rparr>"

definition fs_del :: "string \<Rightarrow> fs \<Rightarrow> fs" where
  "fs_del path s = s\<lparr>fs_files := AList.delete path (fs_files s)\<rparr>"

definition fs_content :: "string \<Rightarrow> fs \<Rightarrow> string option" where
  "fs_content path s = map_of (fs_files s) path"

text \<open>\<open>os.OpenFile(path, O_CREATE|O_APPEND|O_WRONLY, ...)\<close>.\<close>

definition os_OpenAppend :: "string \<Rightarrow> fs \<Rightarrow> fs \<times> go_error option" where
  "os_OpenAppend path s =
     (case fs_call s of
        (s1, Some e) \<Rightarrow> (s1, Some e)
      | (s1, None) \<Rightarrow> (if fs_content path s1 = None then (fs_put path [] s1, None) else (s1, None)))"

text \<open>A write at the end of an open file; a failing write may have written a prefix.\<close>

definition os_Write :: "string \<Rightarrow> string \<Rightarrow> fs \<Rightarrow> fs \<times> go_error option" where
  "os_Write path bytes s =
     (let old = (case fs_content path s of None \<Rightarrow> [] | Some b \<Rightarrow> b) in
      case fs_next s of
        (s1, FsOk) \<Rightarrow> (fs_put path (old @ bytes) s1, None)
      | (s1, FsFail e) \<Rightarrow> (s1, Some e)
      | (s1, FsPartial n e) \<Rightarrow> (fs_put path (old @ take n bytes) s1, Some e))"

text \<open>\<open>os.Open\<close> for reading: the content, or an error.\<close>

definition os_Open :: "string \<Rightarrow> fs \<Rightarrow> fs \<times> (go_error + string)" where
  "os_Open path s =
     (case fs_call s of
        (s1, Some e) \<Rightarrow> (s1, Inl e)
      | (s1, None) \<Rightarrow> (s1, case fs_content path s1 of None \<Rightarrow> Inl ErrNotExist | Some b \<Rightarrow> Inr b))"

text \<open>\<open>os.CreateTemp(dir, ".metrics-*")\<close>: the first random name that is not taken.\<close>

definition tmp_path :: "string \<Rightarrow> string \<Rightarrow> string" where
  "tmp_path dir suffix =
     (if dir \<noteq> [] \<and> last dir = slash then dir else dir @ [slash]) @ ''.metrics-'' @ suffix"

fun pick_tmp :: "string \<Rightarrow> string list \<Rightarrow> fs \<Rightarrow> (string \<times> string list) option" where
  "pick_tmp dir [] s = None"
| "pick_tmp dir (r # rs) s =
     (if fs_content (tmp_path dir r) s = None then Some (tmp_path dir r, rs) else pick_tmp dir rs s)"

definition os_CreateTemp :: "string \<Rightarrow> fs \<Rightarrow> fs \<times> (go_error + string)" where
  "os_CreateTemp dir s =
     (case fs_call s of
        (s1, Some e) \<Rightarrow> (s1, Inl e)
      | (s1, None) \<Rightarrow>
          (case pick_tmp dir (fs_rand s1) s1 of
             None \<Rightarrow> (s1, Inl (ErrNew ''file exists''))
           | Some (name, rs) \<Rightarrow> (fs_put name [] (s1\<lparr>fs_rand := rs\<rparr>), Inr name)))"

definition os_Remove :: "string \<Rightarrow> fs \<Rightarrow> fs \<times> go_error option" where
  "os_Remove path s =
     (case fs_call s of
        (s1, Some e) \<Rightarrow> (s1, Some e)
      | (s1, None) \<Rightarrow> (if fs_content path s1 = None then (s1, Some ErrNotExist) else (fs_del path s1, None)))"

definition os_Rename :: "string \<Rightarrow> string \<Rightarrow> fs \<Rightarrow> fs \<times> go_error option" where
  "os_Rename src dst s =
     (case fs_call s of
        (s1, Some e) \<Rightarrow> (s1, Some e)
      | (s1, None) \<Rightarrow>
          (case fs_content src s1 of
             None \<Rightarrow> (s1, Some ErrNotExist)
           | Some b \<Rightarrow> (fs_put dst b (if src = dst then s1 else fs_del src s1), None)))"

section \<open>Facts\<close>

lemma fs_content_put [simp]: "fs_content p (fs_put q b s) = (if p = q then Some b else fs_content p s)"
  by (simp add: fs_content_def fs_put_def)

lemma fs_content_del [simp]: "fs_content p (fs_del q s) = (if p = q then None else fs_content p s)"
  by (simp add: fs_content_def fs_del_def delete_conv')

lemma fs_content_cong [simp]:
  "fs_content p (s\<lparr>fs_faults := x\<rparr>) = fs_content p s" "fs_content p (s\<lparr>fs_rand := y\<rparr>) = fs_content p s"
  by (simp_all add: fs_content_def)

lemma fs_rand_simps [simp]:
  "fs_rand (fs_put p b s) = fs_rand s" "fs_rand (fs_del p s) = fs_rand s"
  "fs_faults (fs_put p b s) = fs_faults s" "fs_faults (fs_del p s) = fs_faults s"
  by (simp_all add: fs_put_def fs_del_def)

lemma fs_next_facts:
  assumes "fs_next s = (s', x)"
  shows "fs_content p s' = fs_content p s" and "fs_rand s' = fs_rand s"
    and "fs_faults s = [] \<Longrightarrow> x = FsOk \<and> fs_faults s' = []"
  using assms by (auto simp: fs_next_def split: list.splits)

lemma fs_call_facts:
  assumes "fs_call s = (s', x)"
  shows "fs_content p s' = fs_content p s" and "fs_rand s' = fs_rand s"
    and "fs_faults s = [] \<Longrightarrow> x = None \<and> fs_faults s' = []"
  using assms by (auto simp: fs_call_def fs_next_def split: list.splits fs_fault.splits)

lemma pick_tmp_Some:
  "pick_tmp dir rs s = Some (name, rest) \<Longrightarrow>
     fs_content name s = None \<and> (\<exists>r \<in> set rs. name = tmp_path dir r)"
  by (induction dir rs s rule: pick_tmp.induct) (auto split: if_splits)

lemma os_Write_other: "os_Write path b s = (s', x) \<Longrightarrow> p \<noteq> path \<Longrightarrow> fs_content p s' = fs_content p s"
  by (auto simp: os_Write_def Let_def split: prod.splits fs_fault.splits dest: fs_next_facts)

lemma os_CreateTemp_facts:
  assumes "os_CreateTemp dir s = (s', x)"
  shows "case x of
           Inl e \<Rightarrow> (\<forall>p. fs_content p s' = fs_content p s)
         | Inr name \<Rightarrow> fs_content name s = None \<and> fs_content name s' = Some [] \<and>
             (\<exists>r \<in> set (fs_rand s). name = tmp_path dir r) \<and>
             (\<forall>p. p \<noteq> name \<longrightarrow> fs_content p s' = fs_content p s)"
  using assms fs_call_facts [of s]
  by (auto simp: os_CreateTemp_def split: prod.splits option.splits dest!: pick_tmp_Some)

lemma os_Remove_other: "os_Remove path s = (s', x) \<Longrightarrow> p \<noteq> path \<Longrightarrow> fs_content p s' = fs_content p s"
  by (auto simp: os_Remove_def split: prod.splits option.splits if_splits dest: fs_call_facts)

text \<open>\<open>filepath.Dir\<close> of a clean path is no longer than the path, and equal only at its fixed points.\<close>

lemma last_slash_prefix_prefix: "\<exists>r. path = last_slash_prefix path @ r"
  by (metis last_slash_prefix_def rev_append rev_rev_ident takeWhile_dropWhile_id)

definition weight :: "string list \<Rightarrow> nat" where
  "weight es = sum_list (map (\<lambda>e. Suc (length e)) es)"

lemma weight_simps [simp]: "weight [] = 0" "weight (e # es) = Suc (length e) + weight es"
  by (simp_all add: weight_def)

lemma weight_rev [simp]: "weight (rev es) = weight es"
  by (simp add: weight_def rev_map [symmetric])

lemma length_join_slash: "length (join_slash es) = weight es - 1"
proof (induction es rule: join_slash.induct)
  case (3 e e' es)
  then show ?case by (simp add: weight_def)
qed simp_all

lemma split_slash_not_Nil [simp]: "split_slash s \<noteq> []"
  by (induction s rule: split_slash.induct) (auto split: list.splits)

lemma weight_split_slash: "weight (split_slash s) = Suc (length s)"
proof (induction s rule: split_slash.induct)
  case 1
  show ?case by simp
next
  case (2 c cs)
  then show ?case
    using split_slash_not_Nil [of cs] by (auto split: list.splits simp del: split_slash_not_Nil)
qed

lemma split_slash_snoc: "split_slash (s @ [slash]) = split_slash s @ [[]]"
  by (induction s rule: split_slash.induct) (auto split: list.splits)

lemma weight_clean_elems: "weight (clean_elems rooted stack es) \<le> weight stack + weight es"
proof (induction rooted stack es rule: clean_elems.induct)
  case (1 rooted stack)
  show ?case by simp
next
  case (2 rooted stack e es)
  then show ?case by (cases stack) (auto split: if_splits)
qed

lemma clean_elems_snoc_Nil: "clean_elems rooted stack (es @ [[]]) = clean_elems rooted stack es"
  by (induction rooted stack es rule: clean_elems.induct) (auto split: list.splits)

lemma clean_elems_Nil_Cons [simp]: "clean_elems rooted stack ([] # es) = clean_elems rooted stack es"
  by simp

lemma length_filepath_Clean_dir: "length (filepath_Clean (s @ [slash])) \<le> max 1 (length s)"
proof -
  define rooted where "rooted = HasPrefix (s @ [slash]) [slash]"
  define st where "st = clean_elems rooted [] (split_slash s)"
  have clean: "filepath_Clean (s @ [slash]) =
      (if rooted then slash # join_slash (rev st)
       else if join_slash (rev st) = '''' then ''.'' else join_slash (rev st))"
    by (simp add: filepath_Clean_def st_def rooted_def Let_def split_slash_snoc clean_elems_snoc_Nil)
  have w: "weight st \<le> Suc (length s)"
    using weight_clean_elems [of _ "[]" "split_slash s"] by (simp add: st_def weight_split_slash)
  show ?thesis
  proof (cases "rooted \<and> s \<noteq> []")
    case True
    then obtain s' where s: "s = slash # s'" by (cases s) (auto simp: HasPrefix_iff rooted_def)
    have "weight st \<le> length s"
      using weight_clean_elems [of rooted "[]" "split_slash s'"] s
      by (simp add: st_def weight_split_slash)
    with True show ?thesis by (auto simp: clean length_join_slash max_def)
  next
    case False
    with w show ?thesis by (auto simp: clean length_join_slash max_def st_def)
  qed
qed

lemma last_slash_prefix_cases:
  "last_slash_prefix p = [] \<or> (\<exists>s r. last_slash_prefix p = s @ [slash] \<and> p = s @ slash # r)"
proof (cases "dropWhile (\<lambda>c. c \<noteq> slash) (rev p)")
  case Nil
  then show ?thesis by (simp add: last_slash_prefix_def)
next
  case (Cons a as)
  then have "a = slash" using hd_dropWhile [of "\<lambda>c. c \<noteq> slash" "rev p"] by force
  with Cons have e: "last_slash_prefix p = rev as @ [slash]" by (simp add: last_slash_prefix_def)
  obtain r where "p = last_slash_prefix p @ r" using last_slash_prefix_prefix by blast
  with e have "p = rev as @ slash # r" by simp
  with e show ?thesis by blast
qed

lemma length_filepath_Dir: "2 \<le> length d \<Longrightarrow> length (filepath_Dir d) < length d"
  using last_slash_prefix_cases [of d]
proof (elim disjE exE conjE)
  assume "2 \<le> length d" "last_slash_prefix d = []"
  then show ?thesis by (simp add: filepath_Dir_def filepath_Clean_def HasPrefix_iff)
next
  fix s r
  assume "2 \<le> length d" "last_slash_prefix d = s @ [slash]" "d = s @ slash # r"
  with length_filepath_Clean_dir [of s] show ?thesis by (auto simp: filepath_Dir_def max_def split: if_splits)
qed

lemma filepath_Dir_short: "length d < 2 \<Longrightarrow> filepath_Dir (filepath_Dir d) = filepath_Dir d"
proof (cases d)
  case Nil
  then show ?thesis by (simp add: filepath_Dir_def filepath_Clean_def HasPrefix_iff last_slash_prefix_def slash_def)
next
  case (Cons c cs)
  moreover assume "length d < 2"
  ultimately have "d = [c]" by simp
  then show ?thesis
    by (cases "c = slash")
       (simp_all add: filepath_Dir_def filepath_Clean_def HasPrefix_iff last_slash_prefix_def slash_def)
qed

section \<open>Clean names\<close>

lemma split_slash_elems: "e \<in> set (split_slash s) \<Longrightarrow> slash \<notin> set e"
proof (induction s arbitrary: e rule: split_slash.induct)
  case (2 c cs)
  then show ?case by (cases "split_slash cs") (auto split: if_splits)
qed simp

lemma split_slash_elem: "slash \<notin> set e \<Longrightarrow> split_slash e = [e]"
  by (induction e) auto

lemma split_slash_Cons_elem: "slash \<notin> set e \<Longrightarrow> split_slash (e @ slash # s) = e # split_slash s"
  by (induction e) auto

lemma split_join_slash: "es \<noteq> [] \<Longrightarrow> \<forall>e \<in> set es. slash \<notin> set e \<Longrightarrow> split_slash (join_slash es) = es"
  by (induction es rule: join_slash.induct) (simp_all add: split_slash_elem split_slash_Cons_elem)

text \<open>
  The elements of a clean name, first one last: no empty one, no dot, and two dots only at the front of a name that is
  not rooted.
\<close>

definition clean_stack :: "bool \<Rightarrow> string list \<Rightarrow> bool" where
  "clean_stack rooted stack \<longleftrightarrow>
     (\<forall>e \<in> set stack. slash \<notin> set e \<and> e \<noteq> '''' \<and> e \<noteq> ''.'') \<and>
     (\<exists>names ups. stack = names @ ups \<and> ''..'' \<notin> set names \<and> set ups \<subseteq> {''..''} \<and> (rooted \<longrightarrow> ups = []))"

lemma clean_stack_push: "clean_stack rooted stack \<Longrightarrow> slash \<notin> set e \<Longrightarrow> e \<notin> {'''', ''.'', ''..''} \<Longrightarrow> clean_stack rooted (e # stack)"
  unfolding clean_stack_def
proof (elim conjE exE)
  fix names ups
  assume "\<forall>e \<in> set stack. slash \<notin> set e \<and> e \<noteq> '''' \<and> e \<noteq> ''.''" "slash \<notin> set e" "e \<notin> {'''', ''.'', ''..''}"
    "stack = names @ ups" "''..'' \<notin> set names" "set ups \<subseteq> {''..''}" "rooted \<longrightarrow> ups = []"
  then show "(\<forall>e \<in> set (e # stack). slash \<notin> set e \<and> e \<noteq> '''' \<and> e \<noteq> ''.'') \<and>
      (\<exists>names ups. e # stack = names @ ups \<and> ''..'' \<notin> set names \<and> set ups \<subseteq> {''..''} \<and> (rooted \<longrightarrow> ups = []))"
    by (intro conjI exI [of _ "e # names"] exI [of _ ups]) auto
qed

lemma clean_stack_pop: "clean_stack rooted (e # stack) \<Longrightarrow> clean_stack rooted stack"
  unfolding clean_stack_def
proof (elim conjE exE)
  fix names ups
  assume "\<forall>x \<in> set (e # stack). slash \<notin> set x \<and> x \<noteq> '''' \<and> x \<noteq> ''.''"
    "e # stack = names @ ups" "''..'' \<notin> set names" "set ups \<subseteq> {''..''}" "rooted \<longrightarrow> ups = []"
  then show "(\<forall>x \<in> set stack. slash \<notin> set x \<and> x \<noteq> '''' \<and> x \<noteq> ''.'') \<and>
      (\<exists>names ups. stack = names @ ups \<and> ''..'' \<notin> set names \<and> set ups \<subseteq> {''..''} \<and> (rooted \<longrightarrow> ups = []))"
    by (cases names) (auto intro: exI [of _ "[]"])
qed

lemma clean_stack_up:
  assumes "clean_stack False stack" and "stack = [] \<or> hd stack = ''..''"
  shows "clean_stack False (''..'' # stack)"
proof -
  obtain names ups where s: "stack = names @ ups" "''..'' \<notin> set names" "set ups \<subseteq> {''..''}" using assms(1) by (auto simp: clean_stack_def)
  with assms(2) have "names = []" by (cases names) auto
  with s assms(1) show ?thesis by (auto simp: clean_stack_def slash_def intro: exI [of _ "[]"])
qed

lemma clean_stack_rooted: "clean_stack True stack \<Longrightarrow> ''..'' \<notin> set stack"
  by (auto simp: clean_stack_def)

lemma clean_elems_clean: "clean_stack rooted stack \<Longrightarrow> \<forall>e \<in> set es. slash \<notin> set e \<Longrightarrow> clean_stack rooted (clean_elems rooted stack es)"
proof (induction rooted stack es rule: clean_elems.induct)
  case (2 rooted stack e es)
  consider (skip) "e = '''' \<or> e = ''.''" | (up) "e = ''..''" | (name) "e \<notin> {'''', ''.'', ''..''}" by auto
  then show ?case
  proof cases
    case name
    with 2 clean_stack_push [OF "2.prems"(1), of e] show ?thesis by simp
  next
    case up
    show ?thesis
    proof (cases stack)
      case Nil
      with up 2 clean_stack_up [of stack] show ?thesis by (cases rooted) simp_all
    next
      case (Cons prev rest)
      show ?thesis
      proof (cases "prev = ''..''")
        case True
        with Cons "2.prems"(1) have "\<not> rooted" using clean_stack_rooted [of stack] by (cases rooted) auto
        with True Cons up 2 clean_stack_up [of stack] show ?thesis by simp
      next
        case False
        with Cons up 2 clean_stack_pop [of rooted prev rest] show ?thesis by simp
      qed
    qed
  qed (use 2 in simp)
qed simp

text \<open>A clean list of elements stays as it is.\<close>

lemma clean_elems_ups: "set ups \<subseteq> {''..''} \<Longrightarrow> set stack \<subseteq> {''..''} \<Longrightarrow> clean_elems False stack ups = rev ups @ stack"
  by (induction ups arbitrary: stack) (auto split: list.split)

lemma clean_elems_names: "\<forall>e \<in> set es. e \<notin> {'''', ''.'', ''..''} \<Longrightarrow> clean_elems rooted stack es = rev es @ stack"
  by (induction es arbitrary: stack) auto

lemma clean_elems_append: "clean_elems rooted stack (es @ es') = clean_elems rooted (clean_elems rooted stack es) es'"
  by (induction rooted stack es rule: clean_elems.induct) (auto split: list.split)

lemma clean_elems_id:
  assumes "clean_stack rooted stack"
  shows "clean_elems rooted [] (rev stack) = stack"
proof -
  obtain names ups where s: "stack = names @ ups" "''..'' \<notin> set names" "set ups \<subseteq> {''..''}" "rooted \<longrightarrow> ups = []"
    using assms by (auto simp: clean_stack_def)
  have "clean_elems rooted [] (rev ups) = ups" using s(3,4) clean_elems_ups [of "rev ups" "[]"] by (cases rooted) auto
  moreover have "clean_elems rooted ups (rev names) = names @ ups"
    using clean_elems_names [of "rev names" rooted ups] s assms by (auto simp: clean_stack_def)
  ultimately show ?thesis by (simp add: s(1) clean_elems_append)
qed

lemma filepath_Clean_idem: "filepath_Clean (filepath_Clean path) = filepath_Clean path"
proof -
  define rooted where "rooted = HasPrefix path [slash]"
  define stack where "stack = clean_elems rooted [] (split_slash path)"
  have stack: "clean_stack rooted stack"
    unfolding stack_def by (rule clean_elems_clean) (auto simp: clean_stack_def split_slash_elems)
  then have free: "\<forall>e \<in> set (rev stack). slash \<notin> set e" by (simp add: clean_stack_def)
  have path: "filepath_Clean path = (if rooted then slash # join_slash (rev stack) else if join_slash (rev stack) = '''' then ''.'' else join_slash (rev stack))"
    by (simp add: filepath_Clean_def rooted_def stack_def Let_def)
  have empty: "join_slash (rev stack) = '''' \<longleftrightarrow> stack = []"
    using stack by (cases "rev stack" rule: join_slash.cases) (auto simp: clean_stack_def)
  show ?thesis
  proof (cases "stack = []")
    case True
    then show ?thesis by (simp add: path) (simp add: filepath_Clean_def HasPrefix_def slash_def Let_def)
  next
    case False
    then have split: "split_slash (join_slash (rev stack)) = rev stack" using free by (intro split_join_slash) auto
    have noslash: "\<not> HasPrefix (join_slash (rev stack)) [slash]"
      using False free stack by (cases "rev stack" rule: join_slash.cases) (auto simp: HasPrefix_def clean_stack_def neq_Nil_conv)
    from clean_elems_id [OF stack] split False empty noslash show ?thesis
      by (cases rooted) (simp_all add: path, simp_all add: filepath_Clean_def HasPrefix_def Let_def)
  qed
qed

end
