(* ===== verification/Audit_Log.thy ===== *)
theory Audit_Log
  imports Filesystem
begin

text \<open>
  The observer pattern (\<open>pkg/observer/subject.go\<close>), the audit event (\<open>internal/services/audit\<close>) and its
  two sinks: the newline-delimited file (\<open>internal/adapters/audit/file/writer.go\<close>) and the remote
  endpoint (\<open>internal/adapters/audit/remote/client.go\<close>).

  Observers run over a world \<open>'w\<close>; a nil observer, function, subject or handler is \<open>None\<close>. The mutex of
  a subject only guards its own fields, so \<open>Publish\<close> works on the copy it takes first.
  \<open>encoding/json\<close>'s text of an event is the argument \<open>marshal\<close>.
\<close>

section \<open>Observers\<close>

type_synonym ('e, 'w) observer = "go_context \<Rightarrow> 'e \<Rightarrow> 'w \<Rightarrow> 'w \<times> go_error option"

definition ObserverFunc_Notify :: "('e, 'w) observer option \<Rightarrow> ('e, 'w) observer" where
  "ObserverFunc_Notify f c evt w = (case f of None \<Rightarrow> (w, None) | Some g \<Rightarrow> g c evt w)"

record ('e, 'w) Subject =
  observers :: "('e, 'w) observer option list"
  onError :: "(go_error \<Rightarrow> 'w \<Rightarrow> 'w) option"

definition NewSubject :: "('e, 'w) observer option list \<Rightarrow> ('e, 'w) Subject" where
  "NewSubject obs = \<lparr>observers = obs, onError = None\<rparr>"

fun publish_loop ::
  "(go_error \<Rightarrow> 'w \<Rightarrow> 'w) option \<Rightarrow> ('e, 'w) observer option list \<Rightarrow> go_context \<Rightarrow> 'e \<Rightarrow> 'w \<Rightarrow> 'w" where
  "publish_loop errHandler [] c evt w = w"
| "publish_loop errHandler (obs # rest) c evt w =
     (case obs of
        None \<Rightarrow> publish_loop errHandler rest c evt w
      | Some notify \<Rightarrow>
          (case notify c evt w of
             (w1, Some err) \<Rightarrow>
               publish_loop errHandler rest c evt (case errHandler of Some h \<Rightarrow> h err w1 | None \<Rightarrow> w1)
           | (w1, None) \<Rightarrow> publish_loop errHandler rest c evt w1))"

definition Publish :: "('e, 'w) Subject option \<Rightarrow> go_context \<Rightarrow> 'e \<Rightarrow> 'w \<Rightarrow> 'w" where
  "Publish s c evt w =
     (case s of None \<Rightarrow> w | Some sub \<Rightarrow> publish_loop (onError sub) (observers sub) c evt w)"

definition Attach :: "('e, 'w) observer option list \<Rightarrow> ('e, 'w) Subject option \<Rightarrow> ('e, 'w) Subject option" where
  "Attach obs s =
     (case s of
        None \<Rightarrow> None
      | Some sub \<Rightarrow> if obs = [] then Some sub else Some (sub\<lparr>observers := observers sub @ obs\<rparr>))"

definition SetErrorHandler :: "(go_error \<Rightarrow> 'w \<Rightarrow> 'w) option \<Rightarrow> ('e, 'w) Subject option \<Rightarrow> ('e, 'w) Subject option" where
  "SetErrorHandler fn s = (case s of None \<Rightarrow> None | Some sub \<Rightarrow> Some (sub\<lparr>onError := fn\<rparr>))"

section \<open>Audit events\<close>

record Event =
  Timestamp :: int64
  EvMetrics :: "string list"
  IPAddress :: string

section \<open>The file sink\<close>

text \<open>\<open>json.Marshal\<close> of an event cannot fail: it holds an integer and strings only.\<close>

definition newline :: char where
  "newline = CHR 0x0A"

definition Writer_Notify :: "(Event \<Rightarrow> string) \<Rightarrow> string option \<Rightarrow> Event \<Rightarrow> fs \<Rightarrow> fs \<times> go_error option" where
  "Writer_Notify marshal writer evt s =
     (case writer of
        None \<Rightarrow> (s, None)
      | Some path \<Rightarrow>
          if path = '''' then (s, None)
          else
            (case os_OpenAppend path s of
               (s1, Some e) \<Rightarrow> (s1, Some (Wrapf ''open audit file'' e))
             | (s1, None) \<Rightarrow>
                 (case os_Write path (marshal evt @ [newline]) s1 of
                    (s2, werr) \<Rightarrow>
                      (let retErr = map_option (Wrapf ''write audit file'') werr; (s3, cerr) = fs_call s2
                       in (s3, case cerr of
                                 Some e \<Rightarrow> if retErr = None then Some (Wrapf ''close audit file'' e) else retErr
                               | None \<Rightarrow> retErr)))))"

section \<open>The remote sink\<close>

text \<open>
  \<open>http.Client.Do\<close> is an argument: a world step that gives an error or a status code, the error of
  draining the body and the error of closing it. \<open>newRequest\<close> is \<open>http.NewRequestWithContext\<close>, which
  fails on a malformed URL, and \<open>parseURI\<close> is \<open>url.ParseRequestURI\<close>.
\<close>

record http_answer =
  ans_status :: int
  ans_drain :: "go_error option"
  ans_close :: "go_error option"

definition remote_New :: "(string \<Rightarrow> go_error option) \<Rightarrow> string \<Rightarrow> go_error + string" where
  "remote_New parseURI rawURL =
     (if TrimSpace rawURL = '''' then Inl (ErrNew ''audit url is empty'')
      else case parseURI rawURL of
             Some e \<Rightarrow> Inl (Wrapf ''invalid audit url'' e)
           | None \<Rightarrow> Inr rawURL)"

definition remote_Notify ::
  "(Event \<Rightarrow> string) \<Rightarrow> (string \<Rightarrow> go_error option) \<Rightarrow>
   (string \<Rightarrow> string \<Rightarrow> 'w \<Rightarrow> 'w \<times> (go_error + http_answer)) \<Rightarrow> string option \<Rightarrow> Event \<Rightarrow> 'w \<Rightarrow> 'w \<times> go_error option" where
  "remote_Notify marshal newRequest httpDo client evt w =
     (case client of
        None \<Rightarrow> (w, None)
      | Some endpoint \<Rightarrow>
          (case newRequest endpoint of
             Some e \<Rightarrow> (w, Some (Wrapf ''new request'' e))
           | None \<Rightarrow>
               (case httpDo endpoint (marshal evt) w of
                  (w1, Inl e) \<Rightarrow> (w1, Some (Wrapf ''audit post'' e))
                | (w1, Inr resp) \<Rightarrow>
                    (let retErr = (case ans_drain resp of
                                     Some e \<Rightarrow> Some (Wrapf ''drain audit response'' e)
                                   | None \<Rightarrow> if ans_status resp < 200 \<or> ans_status resp \<ge> 300
                                             then Some (ErrNew ''audit post status'') else None)
                     in (w1, case ans_close resp of
                               Some e \<Rightarrow> if retErr = None then Some (Wrapf ''close audit response'' e) else retErr
                             | None \<Rightarrow> retErr)))))"

section \<open>Facts\<close>

lemma publish_loop_append:
  "publish_loop h (xs @ ys) c evt w = publish_loop h ys c evt (publish_loop h xs c evt w)"
  by (induction h xs c evt w rule: publish_loop.induct) (auto split: option.splits prod.splits)

text \<open>
  A property of the world that the observers and the handler keep survives the whole loop; and the
  effect of one observer among others that keep \<open>P\<close> and \<open>Q\<close> is to lead from \<open>P\<close> to \<open>Q\<close>.
\<close>

lemma publish_loop_keeps:
  assumes "\<And>obs u u' x. Some obs \<in> set os \<Longrightarrow> P u \<Longrightarrow> obs c evt u = (u', x) \<Longrightarrow> P u'"
    and "\<And>hdl err u. h = Some hdl \<Longrightarrow> P u \<Longrightarrow> P (hdl err u)"
  shows "P w \<Longrightarrow> P (publish_loop h os c evt w)"
  using assms
proof (induction os arbitrary: w)
  case Nil
  then show ?case by simp
next
  case (Cons ob os)
  have IH: "P u \<Longrightarrow> P (publish_loop h os c evt u)" for u
    using Cons.prems by (intro Cons.IH) auto
  show ?case
  proof (cases ob)
    case None
    with IH Cons.prems(1) show ?thesis by simp
  next
    case (Some notify)
    obtain w1 x where n: "notify c evt w = (w1, x)" by fastforce
    with Cons.prems(1,2) Some have "P w1" by (metis list.set_intros(1))
    with Some n IH Cons.prems(3) show ?thesis by (cases x; cases h) auto
  qed
qed

lemma publish_loop_one:
  assumes others: "\<And>obs u u' x. Some obs \<in> set (xs @ ys) \<Longrightarrow> obs c evt u = (u', x) \<Longrightarrow> (P u \<longrightarrow> P u') \<and> (Q u \<longrightarrow> Q u')"
    and handler: "\<And>hdl err u. h = Some hdl \<Longrightarrow> (P u \<longrightarrow> P (hdl err u)) \<and> (Q u \<longrightarrow> Q (hdl err u))"
    and mine: "\<And>u u' x. P u \<Longrightarrow> notify c evt u = (u', x) \<Longrightarrow> Q u'"
    and "P w"
  shows "Q (publish_loop h (xs @ Some notify # ys) c evt w)"
proof -
  define w0 where "w0 = publish_loop h xs c evt w"
  have "P w0" unfolding w0_def
    by (rule publish_loop_keeps [where P = P]) (use others handler \<open>P w\<close> in auto)
  obtain w1 x where n: "notify c evt w0 = (w1, x)" by fastforce
  define w2 where "w2 = (case x of Some err \<Rightarrow> (case h of Some hdl \<Rightarrow> hdl err w1 | None \<Rightarrow> w1) | None \<Rightarrow> w1)"
  have "Q w2"
    using mine [OF \<open>P w0\<close> n] handler by (auto simp: w2_def split: option.split)
  then have "Q (publish_loop h ys c evt w2)"
    by (rule publish_loop_keeps [where P = Q, rotated 2]) (use others handler in auto)
  moreover have "publish_loop h (xs @ Some notify # ys) c evt w = publish_loop h ys c evt w2"
    using n by (auto simp: publish_loop_append w0_def [symmetric] w2_def split: option.split)
  ultimately show ?thesis by simp
qed

lemma os_OpenAppend_facts:
  assumes "os_OpenAppend path s = (s', None)"
  shows "fs_content path s' = Some (case fs_content path s of None \<Rightarrow> [] | Some b \<Rightarrow> b)"
    and "p \<noteq> path \<Longrightarrow> fs_content p s' = fs_content p s"
  using assms fs_call_facts [of s]
  by (auto simp: os_OpenAppend_def split: prod.splits option.splits if_splits)

lemma os_OpenAppend_err: "os_OpenAppend path s = (s', Some e) \<Longrightarrow> fs_content p s' = fs_content p s"
  using fs_call_facts [of s] by (auto simp: os_OpenAppend_def split: prod.splits option.splits if_splits)

text \<open>
  What a notification does to the log file: nothing but appending, a whole line when it reports no
  error, and no other file is touched.
\<close>

lemma Writer_Notify_facts:
  assumes "Writer_Notify marshal (Some path) evt s = (s', r)" and "path \<noteq> ''''"
  shows "(\<forall>p. p \<noteq> path \<longrightarrow> fs_content p s' = fs_content p s) \<and>
         (\<exists>k. fs_content path s' = fs_content path s \<or>
              fs_content path s' = Some ((case fs_content path s of None \<Rightarrow> [] | Some b \<Rightarrow> b) @ take k (marshal evt @ [newline]))) \<and>
         (r = None \<longrightarrow> fs_content path s' =
            Some ((case fs_content path s of None \<Rightarrow> [] | Some b \<Rightarrow> b) @ marshal evt @ [newline]))"
proof -
  obtain s1 e1 where o: "os_OpenAppend path s = (s1, e1)" by fastforce
  show ?thesis
  proof (cases e1)
    case (Some e)
    with o assms os_OpenAppend_err show ?thesis by (auto simp: Writer_Notify_def)
  next
    case None
    note f1 = os_OpenAppend_facts [OF o [unfolded None]]
    obtain s2 werr where w: "os_Write path (marshal evt @ [newline]) s1 = (s2, werr)" by fastforce
    obtain s3 cerr where c: "fs_call s2 = (s3, cerr)" by fastforce
    have "s' = s3" and r: "r = None \<longrightarrow> werr = None"
      using assms o None w c by (auto simp: Writer_Notify_def Let_def split: option.splits if_splits)
    then have s': "\<And>p. fs_content p s' = fs_content p s2" using fs_call_facts(1) [OF c] by simp
    have other: "fs_content p s' = fs_content p s" if "p \<noteq> path" for p
      using s' os_Write_other [OF w that] f1(2) [OF that] by simp
    obtain fault s1' where n: "fs_next s1 = (s1', fault)" by fastforce
    show ?thesis
      using w n f1(1) s' other r fs_next_facts(1) [OF n]
      by (cases fault) (auto simp: os_Write_def intro: exI [of _ 0] exI [of _ "Suc (length (marshal evt))"])
  qed
qed

section \<open>Properties\<close>

definition content_or_empty :: "string option \<Rightarrow> string" where
  "content_or_empty x = (case x of None \<Rightarrow> [] | Some b \<Rightarrow> b)"

text \<open>The file content with one more line.\<close>

definition appended :: "string \<Rightarrow> string option \<Rightarrow> string option" where
  "appended line old = Some (content_or_empty old @ line @ [newline])"

text \<open>Steps of the world that leave one file and the fate of later system calls alone.\<close>

definition leaves_file :: "string \<Rightarrow> fs \<Rightarrow> fs \<Rightarrow> bool" where
  "leaves_file path u u' \<longleftrightarrow> fs_content path u' = fs_content path u \<and> fs_faults u' = fs_faults u"

lemma Writer_Notify_no_faults:
  assumes "Writer_Notify marshal (Some path) evt u = (u', x)" and "path \<noteq> ''''" and "fs_faults u = []"
  shows "fs_content path u' = appended (marshal evt) (fs_content path u) \<and> fs_faults u' = []"
proof -
  from assms(3) have call: "fs_next v = (v, FsOk)" "fs_call v = (v, None)" if "fs_faults v = []" for v
    using that by (simp_all add: fs_call_def fs_next_def)
  show ?thesis
  proof (cases "fs_content path u")
    case None
    with assms call show ?thesis
      by (simp add: Writer_Notify_def os_OpenAppend_def os_Write_def appended_def content_or_empty_def) auto
  next
    case (Some b)
    with assms call show ?thesis
      by (simp add: Writer_Notify_def os_OpenAppend_def os_Write_def appended_def content_or_empty_def) auto
  qed
qed

text \<open>
  C32: an audit event published to a subject reaches the log file as exactly one more line, after the old content, in
  whatever position the file sink is attached and whether the other observers report errors or not, provided that no
  system call fails, that no other observer and no error handler writes that file, and that the JSON encoder
  writes no line break (\<open>json.Marshal\<close> writes compact texts and escapes them in strings).
\<close>

theorem audit_file_one_line:
  assumes path: "path \<noteq> ''''" and json: "newline \<notin> set (marshal evt)"
    and others: "\<forall>obs u. Some obs \<in> set (xs @ ys) \<longrightarrow> leaves_file path u (fst (obs c evt u))"
    and handler: "\<forall>hdl err u. onError sub = Some hdl \<longrightarrow> leaves_file path u (hdl err u)"
    and obs: "observers sub = xs @ Some (\<lambda>c. Writer_Notify marshal (Some path)) # ys"
    and disk: "fs_faults w = []"
  shows "\<exists>b. fs_content path (Publish (Some sub) c evt w) = Some b \<and>
    b = content_or_empty (fs_content path w) @ marshal evt @ [newline] \<and>
    length (filter (\<lambda>ch. ch = newline) b) = Suc (length (filter (\<lambda>ch. ch = newline) (content_or_empty (fs_content path w))))"
proof -
  let ?P = "\<lambda>u. fs_content path u = fs_content path w \<and> fs_faults u = []"
  let ?Q = "\<lambda>u. fs_content path u = appended (marshal evt) (fs_content path w) \<and> fs_faults u = []"
  have "?Q (publish_loop (onError sub) (xs @ Some (\<lambda>c. Writer_Notify marshal (Some path)) # ys) c evt w)"
  proof (rule publish_loop_one [where P = ?P and Q = ?Q])
    show "?Q u'" if "?P u" "Writer_Notify marshal (Some path) evt u = (u', x)" for u u' x
      using Writer_Notify_no_faults [OF that(2) path] that(1) by simp
    show "(?P u \<longrightarrow> ?P u') \<and> (?Q u \<longrightarrow> ?Q u')" if "Some obs \<in> set (xs @ ys)" "obs c evt u = (u', x)" for obs u u' x
    proof -
      from others that(1) have "leaves_file path u (fst (obs c evt u))" by blast
      with that(2) show ?thesis by (simp add: leaves_file_def)
    qed
    show "(?P u \<longrightarrow> ?P (hdl err u)) \<and> (?Q u \<longrightarrow> ?Q (hdl err u))" if "onError sub = Some hdl" for hdl err u
    proof -
      from handler that have "leaves_file path u (hdl err u)" by blast
      then show ?thesis by (simp add: leaves_file_def)
    qed
  qed (use disk in simp)
  moreover have "filter (\<lambda>ch. ch = newline) (marshal evt) = []" using json by (auto simp: filter_empty_conv)
  ultimately show ?thesis using obs by (simp add: Publish_def appended_def)
qed

theorem audit_file_one_line_witness:
  "fs_content ''log'' (Publish (Some \<lparr>observers = [Some (\<lambda>c e u. (u, Some EPIPE)), Some (\<lambda>c. Writer_Notify (\<lambda>e. ''{}'') (Some ''log''))],
       onError = Some (\<lambda>err u. u)\<rparr>) Background \<lparr>Timestamp = 1, EvMetrics = [''c''], IPAddress = ''''\<rparr>
     \<lparr>fs_files = [], fs_faults = [], fs_rand = []\<rparr>) = Some (''{}'' @ [newline])"
proof -
  let ?sub = "\<lparr>observers = [Some (\<lambda>c e u. (u, Some EPIPE)), Some (\<lambda>c. Writer_Notify (\<lambda>e. ''{}'') (Some ''log''))], onError = Some (\<lambda>err u. u)\<rparr>"
  let ?evt = "\<lparr>Timestamp = 1, EvMetrics = [''c''], IPAddress = ''''\<rparr>" and ?w = "\<lparr>fs_files = [], fs_faults = [], fs_rand = []\<rparr>"
  have "\<exists>b. fs_content ''log'' (Publish (Some ?sub) Background ?evt ?w) = Some b \<and>
      b = content_or_empty (fs_content ''log'' ?w) @ ''{}'' @ [newline] \<and>
      length (filter (\<lambda>ch. ch = newline) b) = Suc (length (filter (\<lambda>ch. ch = newline) (content_or_empty (fs_content ''log'' ?w))))"
    by (rule audit_file_one_line [where xs = "[Some (\<lambda>c e u. (u, Some EPIPE))]" and ys = "[]" and marshal = "\<lambda>e. ''{}''"])
       (simp_all add: leaves_file_def newline_def)
  then show ?thesis by (simp add: content_or_empty_def fs_content_def)
qed



end
