(* ===== verification/Memory_Repo.thy ===== *)
theory Memory_Repo
  imports Domain
begin

text \<open>
  The in-memory repository (\<open>internal/adapters/repository/memory/memory.go\<close>). Every operation holds
  the mutex for its whole body, so each is one atomic step on the two maps. The theory ends with the
  interpretation of the repository contract: the in-memory repository never fails (its health check
  apart) and keeps gauges and counters apart.
\<close>

record mem_Repo =
  gauges :: "float64 gomap"
  counters :: "int64 gomap"

definition mem_New :: mem_Repo where
  "mem_New = \<lparr>gauges = [], counters = []\<rparr>"

definition mem_GetGauge :: "go_context \<Rightarrow> string \<Rightarrow> mem_Repo \<Rightarrow> mem_Repo \<times> (go_error + float64)" where
  "mem_GetGauge c name r =
     (r, case map_of (gauges r) name of None \<Rightarrow> Inl ErrNotFound | Some v \<Rightarrow> Inr v)"

definition mem_GetCounter :: "go_context \<Rightarrow> string \<Rightarrow> mem_Repo \<Rightarrow> mem_Repo \<times> (go_error + int64)" where
  "mem_GetCounter c name r =
     (r, case map_of (counters r) name of None \<Rightarrow> Inl ErrNotFound | Some v \<Rightarrow> Inr v)"

definition mem_SetGauge :: "go_context \<Rightarrow> string \<Rightarrow> float64 \<Rightarrow> mem_Repo \<Rightarrow> mem_Repo \<times> go_error option" where
  "mem_SetGauge c name v r = (r\<lparr>gauges := gm_set name v (gauges r)\<rparr>, None)"

definition mem_AddCounter :: "go_context \<Rightarrow> string \<Rightarrow> int64 \<Rightarrow> mem_Repo \<Rightarrow> mem_Repo \<times> go_error option" where
  "mem_AddCounter c name d r = (r\<lparr>counters := gm_add name d (counters r)\<rparr>, None)"

fun mem_update_loop :: "Metrics list \<Rightarrow> mem_Repo \<Rightarrow> mem_Repo" where
  "mem_update_loop [] r = r"
| "mem_update_loop (it # items) r =
     mem_update_loop items
       (if MType it = Gauge then
          (case Value it of None \<Rightarrow> r | Some v \<Rightarrow> r\<lparr>gauges := gm_set (ID it) v (gauges r)\<rparr>)
        else if MType it = Counter then
          (case Delta it of None \<Rightarrow> r | Some d \<Rightarrow> r\<lparr>counters := gm_add (ID it) d (counters r)\<rparr>)
        else r)"

definition mem_UpdateMany :: "go_context \<Rightarrow> Metrics list \<Rightarrow> mem_Repo \<Rightarrow> mem_Repo \<times> go_error option" where
  "mem_UpdateMany c items r = (mem_update_loop items r, None)"

definition mem_Snapshot :: "go_context \<Rightarrow> mem_Repo \<Rightarrow> mem_Repo \<times> (go_error + Snapshot)" where
  "mem_Snapshot c r =
     (r, Inr \<lparr>Gauges = maps_Copy [] (gauges r), Counters = maps_Copy [] (counters r)\<rparr>)"

definition mem_Ping :: "go_context \<Rightarrow> mem_Repo \<Rightarrow> mem_Repo \<times> go_error option" where
  "mem_Ping c r = (r, Some (ErrNew ''db not configured''))"

definition memory_repo :: "mem_Repo MetricsRepo" where
  "memory_repo =
     \<lparr>repo_GetGauge = mem_GetGauge, repo_GetCounter = mem_GetCounter, repo_SetGauge = mem_SetGauge,
      repo_AddCounter = mem_AddCounter, repo_UpdateMany = mem_UpdateMany,
      repo_Snapshot = mem_Snapshot, repo_Ping = mem_Ping\<rparr>"

section \<open>Invariant and abstraction\<close>

definition mem_inv :: "mem_Repo \<Rightarrow> bool" where
  "mem_inv r \<longleftrightarrow> gm_wf (gauges r) \<and> gm_wf (counters r)"

definition mem_gauge_of :: "mem_Repo \<Rightarrow> string \<Rightarrow> float64 option" where
  "mem_gauge_of r = map_of (gauges r)"

definition mem_counter_of :: "mem_Repo \<Rightarrow> string \<Rightarrow> int64 option" where
  "mem_counter_of r = map_of (counters r)"

lemmas mem_op_defs =
  mem_GetGauge_def mem_GetCounter_def mem_SetGauge_def mem_AddCounter_def mem_UpdateMany_def
  mem_Snapshot_def mem_Ping_def

lemmas mem_abs_defs = mem_inv_def mem_gauge_of_def mem_counter_of_def

lemma memory_repo_sel [simp]:
  "repo_GetGauge memory_repo = mem_GetGauge" "repo_GetCounter memory_repo = mem_GetCounter"
  "repo_SetGauge memory_repo = mem_SetGauge" "repo_AddCounter memory_repo = mem_AddCounter"
  "repo_UpdateMany memory_repo = mem_UpdateMany" "repo_Snapshot memory_repo = mem_Snapshot"
  "repo_Ping memory_repo = mem_Ping"
  by (simp_all add: memory_repo_def)

lemma mem_inv_New [simp]: "mem_inv mem_New"
  by (simp add: mem_inv_def mem_New_def)

lemma mem_New_obs [simp]: "mem_counter_of mem_New k = None" "mem_gauge_of mem_New k = None"
  by (simp_all add: mem_New_def mem_abs_defs)

lemma mem_update_loop_inv: "mem_inv r \<Longrightarrow> mem_inv (mem_update_loop items r)"
  by (induction items r rule: mem_update_loop.induct) (auto simp: mem_inv_def split: option.split)

text \<open>The loop refines the abstract effect of the batch, on gauges and on counters separately.\<close>

lemma mem_update_loop_gauges:
  "map_of (gauges (mem_update_loop items r)) = spec_gauges items (map_of (gauges r))"
  by (induction items r rule: mem_update_loop.induct) (auto split: option.split)

lemma mem_update_loop_counters:
  "map_of (counters (mem_update_loop items r)) = spec_counters items (map_of (counters r))"
  by (induction items r rule: mem_update_loop.induct) (auto simp: counter_or_zero_def split: option.split)

lemma spec_gauges_frame: "k \<notin> ID ` set ms \<Longrightarrow> spec_gauges ms g k = g k"
  by (induction ms g rule: spec_gauges.induct) (auto split: option.split)

lemma spec_counters_frame: "k \<notin> ID ` set ms \<Longrightarrow> spec_counters ms c k = c k"
  by (induction ms c rule: spec_counters.induct) (auto split: option.split)

interpretation mem: separate_repo memory_repo mem_gauge_of mem_counter_of mem_inv
  by unfold_locales
    (auto simp: mem_op_defs mem_abs_defs mem_update_loop_gauges mem_update_loop_counters
       spec_gauges_frame spec_counters_frame maps_Copy_wf counter_or_zero_def
       mem_update_loop_inv [unfolded mem_inv_def] split: option.splits)

section \<open>Properties\<close>

text \<open>
  C23: a batch written to the in-memory repository adds to every counter the (wrapping) sum of its deltas
  and leaves in every gauge the last value given for it, touches nothing else, cannot fail and keeps
  the invariant; a snapshot taken afterwards shows exactly these values.
\<close>

theorem mem_UpdateMany_correct:
  assumes "mem_inv r"
  shows "case mem_UpdateMany c items r of (r', e) \<Rightarrow>
    e = None \<and> mem_inv r' \<and>
    (\<forall>k. mem_counter_of r' k =
       (if deltas_for k items = [] then mem_counter_of r k
        else Some (counter_or_zero (mem_counter_of r k) + sum_list (deltas_for k items)))) \<and>
    (\<forall>k. mem_gauge_of r' k =
       (if values_for k items = [] then mem_gauge_of r k else Some (last (values_for k items)))) \<and>
    (\<exists>snap. mem_Snapshot c r' = (r', Inr snap) \<and>
       map_of (Gauges snap) = mem_gauge_of r' \<and> map_of (Counters snap) = mem_counter_of r')"
proof -
  from mem_update_loop_inv [OF assms] have i: "mem_inv (mem_update_loop items r)" by simp
  then have wf: "gm_wf (gauges (mem_update_loop items r))" "gm_wf (counters (mem_update_loop items r))"
    by (simp_all add: mem_inv_def)
  from i maps_Copy_empty [OF wf(1)] maps_Copy_empty [OF wf(2)] show ?thesis
    by (simp add: mem_UpdateMany_def mem_counter_of_def mem_gauge_of_def mem_update_loop_counters
          mem_update_loop_gauges spec_counters_sum spec_gauges_last mem_Snapshot_def)
qed

theorem mem_UpdateMany_correct_witness:
  "mem_inv mem_New \<and>
   mem_counter_of (fst (mem_UpdateMany Background [counter_metric ''c'' 2, gauge_metric ''g'' 7, counter_metric ''c'' 3] mem_New)) ''c'' = Some 5"
  using mem_UpdateMany_correct [OF mem_inv_New, where c = Background and items = "[counter_metric ''c'' 2, gauge_metric ''g'' 7, counter_metric ''c'' 3]"]
  by (simp add: split_beta)

end
