(* ===== verification/Postgres_Repo.thy ===== *)
theory Postgres_Repo
  imports Misc
begin

text \<open>
  The Postgres repository (\<open>internal/adapters/repository/postgres/postgres.go\<close>).

  The table \<open>metrics\<close> of \<open>migrations/*.sql\<close> is a Go-style map from the primary key \<open>id\<close> to the other
  columns the code reads. Each SQL statement of the source is the function on the table that its text
  describes; \<open>delta+EXCLUDED.delta\<close> is \<open>BIGINT\<close> arithmetic, which fails with SQLSTATE 22003 instead of
  wrapping. What the driver and the server do with one call is not decided here: \<open>db_outcomes\<close> scripts
  it, call by call. A call is delivered, or fails before the server executes it, or is executed and
  then fails (the connection breaks before the answer), or its rows stop coming after a while
  (\<open>rows.Err()\<close> then holds the error), or \<open>Scan\<close> cannot convert some of them. An exhausted script
  delivers. \<open>db_ctx\<close> scripts what the next looks at the context find.
\<close>

section \<open>The table and its statements\<close>

record pg_row =
  row_mtype :: string
  row_value :: "float64 option"
  row_delta :: "int64 option"

type_synonym pg_table = "pg_row gomap"

definition fits_bigint :: "int \<Rightarrow> bool" where
  "fits_bigint n \<longleftrightarrow> - (2 ^ 63) \<le> n \<and> n < 2 ^ 63"

text \<open>\<open>INSERT ... VALUES ($1, $2, $3, NULL, now()) ON CONFLICT (id) DO UPDATE ...\<close> of a gauge.\<close>

definition sql_set_gauge :: "string \<Rightarrow> float64 \<Rightarrow> pg_table \<Rightarrow> go_error + pg_table" where
  "sql_set_gauge n v t = Inr (gm_set n \<lparr>row_mtype = Gauge, row_value = Some v, row_delta = None\<rparr> t)"

text \<open>The same for a counter: \<open>delta=COALESCE(metrics.delta,0)+EXCLUDED.delta\<close> on conflict.\<close>

definition sql_add_counter :: "string \<Rightarrow> int64 \<Rightarrow> pg_table \<Rightarrow> go_error + pg_table" where
  "sql_add_counter n d t =
     (case map_of t n of
        None \<Rightarrow> Inr (gm_set n \<lparr>row_mtype = Counter, row_value = None, row_delta = Some d\<rparr> t)
      | Some row \<Rightarrow>
          (let old = counter_or_zero (row_delta row) in
           if fits_bigint (sint old + sint d)
           then Inr (gm_set n \<lparr>row_mtype = Counter, row_value = None, row_delta = Some (old + d)\<rparr> t)
           else Inl (PqError ''22003'')))"

section \<open>The database handle\<close>

datatype pg_outcome =
    Delivered
  | FailBefore go_error
  | FailAfter go_error
  | RowsCut nat go_error
  | ScanFails "string list" go_error

text \<open>A result set: each row with the error its \<open>Scan\<close> returns, and \<open>rows.Err()\<close> after the last one.\<close>

type_synonym pg_rows = "((string \<times> pg_row) \<times> go_error option) list \<times> go_error option"

record pg_Repo =
  db_configured :: bool
  db_table :: pg_table
  db_outcomes :: "pg_outcome list"
  db_ctx :: "go_error option list"

definition next_outcome :: "pg_Repo \<Rightarrow> pg_Repo \<times> pg_outcome" where
  "next_outcome w =
     (case db_outcomes w of [] \<Rightarrow> (w, Delivered) | x # xs \<Rightarrow> (w\<lparr>db_outcomes := xs\<rparr>, x))"

definition pg_ctxErr :: "pg_Repo \<Rightarrow> pg_Repo \<times> go_error option" where
  "pg_ctxErr w = (case db_ctx w of [] \<Rightarrow> (w, None) | x # xs \<Rightarrow> (w\<lparr>db_ctx := xs\<rparr>, x))"

definition pg_wait :: "duration \<Rightarrow> pg_Repo \<Rightarrow> pg_Repo \<times> go_error option" where
  "pg_wait d w = pg_ctxErr w"

text \<open>\<open>ExecContext\<close> of one statement, outside a transaction; also \<open>Commit\<close>, as the statement that installs the transaction's table.\<close>

definition pg_exec :: "(pg_table \<Rightarrow> go_error + pg_table) \<Rightarrow> pg_Repo \<Rightarrow> pg_Repo \<times> go_error option" where
  "pg_exec stmt w =
     (case next_outcome w of
        (w1, FailBefore e) \<Rightarrow> (w1, Some e)
      | (w1, out) \<Rightarrow>
          (case stmt (db_table w1) of
             Inl e \<Rightarrow> (w1, Some e)
           | Inr t \<Rightarrow> (w1\<lparr>db_table := t\<rparr>, case out of FailAfter e \<Rightarrow> Some e | _ \<Rightarrow> None)))"

text \<open>\<open>QueryContext\<close> of a \<open>SELECT\<close> whose \<open>WHERE\<close> clause is \<open>sel\<close>.\<close>

abbreviation scanned :: "(string \<times> pg_row) list \<Rightarrow> ((string \<times> pg_row) \<times> go_error option) list" where
  "scanned \<equiv> map (\<lambda>r. (r, None))"

definition pg_query :: "(string \<times> pg_row \<Rightarrow> bool) \<Rightarrow> pg_Repo \<Rightarrow> pg_Repo \<times> (go_error + pg_rows)" where
  "pg_query sel w =
     (case next_outcome w of (w1, out) \<Rightarrow>
        (w1,
         let rows = filter sel (db_table w1) in
         case out of
           Delivered \<Rightarrow> Inr (scanned rows, None)
         | RowsCut k e \<Rightarrow> Inr (scanned (take k rows), if k \<le> length rows then Some e else None)
         | ScanFails ids e \<Rightarrow> Inr (map (\<lambda>r. (r, if fst r \<in> set ids then Some e else None)) rows, None)
         | FailBefore e \<Rightarrow> Inl e
         | FailAfter e \<Rightarrow> Inl e))"

section \<open>Which errors are retried\<close>

text \<open>The SQLSTATE values of the \<open>pgerrcode\<close> names listed in the source, in its order.\<close>

definition retryablePGCodes :: "string list" where
  "retryablePGCodes =
     [''08000'', ''08003'', ''08006'', ''08001'', ''08004'', ''08007'', ''08P01'', ''40001'',
      ''40P01'', ''55P03'', ''53300'', ''57P01'', ''57P02'', ''57P03'', ''57014'']"

definition isRetryablePGCode :: "string \<Rightarrow> bool" where
  "isRetryablePGCode code =
     (if code \<in> set retryablePGCodes then True
      else if HasPrefix code ''08'' then True
      else if HasPrefix code ''40'' then True
      else False)"

fun as_OpError :: "go_error \<Rightarrow> unit option" where
  "as_OpError (OpError e) = Some ()"
| "as_OpError _ = None"

fun as_PqError :: "go_error \<Rightarrow> string option" where
  "as_PqError (PqError code) = Some code"
| "as_PqError _ = None"

definition isRetryablePG :: "go_error \<Rightarrow> bool" where
  "isRetryablePG err =
     (if errors_Is err ErrBadConn then True
      else if errors_As as_OpError err \<noteq> None then True
      else case errors_As as_PqError err of
             Some code \<Rightarrow> isRetryablePGCode code
           | None \<Rightarrow> False)"

section \<open>The operations\<close>

abbreviation pg_retry :: "(pg_Repo \<Rightarrow> pg_Repo \<times> go_error option) \<Rightarrow> pg_Repo \<Rightarrow> pg_Repo \<times> go_error option" where
  "pg_retry \<equiv> Retry pg_ctxErr pg_wait DefaultBackoff isRetryablePG"

abbreviation pg_retry_local ::
  "(pg_Repo \<times> 'a \<Rightarrow> (pg_Repo \<times> 'a) \<times> go_error option) \<Rightarrow> pg_Repo \<times> 'a \<Rightarrow> (pg_Repo \<times> 'a) \<times> go_error option" where
  "pg_retry_local \<equiv>
     Retry (with_local pg_ctxErr) (\<lambda>d. with_local (pg_wait d)) DefaultBackoff isRetryablePG"

text \<open>
  \<open>QueryRowContext(...).Scan(...)\<close> into a fresh local: the first row, with the error of its \<open>Scan\<close>;
  with no row \<open>rows.Err()\<close>, or else \<open>sql.ErrNoRows\<close>.
\<close>

definition pg_scan ::
  "string \<Rightarrow> string \<Rightarrow> (pg_row \<Rightarrow> 'a option) \<Rightarrow> pg_Repo \<times> 'a option \<Rightarrow> (pg_Repo \<times> 'a option) \<times> go_error option" where
  "pg_scan n mtype col wv =
     (case pg_query (\<lambda>(key, row). key = n \<and> row_mtype row = mtype) (fst wv) of
        (w1, Inl e) \<Rightarrow> ((w1, None), Some e)
      | (w1, Inr (rows, rowsErr)) \<Rightarrow>
          (case rows of
             [] \<Rightarrow> ((w1, None), Some (case rowsErr of None \<Rightarrow> ErrNoRows | Some e \<Rightarrow> e))
           | ((_, row), Some e) # _ \<Rightarrow> ((w1, None), Some e)
           | ((_, row), None) # _ \<Rightarrow> ((w1, col row), None)))"

definition pg_GetGauge :: "go_context \<Rightarrow> string \<Rightarrow> pg_Repo \<Rightarrow> pg_Repo \<times> (go_error + float64)" where
  "pg_GetGauge c n w =
     (case pg_retry_local (pg_scan n Gauge row_value) (w, None) of
        ((w1, v), Some err) \<Rightarrow> (w1, Inl (if errors_Is err ErrNoRows then ErrNotFound else err))
      | ((w1, v), None) \<Rightarrow> (w1, case v of None \<Rightarrow> Inl ErrNotFound | Some x \<Rightarrow> Inr x))"

definition pg_GetCounter :: "go_context \<Rightarrow> string \<Rightarrow> pg_Repo \<Rightarrow> pg_Repo \<times> (go_error + int64)" where
  "pg_GetCounter c n w =
     (case pg_retry_local (pg_scan n Counter row_delta) (w, None) of
        ((w1, d), Some err) \<Rightarrow> (w1, Inl (if errors_Is err ErrNoRows then ErrNotFound else err))
      | ((w1, d), None) \<Rightarrow> (w1, case d of None \<Rightarrow> Inl ErrNotFound | Some x \<Rightarrow> Inr x))"

definition pg_SetGauge :: "go_context \<Rightarrow> string \<Rightarrow> float64 \<Rightarrow> pg_Repo \<Rightarrow> pg_Repo \<times> go_error option" where
  "pg_SetGauge c n v w = pg_retry (pg_exec (sql_set_gauge n v)) w"

definition pg_AddCounter :: "go_context \<Rightarrow> string \<Rightarrow> int64 \<Rightarrow> pg_Repo \<Rightarrow> pg_Repo \<times> go_error option" where
  "pg_AddCounter c n d w = pg_retry (pg_exec (sql_add_counter n d)) w"

text \<open>The statements of a transaction, on the transaction's own view of the table.\<close>

fun pg_tx_items :: "Metrics list \<Rightarrow> pg_table \<Rightarrow> pg_Repo \<Rightarrow> pg_Repo \<times> (go_error + pg_table)" where
  "pg_tx_items [] t w = (w, Inr t)"
| "pg_tx_items (it # items) t w =
     (let stmt = (if MType it = Gauge then map_option (sql_set_gauge (ID it)) (Value it)
                  else if MType it = Counter then map_option (sql_add_counter (ID it)) (Delta it)
                  else None)
      in case stmt of
           None \<Rightarrow> pg_tx_items items t w
         | Some f \<Rightarrow>
             (case next_outcome w of
                (w1, FailBefore e) \<Rightarrow> (w1, Inl e)
              | (w1, FailAfter e) \<Rightarrow> (w1, Inl e)
              | (w1, _) \<Rightarrow> (case f t of Inl e \<Rightarrow> (w1, Inl e) | Inr t' \<Rightarrow> pg_tx_items items t' w1)))"

definition pg_attempt :: "Metrics list \<Rightarrow> pg_Repo \<Rightarrow> pg_Repo \<times> go_error option" where
  "pg_attempt items w =
     (case next_outcome w of
        (w1, FailBefore e) \<Rightarrow> (w1, Some e)
      | (w1, FailAfter e) \<Rightarrow> (w1, Some e)
      | (w1, _) \<Rightarrow>
          (case pg_tx_items items (db_table w1) w1 of
             (w2, Inl e) \<Rightarrow> (w2, Some e)
           | (w2, Inr t) \<Rightarrow> pg_exec (\<lambda>_. Inr t) w2))"

definition pg_UpdateMany :: "go_context \<Rightarrow> Metrics list \<Rightarrow> pg_Repo \<Rightarrow> pg_Repo \<times> go_error option" where
  "pg_UpdateMany c items w = (if items = [] then (w, None) else pg_retry (pg_attempt items) w)"

fun pg_scan_rows ::
  "((string \<times> pg_row) \<times> go_error option) list \<Rightarrow> float64 gomap \<Rightarrow> int64 gomap \<Rightarrow> float64 gomap \<times> int64 gomap" where
  "pg_scan_rows [] g c = (g, c)"
| "pg_scan_rows ((_, Some err) # rows) g c = pg_scan_rows rows g c"
| "pg_scan_rows (((key, row), None) # rows) g c =
     (if row_mtype row = Gauge then
        pg_scan_rows rows (case row_value row of None \<Rightarrow> g | Some v \<Rightarrow> gm_set key v g) c
      else if row_mtype row = Counter then
        pg_scan_rows rows g (case row_delta row of None \<Rightarrow> c | Some d \<Rightarrow> gm_set key d c)
      else pg_scan_rows rows g c)"

text \<open>The loop ends when \<open>rows.Next()\<close> does; \<open>rows.Err()\<close> is not looked at.\<close>

definition pg_snapshot_attempt ::
  "pg_Repo \<times> (float64 gomap \<times> int64 gomap) \<Rightarrow> (pg_Repo \<times> (float64 gomap \<times> int64 gomap)) \<times> go_error option" where
  "pg_snapshot_attempt wr =
     (case pg_query (\<lambda>_. True) (fst wr) of
        (w1, Inl e) \<Rightarrow> ((w1, snd wr), Some e)
      | (w1, Inr (rows, rowsErr)) \<Rightarrow> ((w1, pg_scan_rows rows [] []), None))"

definition pg_Snapshot :: "go_context \<Rightarrow> pg_Repo \<Rightarrow> pg_Repo \<times> (go_error + Snapshot)" where
  "pg_Snapshot c w =
     (case pg_retry_local pg_snapshot_attempt (w, ([], [])) of
        ((w1, r), Some err) \<Rightarrow> (w1, Inl err)
      | ((w1, r), None) \<Rightarrow> (w1, Inr \<lparr>Gauges = fst r, Counters = snd r\<rparr>))"

text \<open>\<open>Migrate\<close> of \<open>migrate.go\<close>; \<open>SetDialect\<close> and \<open>Up\<close> are those of the goose library.\<close>

definition Migrate ::
  "(string \<Rightarrow> go_error option) \<Rightarrow> (string \<Rightarrow> pg_Repo \<Rightarrow> pg_Repo \<times> go_error option) \<Rightarrow> pg_Repo \<Rightarrow> pg_Repo \<times> go_error option" where
  "Migrate SetDialect Up db =
     (case SetDialect ''postgres'' of
        Some err \<Rightarrow> (db, Some err)
      | None \<Rightarrow> Up ''migrations'' db)"

definition pg_Ping :: "go_context \<Rightarrow> pg_Repo \<Rightarrow> pg_Repo \<times> go_error option" where
  "pg_Ping c w =
     (if \<not> db_configured w then (w, Some (ErrNew ''db not configured''))
      else pg_retry (pg_exec Inr) w)"

definition postgres_repo :: "pg_Repo MetricsRepo" where
  "postgres_repo =
     \<lparr>repo_GetGauge = pg_GetGauge, repo_GetCounter = pg_GetCounter, repo_SetGauge = pg_SetGauge,
      repo_AddCounter = pg_AddCounter, repo_UpdateMany = pg_UpdateMany,
      repo_Snapshot = pg_Snapshot, repo_Ping = pg_Ping\<rparr>"

section \<open>Invariant and abstraction\<close>

text \<open>A row holds the column of its type and nothing in the other one.\<close>

definition row_ok :: "pg_row \<Rightarrow> bool" where
  "row_ok row \<longleftrightarrow>
     row_mtype row = Gauge \<and> row_value row \<noteq> None \<and> row_delta row = None \<or>
     row_mtype row = Counter \<and> row_value row = None \<and> row_delta row \<noteq> None"

definition table_ok :: "pg_table \<Rightarrow> bool" where
  "table_ok t \<longleftrightarrow> gm_wf t \<and> (\<forall>(n, row) \<in> set t. row_ok row)"

text \<open>Every call of the script is delivered whole or fails before it takes effect.\<close>

fun clean_outcome :: "pg_outcome \<Rightarrow> bool" where
  "clean_outcome Delivered = True"
| "clean_outcome (FailBefore e) = True"
| "clean_outcome _ = False"

definition env_ok :: "pg_Repo \<Rightarrow> bool" where
  "env_ok w \<longleftrightarrow> list_all clean_outcome (db_outcomes w)"

definition pg_inv :: "pg_Repo \<Rightarrow> bool" where
  "pg_inv w \<longleftrightarrow> table_ok (db_table w) \<and> env_ok w"

definition table_gauge :: "pg_table \<Rightarrow> string \<Rightarrow> float64 option" where
  "table_gauge t n = (case map_of t n of None \<Rightarrow> None | Some row \<Rightarrow> row_value row)"

definition table_counter :: "pg_table \<Rightarrow> string \<Rightarrow> int64 option" where
  "table_counter t n = (case map_of t n of None \<Rightarrow> None | Some row \<Rightarrow> row_delta row)"

definition pg_gauge_of :: "pg_Repo \<Rightarrow> string \<Rightarrow> float64 option" where
  "pg_gauge_of w = table_gauge (db_table w)"

definition pg_counter_of :: "pg_Repo \<Rightarrow> string \<Rightarrow> int64 option" where
  "pg_counter_of w = table_counter (db_table w)"

text \<open>The table a transaction installs.\<close>

fun tx_effect :: "Metrics list \<Rightarrow> pg_table \<Rightarrow> go_error + pg_table" where
  "tx_effect [] t = Inr t"
| "tx_effect (it # items) t =
     (if MType it = Gauge \<and> Value it \<noteq> None then tx_effect items (gm_set (ID it) \<lparr>row_mtype = Gauge, row_value = Value it, row_delta = None\<rparr> t)
      else if MType it = Counter \<and> Delta it \<noteq> None then
        (case sql_add_counter (ID it) (the (Delta it)) t of Inl e \<Rightarrow> Inl e | Inr t' \<Rightarrow> tx_effect items t')
      else tx_effect items t)"

section \<open>Facts about the table\<close>

lemma table_ok_row: "table_ok t \<Longrightarrow> map_of t n = Some row \<Longrightarrow> row_ok row"
  by (auto simp: table_ok_def dest: map_of_SomeD)

lemma set_gm_set: "gm_wf t \<Longrightarrow> x \<in> set (gm_set n row t) \<Longrightarrow> x = (n, row) \<or> x \<in> set t"
  by (induction t) (auto split: if_splits)

lemma table_ok_set: "table_ok t \<Longrightarrow> row_ok row \<Longrightarrow> table_ok (gm_set n row t)"
  by (auto simp: table_ok_def dest!: set_gm_set)

lemma table_ok_Nil [simp]: "table_ok []"
  by (simp add: table_ok_def)

lemma row_ok_gauge [simp]: "row_ok \<lparr>row_mtype = Gauge, row_value = Some v, row_delta = None\<rparr>"
  by (simp add: row_ok_def)

lemma row_ok_counter [simp]: "row_ok \<lparr>row_mtype = Counter, row_value = None, row_delta = Some d\<rparr>"
  by (simp add: row_ok_def)

lemma table_gauge_set: "table_gauge (gm_set n row t) = (table_gauge t)(n := row_value row)"
  by (auto simp: table_gauge_def)

lemma table_counter_set: "table_counter (gm_set n row t) = (table_counter t)(n := row_delta row)"
  by (auto simp: table_counter_def)

lemma sql_add_counter_cases:
  assumes "sql_add_counter n d t = Inr t'"
  shows "t' = gm_set n \<lparr>row_mtype = Counter, row_value = None,
                        row_delta = Some (counter_or_zero (table_counter t n) + d)\<rparr> t"
  using assms
  by (auto simp: sql_add_counter_def table_counter_def Let_def split: option.splits if_splits)

lemma sql_add_counter_ok: "table_ok t \<Longrightarrow> sql_add_counter n d t = Inr t' \<Longrightarrow> table_ok t'"
  by (drule sql_add_counter_cases) (simp add: table_ok_set)

section \<open>Facts about the handle\<close>

lemma next_outcome_facts:
  assumes "next_outcome w = (w', out)"
  shows "db_table w' = db_table w" and "db_configured w' = db_configured w"
    and "env_ok w \<Longrightarrow> env_ok w' \<and> clean_outcome out"
  using assms by (auto simp: next_outcome_def env_ok_def split: list.splits)

lemma pg_ctxErr_facts:
  assumes "pg_ctxErr w = (w', x)"
  shows "db_table w' = db_table w" and "env_ok w' = env_ok w"
  using assms by (auto simp: pg_ctxErr_def env_ok_def split: list.splits)

text \<open>
  An operation is atomic for a table transformer when, under a clean script, success means that the
  table is the transformed one and an error means that it is untouched.
\<close>

definition pg_atomic :: "(pg_table \<Rightarrow> go_error + pg_table) \<Rightarrow> (pg_Repo \<Rightarrow> pg_Repo \<times> go_error option) \<Rightarrow> bool" where
  "pg_atomic stmt operation \<longleftrightarrow>
     (\<forall>w w' x. env_ok w \<longrightarrow> operation w = (w', x) \<longrightarrow>
        env_ok w' \<and>
        (case x of None \<Rightarrow> stmt (db_table w) = Inr (db_table w') | Some e \<Rightarrow> db_table w' = db_table w))"

lemma pg_exec_atomic: "pg_atomic stmt (pg_exec stmt)"
proof -
  { fix w w' x
    assume ok: "env_ok w" and run: "pg_exec stmt w = (w', x)"
    obtain w1 out where n: "next_outcome w = (w1, out)" by fastforce
    note facts = next_outcome_facts(1) [OF n] next_outcome_facts(3) [OF n ok]
    have "env_ok w' \<and> (case x of None \<Rightarrow> stmt (db_table w) = Inr (db_table w') | Some e \<Rightarrow> db_table w' = db_table w)"
      using facts run n
      by (cases out) (auto simp: pg_exec_def env_ok_def split: sum.splits) }
  then show ?thesis unfolding pg_atomic_def by blast
qed

lemma pg_tx_items_facts:
  assumes "env_ok w" and "pg_tx_items items t w = (w', x)"
  shows "env_ok w' \<and> db_table w' = db_table w \<and> (\<forall>t'. x = Inr t' \<longrightarrow> tx_effect items t = Inr t')"
  using assms
proof (induction items arbitrary: t w)
  case Nil
  then show ?case by auto
next
  case (Cons it items)
  obtain w1 out where n: "next_outcome w = (w1, out)" by fastforce
  note facts = next_outcome_facts(1) [OF n] next_outcome_facts(3) [OF n Cons.prems(1)]
  show ?case
  proof (cases "MType it = Gauge \<and> Value it \<noteq> None \<or> MType it = Counter \<and> Delta it \<noteq> None")
    case True
    with Cons.prems(2) n facts Cons.IH [of w1] show ?thesis
      by (cases out) (fastforce simp: sql_set_gauge_def split: sum.splits)+
  next
    case False
    with Cons.prems have "pg_tx_items items t w = (w', x)"
      by (auto split: if_splits option.splits)
    with False Cons.IH [OF Cons.prems(1)] show ?thesis by auto
  qed
qed

lemma pg_attempt_atomic: "pg_atomic (tx_effect items) (pg_attempt items)"
proof -
  { fix w w' x
    assume ok: "env_ok w" and run: "pg_attempt items w = (w', x)"
    obtain w1 out where n: "next_outcome w = (w1, out)" by fastforce
    note f1 = next_outcome_facts(1) [OF n] next_outcome_facts(3) [OF n ok]
    obtain w2 y where t: "pg_tx_items items (db_table w1) w1 = (w2, y)" by fastforce
    note f2 = pg_tx_items_facts [OF f1(2) [THEN conjunct1] t]
    have "env_ok w' \<and> (case x of None \<Rightarrow> tx_effect items (db_table w) = Inr (db_table w') | Some e \<Rightarrow> db_table w' = db_table w)"
    proof (cases "out = Delivered \<and> (\<exists>t'. y = Inr t')")
      case True
      then obtain t' where y: "y = Inr t'" by blast
      with True n t run have "pg_exec (\<lambda>_. Inr t') w2 = (w', x)" by (simp add: pg_attempt_def)
      with pg_exec_atomic [of "\<lambda>_. Inr t'"] f1 f2 y show ?thesis
        unfolding pg_atomic_def by (fastforce split: option.splits)
    next
      case False
      with run n t f1 f2 show ?thesis
        by (cases out) (auto simp: pg_attempt_def split: sum.splits)
    qed }
  then show ?thesis unfolding pg_atomic_def by blast
qed

lemma pg_retry_atomic:
  assumes at: "pg_atomic stmt operation" and ok: "env_ok w" and run: "pg_retry operation w = (w', x)"
  shows "env_ok w' \<and> (case x of None \<Rightarrow> stmt (db_table w) = Inr (db_table w') | Some e \<Rightarrow> db_table w' = db_table w)"
proof -
  let ?I = "\<lambda>u. env_ok u \<and> db_table u = db_table w"
  let ?Q = "\<lambda>u. env_ok u \<and> stmt (db_table w) = Inr (db_table u)"
  have "case x of None \<Rightarrow> ?Q w' | Some e \<Rightarrow> ?I w'"
  proof (rule Retry_rule [where I = ?I and Q = ?Q, OF _ _ _ _ run])
    show "?I w" using ok by simp
    show "?Q u'" if "?I u" "operation u = (u', None)" for u u'
      using at that unfolding pg_atomic_def by force
    show "?I u'" if "?I u" "operation u = (u', Some e)" for u u' e
      using at that unfolding pg_atomic_def by force
  qed (auto simp: pg_wait_def dest: pg_ctxErr_facts)
  then show ?thesis by (cases x) auto
qed

text \<open>The same for an attempt that only reads and leaves a result in the local variable.\<close>

lemma pg_retry_local_reads:
  assumes reads: "\<And>u u' x. env_ok (fst u) \<Longrightarrow> db_table (fst u) = db_table w \<Longrightarrow> attempt u = (u', x) \<Longrightarrow>
        env_ok (fst u') \<and> db_table (fst u') = db_table w \<and> (x = None \<longrightarrow> P (snd u'))"
    and ok: "env_ok w" and run: "pg_retry_local attempt (w, a) = ((w', b), x)"
  shows "env_ok w' \<and> db_table w' = db_table w \<and> (x = None \<longrightarrow> P b)"
proof -
  let ?I = "\<lambda>u. env_ok (fst u) \<and> db_table (fst u) = db_table w"
  let ?Q = "\<lambda>u. ?I u \<and> P (snd u)"
  have "case x of None \<Rightarrow> ?Q (w', b) | Some e \<Rightarrow> ?I (w', b)"
  proof (rule Retry_rule [where I = ?I and Q = ?Q, OF _ _ _ _ run])
    show "?I (w, a)" using ok by simp
    show "?Q u'" if "?I u" "attempt u = (u', None)" for u u' using reads that by blast
    show "?I u'" if "?I u" "attempt u = (u', Some e)" for u u' e using reads that by blast
  qed (auto simp: with_local_def pg_wait_def dest: pg_ctxErr_facts split: prod.splits)
  then show ?thesis by (cases x) auto
qed

lemma pg_query_facts:
  assumes "env_ok w" and "pg_query sel w = (w', x)"
  shows "env_ok w' \<and> db_table w' = db_table w \<and>
         (\<forall>rows. x = Inr rows \<longrightarrow> rows = (scanned (filter sel (db_table w)), None))"
proof -
  obtain w1 out where n: "next_outcome w = (w1, out)" by fastforce
  with next_outcome_facts(1) [OF n] next_outcome_facts(3) [OF n assms(1)] assms(2) show ?thesis
    by (cases out) (auto simp: pg_query_def)
qed

lemma pg_scan_facts:
  assumes "env_ok w" and "pg_retry_local (pg_scan n mtype col) (w, a) = ((w', b), x)" and "gm_wf (db_table w)"
  shows "env_ok w' \<and> db_table w' = db_table w \<and>
         (x = None \<longrightarrow> (\<exists>row. map_of (db_table w) n = Some row \<and> row_mtype row = mtype \<and> b = col row))"
proof (rule pg_retry_local_reads [OF _ assms(1,2)])
  fix u u' x
  assume u: "env_ok (fst u)" "db_table (fst u) = db_table w" and run: "pg_scan n mtype col u = (u', x)"
  let ?rows = "filter (\<lambda>(key, row). key = n \<and> row_mtype row = mtype) (db_table w)"
  have row: "map_of (db_table w) n = Some row \<and> row_mtype row = mtype" if "?rows = (key, row) # rest" for key row rest
  proof -
    from that have "(key, row) \<in> set ?rows" by simp
    with assms(3) show ?thesis by (auto simp: gm_wf_def map_of_eq_Some_iff)
  qed
  obtain w1 y where q: "pg_query (\<lambda>(key, row). key = n \<and> row_mtype row = mtype) (fst u) = (w1, y)" by fastforce
  from pg_query_facts [OF u(1) q] run q u
  show "env_ok (fst u') \<and> db_table (fst u') = db_table w \<and>
        (x = None \<longrightarrow> (\<exists>row. map_of (db_table w) n = Some row \<and> row_mtype row = mtype \<and> snd u' = col row))"
    by (cases ?rows) (auto simp: pg_scan_def split: sum.splits intro!: exI row [THEN conjunct1] row [THEN conjunct2])
qed

lemma table_lookup_fresh: "n \<notin> fst ` set rows \<Longrightarrow> table_gauge rows n = None \<and> table_counter rows n = None"
  by (simp add: table_gauge_def table_counter_def map_of_eq_None_iff [THEN iffD2])

lemma table_lookup_Cons:
  "table_gauge ((n, row) # rows) = (table_gauge rows)(n := row_value row)"
  "table_counter ((n, row) # rows) = (table_counter rows)(n := row_delta row)"
  by (auto simp: table_gauge_def table_counter_def)

lemma pg_scan_rows_lookup:
  assumes "gm_wf rows" and "\<forall>(n, row) \<in> set rows. row_ok row" and "pg_scan_rows (scanned rows) g c = (g', c')"
  shows "map_of g' = map_of g ++ table_gauge rows \<and> map_of c' = map_of c ++ table_counter rows"
  using assms
proof (induction rows arbitrary: g c)
  case Nil
  then show ?case by (auto simp: table_gauge_def table_counter_def map_add_def)
next
  case (Cons r rows)
  obtain n row where r: "r = (n, row)" by fastforce
  with Cons.prems have fresh: "n \<notin> fst ` set rows" and wf: "gm_wf rows"
    and rest: "\<forall>(n, row) \<in> set rows. row_ok row" and row: "row_ok row"
    by auto
  from row consider (gauge) v where "row_mtype row = Gauge" "row_value row = Some v" "row_delta row = None"
    | (counter) d where "row_mtype row = Counter" "row_value row = None" "row_delta row = Some d"
    by (auto simp: row_ok_def)
  then show ?case
  proof cases
    case gauge
    with Cons.prems(3) Cons.IH [OF wf rest, of "gm_set n v g" c] table_lookup_fresh [OF fresh] show ?thesis
      by (auto simp: r table_lookup_Cons map_add_def fun_eq_iff split: option.splits)
  next
    case counter
    with Cons.prems(3) Cons.IH [OF wf rest, of g "gm_set n d c"] table_lookup_fresh [OF fresh] show ?thesis
      by (auto simp: r table_lookup_Cons map_add_def fun_eq_iff split: option.splits)
  qed
qed

lemma pg_scan_rows_wf: "pg_scan_rows rows g c = (g', c') \<Longrightarrow> gm_wf g \<Longrightarrow> gm_wf c \<Longrightarrow> gm_wf g' \<and> gm_wf c'"
  by (induction rows g c rule: pg_scan_rows.induct) (auto split: if_splits option.splits)

lemma pg_scan_rows_skips: "pg_scan_rows rows g c = pg_scan_rows (filter (\<lambda>r. snd r = None) rows) g c"
  by (induction rows g c rule: pg_scan_rows.induct) auto

lemma tx_effect_ok: "table_ok t \<Longrightarrow> tx_effect items t = Inr t' \<Longrightarrow> table_ok t'"
proof (induction items t rule: tx_effect.induct)
  case (1 t)
  then show ?case by simp
next
  case (2 it items t)
  then show ?case
    by (auto simp: table_ok_set split: if_splits sum.splits dest: sql_add_counter_ok)
qed

lemma tx_effect_frame:
  "tx_effect items t = Inr t' \<Longrightarrow> k \<notin> ID ` set items \<Longrightarrow> map_of t' k = map_of t k"
proof (induction items t rule: tx_effect.induct)
  case (1 t)
  then show ?case by simp
next
  case (2 it items t)
  then show ?case
    by (fastforce split: if_splits sum.splits dest: sql_add_counter_cases)
qed

section \<open>The contract\<close>

lemmas pg_abs_defs = pg_inv_def pg_gauge_of_def pg_counter_of_def

lemma postgres_repo_sel [simp]:
  "repo_GetGauge postgres_repo = pg_GetGauge" "repo_GetCounter postgres_repo = pg_GetCounter"
  "repo_SetGauge postgres_repo = pg_SetGauge" "repo_AddCounter postgres_repo = pg_AddCounter"
  "repo_UpdateMany postgres_repo = pg_UpdateMany" "repo_Snapshot postgres_repo = pg_Snapshot"
  "repo_Ping postgres_repo = pg_Ping"
  by (simp_all add: postgres_repo_def)

lemma pg_GetGauge_facts:
  assumes "pg_inv w" and "pg_GetGauge c n w = (w', x)"
  shows "pg_inv w' \<and> db_table w' = db_table w \<and> (\<forall>v. x = Inr v \<longrightarrow> pg_gauge_of w n = Some v)"
proof -
  obtain w1 b y where r: "pg_retry_local (pg_scan n Gauge row_value) (w, None) = ((w1, b), y)"
    by (metis surj_pair)
  from pg_scan_facts [OF _ r] assms r show ?thesis
    by (auto simp: pg_inv_def table_ok_def pg_GetGauge_def pg_abs_defs table_gauge_def split: option.splits)
qed

lemma pg_GetCounter_facts:
  assumes "pg_inv w" and "pg_GetCounter c n w = (w', x)"
  shows "pg_inv w' \<and> db_table w' = db_table w \<and> (\<forall>d. x = Inr d \<longrightarrow> pg_counter_of w n = Some d)"
proof -
  obtain w1 b y where r: "pg_retry_local (pg_scan n Counter row_delta) (w, None) = ((w1, b), y)"
    by (metis surj_pair)
  from pg_scan_facts [OF _ r] assms r show ?thesis
    by (auto simp: pg_inv_def table_ok_def pg_GetCounter_def pg_abs_defs table_counter_def split: option.splits)
qed

lemma pg_SetGauge_facts:
  assumes "pg_inv w" and "pg_SetGauge c n v w = (w', x)"
  shows "pg_inv w' \<and>
         (case x of None \<Rightarrow> pg_gauge_of w' = (pg_gauge_of w)(n \<mapsto> v) \<and> pg_counter_of w' = (pg_counter_of w)(n := None)
          | Some e \<Rightarrow> db_table w' = db_table w)"
proof -
  from assms(2) have "pg_retry (pg_exec (sql_set_gauge n v)) w = (w', x)" by (simp add: pg_SetGauge_def)
  from pg_retry_atomic [OF pg_exec_atomic _ this] assms(1) show ?thesis
    by (auto simp: pg_abs_defs sql_set_gauge_def table_gauge_set table_counter_set table_ok_set
          split: option.splits dest!: sym [where t = "db_table w'"])
qed

lemma pg_AddCounter_facts:
  assumes "pg_inv w" and "pg_AddCounter c n d w = (w', x)"
  shows "pg_inv w' \<and>
         (case x of None \<Rightarrow> pg_gauge_of w' = (pg_gauge_of w)(n := None) \<and>
                    pg_counter_of w' = (pg_counter_of w)(n \<mapsto> counter_or_zero (pg_counter_of w n) + d)
          | Some e \<Rightarrow> db_table w' = db_table w)"
proof -
  from assms(2) have "pg_retry (pg_exec (sql_add_counter n d)) w = (w', x)" by (simp add: pg_AddCounter_def)
  from pg_retry_atomic [OF pg_exec_atomic _ this] assms(1) show ?thesis
    by (auto simp: pg_abs_defs table_gauge_set table_counter_set table_ok_set
          split: option.splits dest!: sql_add_counter_cases)
qed

lemma pg_UpdateMany_facts:
  assumes "pg_inv w" and "pg_UpdateMany c ms w = (w', x)"
  shows "pg_inv w' \<and>
         (case x of None \<Rightarrow> tx_effect ms (db_table w) = Inr (db_table w') | Some e \<Rightarrow> db_table w' = db_table w)"
proof (cases "ms = []")
  case True
  with assms show ?thesis by (auto simp: pg_UpdateMany_def)
next
  case False
  with assms(2) have "pg_retry (pg_attempt ms) w = (w', x)" by (simp add: pg_UpdateMany_def)
  from pg_retry_atomic [OF pg_attempt_atomic _ this] assms(1) show ?thesis
    by (auto simp: pg_inv_def split: option.splits dest: tx_effect_ok)
qed

lemma pg_Snapshot_facts:
  assumes "pg_inv w" and "pg_Snapshot c w = (w', x)"
  shows "pg_inv w' \<and> db_table w' = db_table w \<and>
         (\<forall>s. x = Inr s \<longrightarrow> map_of (Gauges s) = pg_gauge_of w \<and> map_of (Counters s) = pg_counter_of w \<and>
                gm_wf (Gauges s) \<and> gm_wf (Counters s))"
proof -
  let ?P = "\<lambda>b. b = pg_scan_rows (scanned (db_table w)) [] []"
  obtain w1 b y where r: "pg_retry_local pg_snapshot_attempt (w, ([], [])) = ((w1, b), y)"
    by (metis surj_pair)
  have facts: "env_ok w1 \<and> db_table w1 = db_table w \<and> (y = None \<longrightarrow> ?P b)"
  proof (rule pg_retry_local_reads [OF _ _ r])
    fix u u' x
    assume u: "env_ok (fst u)" "db_table (fst u) = db_table w" and run: "pg_snapshot_attempt u = (u', x)"
    obtain w2 z where q: "pg_query (\<lambda>_. True) (fst u) = (w2, z)" by fastforce
    from pg_query_facts [OF u(1) q] run q u
    show "env_ok (fst u') \<and> db_table (fst u') = db_table w \<and> (x = None \<longrightarrow> ?P (snd u'))"
      by (auto simp: pg_snapshot_attempt_def split: sum.splits)
  qed (use assms in \<open>simp add: pg_inv_def\<close>)
  obtain g' c' where sc: "pg_scan_rows (scanned (db_table w)) [] [] = (g', c')" by fastforce
  from assms(1) have "table_ok (db_table w)" by (simp add: pg_inv_def)
  with pg_scan_rows_lookup [OF _ _ sc] pg_scan_rows_wf [OF sc]
  have "map_of g' = pg_gauge_of w \<and> map_of c' = pg_counter_of w \<and> gm_wf g' \<and> gm_wf c'"
    by (simp add: table_ok_def pg_abs_defs)
  with facts sc r assms show ?thesis
    by (auto simp: pg_Snapshot_def pg_inv_def split: option.splits)
qed

lemma pg_table_obs: "db_table w' = db_table w \<Longrightarrow> pg_gauge_of w' = pg_gauge_of w \<and> pg_counter_of w' = pg_counter_of w"
  by (simp add: pg_abs_defs)

lemma pg_UpdateMany_frame:
  assumes "pg_inv w" and "pg_UpdateMany c ms w = (w', x)" and "k \<notin> ID ` set ms"
  shows "pg_gauge_of w' k = pg_gauge_of w k \<and> pg_counter_of w' k = pg_counter_of w k"
  using pg_UpdateMany_facts [OF assms(1,2)] assms(3)
  by (auto simp: pg_abs_defs table_gauge_def table_counter_def split: option.splits dest: tx_effect_frame)

interpretation pg: metrics_repo postgres_repo pg_gauge_of pg_counter_of pg_inv
proof (unfold_locales, unfold postgres_repo_sel, goal_cases)
  case (1 r c n r' x)
  then show ?case
    using pg_GetGauge_facts [of r c n r' x] pg_table_obs [of r' r] by simp
next
  case (2 r c n r' v)
  then show ?case
    using pg_GetGauge_facts [of r c n r' "Inr v"] by simp
next
  case (3 r c n r' y)
  then show ?case
    using pg_GetCounter_facts [of r c n r' y] pg_table_obs [of r' r] by simp
next
  case (4 r c n r' d)
  then show ?case
    using pg_GetCounter_facts [of r c n r' "Inr d"] by simp
next
  case (5 r c n v r' e)
  then show ?case
    using pg_SetGauge_facts [of r c n v r' e] by simp
next
  case (6 r c n v r')
  then show ?case
    using pg_SetGauge_facts [of r c n v r' None] by simp
next
  case (7 r c n v r' e k)
  then show ?case
    using pg_SetGauge_facts [of r c n v r' e] pg_table_obs [of r' r] by (simp split: option.splits)
next
  case (8 r c n v r' err)
  then show ?case
    using pg_SetGauge_facts [of r c n v r' "Some err"] pg_table_obs [of r' r] by simp
next
  case (9 r c n d r' e)
  then show ?case
    using pg_AddCounter_facts [of r c n d r' e] by simp
next
  case (10 r c n d r')
  then show ?case
    using pg_AddCounter_facts [of r c n d r' None] by simp
next
  case (11 r c n d r' e k)
  then show ?case
    using pg_AddCounter_facts [of r c n d r' e] pg_table_obs [of r' r] by (simp split: option.splits)
next
  case (12 r c n d r' err)
  then show ?case
    using pg_AddCounter_facts [of r c n d r' "Some err"] pg_table_obs [of r' r] by simp
next
  case (13 r c ms r' e)
  then show ?case
    using pg_UpdateMany_facts [of r c ms r' e] by simp
next
  case (14 r c ms r' e k)
  then show ?case
    using pg_UpdateMany_frame [of r c ms r' e k] by simp
next
  case (15 r c ms r' err)
  then show ?case
    using pg_UpdateMany_facts [of r c ms r' "Some err"] pg_table_obs [of r' r] by simp
next
  case (16 r c r' z)
  then show ?case
    using pg_Snapshot_facts [of r c r' z] pg_table_obs [of r' r] by simp
next
  case (17 r c r' s)
  then show ?case
    using pg_Snapshot_facts [of r c r' "Inr s"] by simp
qed

section \<open>Whatever the network does\<close>

text \<open>
  Without any assumption on the outcomes a statement may take effect although its call reports an error. A
  run of the retry loop then applies it any number of times up to the number of attempts.
\<close>

fun applied :: "(pg_table \<Rightarrow> go_error + pg_table) \<Rightarrow> nat \<Rightarrow> pg_table \<Rightarrow> pg_table \<Rightarrow> bool" where
  "applied stmt 0 t t' \<longleftrightarrow> t' = t"
| "applied stmt (Suc k) t t' \<longleftrightarrow> (\<exists>u. stmt t = Inr u \<and> applied stmt k u t')"

definition pg_once :: "(pg_table \<Rightarrow> go_error + pg_table) \<Rightarrow> (pg_Repo \<Rightarrow> pg_Repo \<times> go_error option) \<Rightarrow> bool" where
  "pg_once stmt operation \<longleftrightarrow>
     (\<forall>w w' x. operation w = (w', x) \<longrightarrow>
        stmt (db_table w) = Inr (db_table w') \<or> x \<noteq> None \<and> db_table w' = db_table w)"

lemma pg_exec_once: "pg_once stmt (pg_exec stmt)"
proof -
  { fix w w' x
    assume run: "pg_exec stmt w = (w', x)"
    obtain w1 out where n: "next_outcome w = (w1, out)" by fastforce
    with run next_outcome_facts(1) [OF n] have "stmt (db_table w) = Inr (db_table w') \<or> x \<noteq> None \<and> db_table w' = db_table w"
      by (cases out) (auto simp: pg_exec_def split: sum.splits) }
  then show ?thesis unfolding pg_once_def by blast
qed

lemma pg_tx_items_any:
  assumes "pg_tx_items items t w = (w', x)"
  shows "db_table w' = db_table w \<and> (\<forall>t'. x = Inr t' \<longrightarrow> tx_effect items t = Inr t')"
  using assms
proof (induction items arbitrary: t w)
  case Nil
  then show ?case by auto
next
  case (Cons it items)
  obtain w1 out where n: "next_outcome w = (w1, out)" by fastforce
  note facts = next_outcome_facts(1) [OF n]
  show ?case
  proof (cases "MType it = Gauge \<and> Value it \<noteq> None \<or> MType it = Counter \<and> Delta it \<noteq> None")
    case True
    with Cons.prems n facts Cons.IH [of _ w1] show ?thesis
      by (cases out) (fastforce simp: sql_set_gauge_def split: sum.splits)+
  next
    case False
    with Cons.prems have "pg_tx_items items t w = (w', x)"
      by (auto split: if_splits option.splits)
    with False Cons.IH show ?thesis by auto
  qed
qed

lemma pg_attempt_once: "pg_once (tx_effect items) (pg_attempt items)"
proof -
  { fix w w' x
    assume run: "pg_attempt items w = (w', x)"
    obtain w1 out where n: "next_outcome w = (w1, out)" by fastforce
    note f1 = next_outcome_facts(1) [OF n]
    obtain w2 y where t: "pg_tx_items items (db_table w1) w1 = (w2, y)" by fastforce
    note f2 = pg_tx_items_any [OF t]
    have "tx_effect items (db_table w) = Inr (db_table w') \<or> x \<noteq> None \<and> db_table w' = db_table w"
    proof (cases y)
      case (Inl e)
      with run n t f1 f2 show ?thesis by (cases out) (auto simp: pg_attempt_def)
    next
      case (Inr t')
      have "pg_exec (\<lambda>_. Inr t') w2 = (w', x) \<Longrightarrow> t' = db_table w' \<or> x \<noteq> None \<and> db_table w' = db_table w2"
        using pg_exec_once [of "\<lambda>_. Inr t'"] unfolding pg_once_def by fastforce
      with run n t f1 f2 Inr show ?thesis by (cases out) (auto simp: pg_attempt_def)
    qed }
  then show ?thesis unfolding pg_once_def by blast
qed

lemma pg_wait_table: "pg_wait d w = (w', x) \<Longrightarrow> db_table w' = db_table w"
  unfolding pg_wait_def by (rule pg_ctxErr_facts(1))

text \<open>The last attempt of a run: nothing touches the table after it.\<close>

lemma pg_once_last:
  assumes "pg_once stmt operation" and "operation u = (u', z)" and t: "t = db_table u'" and err: "z \<noteq> None \<Longrightarrow> x \<noteq> None"
  shows "\<exists>k \<le> n + 1. applied stmt k (db_table u) t \<and> (x = None \<longrightarrow> 1 \<le> k)"
proof -
  consider "stmt (db_table u) = Inr (db_table u')" | "z \<noteq> None" "db_table u' = db_table u"
    using assms(1,2) unfolding pg_once_def by blast
  then show ?thesis
  proof cases
    case 1
    then show ?thesis using t by (intro exI [of _ 1]) simp
  next
    case 2
    then show ?thesis using t err by (intro exI [of _ 0]) simp
  qed
qed

lemma pg_retry_from_applied:
  assumes once: "pg_once stmt operation"
    and run: "Retry_from pg_ctxErr pg_wait DefaultBackoff isRetryablePG operation i w = (w', x)"
  shows "\<exists>k \<le> length DefaultBackoff - i + 1. applied stmt k (db_table w) (db_table w') \<and> (x = None \<longrightarrow> 1 \<le> k)"
  using run
proof (induction rule: Retry_from_run_induct)
  case (ok i w)
  then show ?case by (intro pg_once_last [OF once ok(1)]) simp_all
next
  case (ended i w w1 e ce)
  then show ?case by (intro pg_once_last [OF once ended(1)]) (simp_all add: pg_ctxErr_facts(1))
next
  case (gave_up i w w1 e)
  then show ?case by (intro pg_once_last [OF once gave_up(1)]) (simp_all add: pg_ctxErr_facts(1))
next
  case (interrupted i w w1 e w2 ce)
  have "db_table w' = db_table w1"
    using pg_ctxErr_facts(1) [OF interrupted(2)] pg_wait_table [OF interrupted(5)] by simp
  with interrupted show ?case by (intro pg_once_last [OF once interrupted(1)]) simp_all
next
  case (again i w w1 e w2 w3)
  then obtain k where k: "k \<le> length DefaultBackoff - Suc i + 1" "applied stmt k (db_table w3) (db_table w')" "x = None \<longrightarrow> 1 \<le> k"
    by blast
  have t: "db_table w3 = db_table w1"
    using pg_ctxErr_facts(1) [OF again(2)] pg_wait_table [OF again(5)] by simp
  consider "stmt (db_table w) = Inr (db_table w1)" | "db_table w1 = db_table w"
    using once again(1) unfolding pg_once_def by blast
  then show ?case
  proof cases
    case 1
    with k t again(3) show ?thesis by (intro exI [of _ "Suc k"]) auto
  next
    case 2
    with k t again(3) show ?thesis by (intro exI [of _ k]) auto
  qed
qed

lemma pg_retry_applied:
  assumes "pg_once stmt operation" and "pg_retry operation w = (w', x)"
  shows "\<exists>k \<le> 4. applied stmt k (db_table w) (db_table w') \<and> (x = None \<longrightarrow> 1 \<le> k)"
  using pg_retry_from_applied [OF assms(1), of 0] assms(2) by (simp add: Retry_def DefaultBackoff_def numeral_eq_Suc)

lemma applied_keeps: "applied stmt k t t' \<Longrightarrow> (\<And>u u'. P u \<Longrightarrow> stmt u = Inr u' \<Longrightarrow> P u') \<Longrightarrow> P t \<Longrightarrow> P t'"
  by (induction k arbitrary: t) auto

lemma table_ok_exclusive: "table_ok (db_table p) \<Longrightarrow> pg_gauge_of p n = None \<or> pg_counter_of p n = None"
  using table_ok_row [of "db_table p" n]
  by (auto simp: pg_gauge_of_def pg_counter_of_def table_gauge_def table_counter_def row_ok_def split: option.splits)

lemma applied_add_counter:
  assumes "applied (sql_add_counter n d) k t t'"
  shows "counter_or_zero (table_counter t' n) = counter_or_zero (table_counter t n) + of_nat k * d \<and>
         (\<forall>n'. n' \<noteq> n \<longrightarrow> map_of t' n' = map_of t n') \<and> (k = 0 \<longrightarrow> t' = t)"
  using assms
proof (induction k arbitrary: t)
  case 0
  then show ?case by simp
next
  case (Suc k)
  then obtain u where u: "sql_add_counter n d t = Inr u" "applied (sql_add_counter n d) k u t'" by auto
  from Suc.IH [OF u(2)] sql_add_counter_cases [OF u(1)] show ?case
    by (simp add: table_counter_set algebra_simps)
qed

lemma pg_reads_any:
  assumes "\<And>u u' x. attempt u = (u', x) \<Longrightarrow> db_table (fst u') = db_table (fst u)"
    and run: "pg_retry_local attempt (w, a) = ((w', b), x)"
  shows "db_table w' = db_table w"
proof -
  have "case x of None \<Rightarrow> db_table (fst (w', b)) = db_table w | Some e \<Rightarrow> db_table (fst (w', b)) = db_table w"
    by (rule Retry_rule [where I = "\<lambda>u. db_table (fst u) = db_table w" and Q = "\<lambda>u. db_table (fst u) = db_table w", OF _ _ _ _ run])
       (auto simp: with_local_def pg_wait_def dest: pg_ctxErr_facts split: prod.splits dest!: assms(1))
  then show ?thesis by (cases x) auto
qed

lemma pg_query_any: "pg_query sel w = (w', x) \<Longrightarrow> db_table w' = db_table w"
  by (cases "next_outcome w") (auto simp: pg_query_def dest: next_outcome_facts(1))

lemma pg_scan_any: "pg_scan n mt col u = (u', x) \<Longrightarrow> db_table (fst u') = db_table (fst u)"
  by (auto simp: pg_scan_def split: prod.splits sum.splits list.splits option.splits dest: pg_query_any)

lemma pg_snapshot_any: "pg_snapshot_attempt u = (u', x) \<Longrightarrow> db_table (fst u') = db_table (fst u)"
  by (auto simp: pg_snapshot_attempt_def split: prod.splits sum.splits dest: pg_query_any)

lemma pg_write_typed:
  assumes "pg_once stmt operation" and "\<And>u u'. table_ok u \<Longrightarrow> stmt u = Inr u' \<Longrightarrow> table_ok u'" and "table_ok (db_table w)"
  shows "table_ok (db_table (fst (pg_retry operation w)))"
proof -
  obtain w' x where run: "pg_retry operation w = (w', x)" by fastforce
  with pg_retry_applied [OF assms(1) run] applied_keeps [of stmt _ "db_table w" "db_table w'" table_ok] assms(2,3)
  show ?thesis by auto
qed

text \<open>Every row keeps the column of its type and no other, under any script of outcomes.\<close>

interpretation pgt: repo_keeps postgres_repo "\<lambda>w. table_ok (db_table w)"
proof (unfold_locales, unfold postgres_repo_sel, goal_cases)
  case (1 r c n)
  then show ?case
    using pg_reads_any [of "pg_scan n Gauge row_value", OF pg_scan_any] by (auto simp: pg_GetGauge_def split: prod.split option.split)
next
  case (2 r c n)
  then show ?case
    using pg_reads_any [of "pg_scan n Counter row_delta", OF pg_scan_any] by (auto simp: pg_GetCounter_def split: prod.split option.split)
next
  case (3 r c n v)
  then show ?case
    unfolding pg_SetGauge_def by (intro pg_write_typed [OF pg_exec_once]) (auto simp: sql_set_gauge_def table_ok_set)
next
  case (4 r c n d)
  then show ?case
    unfolding pg_AddCounter_def by (intro pg_write_typed [OF pg_exec_once]) (auto intro: sql_add_counter_ok)
next
  case (5 r c ms)
  then show ?case
    unfolding pg_UpdateMany_def using pg_write_typed [OF pg_attempt_once, of ms r] tx_effect_ok by auto
next
  case (6 r c)
  then show ?case
    using pg_reads_any [of pg_snapshot_attempt, OF pg_snapshot_any] by (auto simp: pg_Snapshot_def split: prod.split option.split)
qed

section \<open>When a transaction means the abstract batch\<close>

text \<open>
  A row has one type, so a batch means the same as for a repository with separate name spaces only
  when it does not use a name with two types and does not use the name of a row of the other type.
\<close>

definition stored_item :: "Metrics \<Rightarrow> bool" where
  "stored_item m \<longleftrightarrow> MType m = Gauge \<and> Value m \<noteq> None \<or> MType m = Counter \<and> Delta m \<noteq> None"

definition typed_by :: "(string \<Rightarrow> string) \<Rightarrow> Metrics list \<Rightarrow> pg_table \<Rightarrow> bool" where
  "typed_by f items t \<longleftrightarrow>
     list_all (\<lambda>m. stored_item m \<longrightarrow> MType m = f (ID m)) items \<and> list_all (\<lambda>(n, row). row_mtype row = f n) t"

lemma typed_by_tail:
  assumes "typed_by f (it # items) t" and "stored_item it" and "row_mtype row = MType it" and "gm_wf t"
  shows "typed_by f items (gm_set (ID it) row t)"
  using assms by (auto simp: typed_by_def list_all_iff dest!: set_gm_set)

lemma typed_by_other:
  assumes "typed_by f (it # items) t" and "stored_item it" and "table_ok t"
  shows "MType it = Gauge \<Longrightarrow> table_counter t (ID it) = None"
    and "MType it = Counter \<Longrightarrow> table_gauge t (ID it) = None"
proof -
  have "row_mtype row = MType it" if "map_of t (ID it) = Some row" for row
    using assms(1,2) map_of_SomeD [OF that] by (auto simp: typed_by_def list_all_iff)
  with table_ok_row [OF assms(3), of "ID it"]
  show "MType it = Gauge \<Longrightarrow> table_counter t (ID it) = None" "MType it = Counter \<Longrightarrow> table_gauge t (ID it) = None"
    by (auto simp: table_counter_def table_gauge_def row_ok_def split: option.splits)
qed

lemma tx_effect_spec:
  assumes "tx_effect items t = Inr t'" and "table_ok t" and "typed_by f items t"
  shows "table_gauge t' = spec_gauges items (table_gauge t) \<and> table_counter t' = spec_counters items (table_counter t)"
  using assms
proof (induction items arbitrary: t)
  case Nil
  then show ?case by simp
next
  case (Cons it items)
  note other = typed_by_other [OF Cons.prems(3) _ Cons.prems(2)]
  note tail = typed_by_tail [OF Cons.prems(3)]
  from Cons.prems(2) have wf: "gm_wf t" by (simp add: table_ok_def)
  consider (gauge) v where "MType it = Gauge" "Value it = Some v"
    | (counter) d where "MType it = Counter" "Delta it = Some d"
    | (skip) "\<not> stored_item it"
    unfolding stored_item_def by blast
  then show ?case
  proof cases
    case gauge
    let ?t = "gm_set (ID it) \<lparr>row_mtype = Gauge, row_value = Some v, row_delta = None\<rparr> t"
    from gauge have st: "stored_item it" by (simp add: stored_item_def)
    have obs: "table_gauge ?t = (table_gauge t)(ID it \<mapsto> v)" "table_counter ?t = table_counter t"
      using other(1) [OF st gauge(1)] by (auto simp: table_gauge_set table_counter_set)
    from gauge Cons.prems(1) have "tx_effect items ?t = Inr t'" by simp
    from Cons.IH [OF this] tail [OF st, of "\<lparr>row_mtype = Gauge, row_value = Some v, row_delta = None\<rparr>"] gauge Cons.prems(2) wf
    show ?thesis unfolding obs by (simp add: table_ok_set fun_upd_def)
  next
    case counter
    let ?row = "\<lparr>row_mtype = Counter, row_value = None, row_delta = Some (counter_or_zero (table_counter t (ID it)) + d)\<rparr>"
    let ?t = "gm_set (ID it) ?row t"
    from counter have st: "stored_item it" by (simp add: stored_item_def)
    have obs: "table_counter ?t = (table_counter t)(ID it \<mapsto> counter_or_zero (table_counter t (ID it)) + d)"
        "table_gauge ?t = table_gauge t"
      using other(2) [OF st counter(1)] by (auto simp: table_gauge_set table_counter_set)
    from counter Cons.prems(1) obtain t1 where t1: "sql_add_counter (ID it) d t = Inr t1" "tx_effect items t1 = Inr t'"
      by (auto split: sum.splits)
    from t1 sql_add_counter_cases [OF t1(1)] have "tx_effect items ?t = Inr t'" by simp
    from Cons.IH [OF this] tail [OF st, of ?row] counter Cons.prems(2) wf
    show ?thesis unfolding obs by (simp add: table_ok_set fun_upd_def)
  next
    case skip
    with Cons.prems have "tx_effect items t = Inr t'" "typed_by f items t"
      by (auto simp: stored_item_def typed_by_def split: if_splits)
    from Cons.IH [OF this(1) Cons.prems(2) this(2)] skip show ?thesis by (auto simp: stored_item_def)
  qed
qed

lemma tx_effect_typed:
  assumes "tx_effect items t = Inr t'" and "table_ok t" and "typed_by f items t"
  shows "list_all (\<lambda>(n, row). row_mtype row = f n) t'"
  using assms
proof (induction items arbitrary: t)
  case Nil
  then show ?case by (simp add: typed_by_def)
next
  case (Cons it items)
  note tail = typed_by_tail [OF Cons.prems(3)]
  from Cons.prems(2) have wf: "gm_wf t" by (simp add: table_ok_def)
  consider (gauge) v where "MType it = Gauge" "Value it = Some v"
    | (counter) d where "MType it = Counter" "Delta it = Some d"
    | (skip) "\<not> stored_item it"
    unfolding stored_item_def by blast
  then show ?case
  proof cases
    case gauge
    then show ?thesis
      using Cons.IH [of "gm_set (ID it) \<lparr>row_mtype = Gauge, row_value = Some v, row_delta = None\<rparr> t"] Cons.prems(1,2) wf
        tail [of "\<lparr>row_mtype = Gauge, row_value = Some v, row_delta = None\<rparr>"]
      by (simp add: table_ok_set stored_item_def)
  next
    case counter
    let ?row = "\<lparr>row_mtype = Counter, row_value = None, row_delta = Some (counter_or_zero (table_counter t (ID it)) + d)\<rparr>"
    from counter Cons.prems(1) obtain t1 where t1: "sql_add_counter (ID it) d t = Inr t1" "tx_effect items t1 = Inr t'"
      by (auto split: sum.splits)
    with sql_add_counter_cases [OF t1(1)] Cons.IH [of "gm_set (ID it) ?row t"] counter Cons.prems(2) wf tail [of ?row]
    show ?thesis by (simp add: table_ok_set stored_item_def)
  next
    case skip
    with Cons.prems have "tx_effect items t = Inr t'" "typed_by f items t"
      by (auto simp: stored_item_def typed_by_def split: if_splits)
    from Cons.IH [OF this(1) Cons.prems(2) this(2)] show ?thesis .
  qed
qed

text \<open>A batch applied \<open>k\<close> times is the effect of its items, \<open>k\<close> times over.\<close>

lemma applied_batch:
  assumes "applied (tx_effect items) k t t'" and "table_ok t" and "typed_by f items t"
  shows "table_ok t' \<and> table_gauge t' = spec_gauges (concat (replicate k items)) (table_gauge t) \<and>
    table_counter t' = spec_counters (concat (replicate k items)) (table_counter t)"
  using assms
proof (induction k arbitrary: t)
  case 0
  then show ?case by simp
next
  case (Suc k)
  then obtain u where u: "tx_effect items t = Inr u" "applied (tx_effect items) k u t'" by auto
  have "typed_by f items u" using tx_effect_typed [OF u(1) Suc.prems(2,3)] Suc.prems(3) by (simp add: typed_by_def)
  from Suc.IH [OF u(2) tx_effect_ok [OF Suc.prems(2) u(1)] this] tx_effect_spec [OF u(1) Suc.prems(2,3)] show ?case
    by (simp add: spec_gauges_append spec_counters_append)
qed

lemma pg_UpdateMany_applied:
  assumes "pg_UpdateMany c items w = (w', x)" and "table_ok (db_table w)"
  shows "\<exists>k \<le> 4. applied (tx_effect items) k (db_table w) (db_table w') \<and> (x = None \<longrightarrow> items = [] \<or> 1 \<le> k) \<and>
    (env_ok w \<longrightarrow> k \<le> 1 \<and> (x \<noteq> None \<longrightarrow> k = 0))"
proof (cases "items = []")
  case True
  with assms show ?thesis by (intro exI [of _ 0]) (simp add: pg_UpdateMany_def)
next
  case False
  with assms(1) have run: "pg_retry (pg_attempt items) w = (w', x)" by (simp add: pg_UpdateMany_def)
  show ?thesis
  proof (cases "env_ok w")
    case True
    with assms(2) have "pg_inv w" by (simp add: pg_inv_def)
    from pg_UpdateMany_facts [OF this assms(1)] show ?thesis
      by (intro exI [of _ "if x = None then 1 else 0"]) (auto split: option.splits)
  next
    case False
    with pg_retry_applied [OF pg_attempt_once run] show ?thesis by blast
  qed
qed

section \<open>Properties\<close>

text \<open>
  C17: \<open>UpdateMany\<close> on Postgres never applies part of a batch, whatever calls of the database fail, before or after they took
  effect, and however many attempts are made: the whole batch has been applied some number of times (the sum of the deltas
  and the last gauge value each time), at most once per attempt and so at most four times, at least once when the
  call reports success; not at all means that the table is as it was. If no answer is lost, that is, every call that
  fails has had no effect, success means exactly once and an error not at all. The table has rows of one type each and
  the batch does not mix the types of a name (\<open>f\<close> is the type of each name).
\<close>

theorem pg_UpdateMany_atomic:
  assumes "pg_UpdateMany c items w = (w', x)" and "table_ok (db_table w)" and "typed_by f items (db_table w)"
  shows "\<exists>k \<le> 4. table_ok (db_table w') \<and>
    pg_gauge_of w' = spec_gauges (concat (replicate k items)) (pg_gauge_of w) \<and>
    pg_counter_of w' = spec_counters (concat (replicate k items)) (pg_counter_of w) \<and>
    (k = 0 \<longrightarrow> db_table w' = db_table w) \<and> (x = None \<longrightarrow> items = [] \<or> 1 \<le> k) \<and>
    (env_ok w \<longrightarrow> k \<le> 1 \<and> (x \<noteq> None \<longrightarrow> k = 0))"
proof -
  obtain k where k: "k \<le> 4" "applied (tx_effect items) k (db_table w) (db_table w')" "x = None \<longrightarrow> items = [] \<or> 1 \<le> k"
      "env_ok w \<longrightarrow> k \<le> 1 \<and> (x \<noteq> None \<longrightarrow> k = 0)"
    using pg_UpdateMany_applied [OF assms(1,2)] by blast
  with applied_batch [OF k(2) assms(2,3)] show ?thesis by (intro exI [of _ k]) (auto simp: pg_abs_defs)
qed

abbreviation pg_db :: "pg_table \<Rightarrow> pg_outcome list \<Rightarrow> pg_Repo" where
  "pg_db t outs \<equiv> \<lparr>db_configured = True, db_table = t, db_outcomes = outs, db_ctx = []\<rparr>"

lemmas pg_run_defs =
  Retry_def Retry_from.simps pg_exec_def next_outcome_def pg_ctxErr_def pg_wait_def with_local_def
  isRetryablePG_def isRetryablePGCode_def DefaultBackoff_def pg_attempt_def sql_set_gauge_def sql_add_counter_def

text \<open>The answer of the first commit is lost: the batch is applied twice, as a whole.\<close>

theorem pg_UpdateMany_atomic_witness:
  "\<exists>k. k = 2 \<and> pg_counter_of (fst (pg_UpdateMany Background [counter_metric ''c'' 2, counter_metric ''d'' 3]
        (pg_db [] [Delivered, Delivered, Delivered, FailAfter ErrBadConn]))) =
      spec_counters (concat (replicate k [counter_metric ''c'' 2, counter_metric ''d'' 3])) Map.empty"
proof -
  let ?b = "[counter_metric ''c'' 2, counter_metric ''d'' 3]" and ?w = "pg_db [] [Delivered, Delivered, Delivered, FailAfter ErrBadConn]"
  have run: "pg_UpdateMany Background ?b ?w =
      (pg_db [(''c'', \<lparr>row_mtype = Counter, row_value = None, row_delta = Some 4\<rparr>), (''d'', \<lparr>row_mtype = Counter, row_value = None, row_delta = Some 6\<rparr>)] [], None)"
    by (simp add: pg_UpdateMany_def pg_run_defs fits_bigint_def)
  have empty: "pg_counter_of ?w = Map.empty" by (auto simp: pg_counter_of_def table_counter_def)
  obtain k where k: "k \<le> 4" "pg_counter_of (fst (pg_UpdateMany Background ?b ?w)) = spec_counters (concat (replicate k ?b)) Map.empty"
    using pg_UpdateMany_atomic [OF run, of "\<lambda>n. Counter"] unfolding run empty by (auto simp: table_ok_def typed_by_def)
  moreover have "k = 2"
  proof -
    have "pg_counter_of (fst (pg_UpdateMany Background ?b ?w)) ''c'' = Some 4" unfolding run by (simp add: pg_counter_of_def table_counter_def)
    moreover have "k = 0 \<or> k = Suc 0 \<or> k = 2 \<or> k = Suc (Suc (Suc 0)) \<or> k = Suc (Suc (Suc (Suc 0)))" using k(1) by linarith
    ultimately show ?thesis using k(2) by (elim disjE) simp_all
  qed
  ultimately show ?thesis by blast
qed

text \<open>
  the retry of \<open>AddCounter\<close> is not idempotent. When the server applies the statement and the
  connection then breaks with a network error, the second attempt applies it again: the call reports
  success and the counter has grown by twice the delta.
\<close>

theorem pg_AddCounter_applied_twice:
  assumes "fits_bigint (2 * sint d)"
  shows "pg_AddCounter c n d (pg_db [] [FailAfter (OpError e)]) =
    (pg_db [(n, \<lparr>row_mtype = Counter, row_value = None, row_delta = Some (d + d)\<rparr>)] [], None)"
  using assms by (simp add: pg_AddCounter_def pg_run_defs)

theorem pg_AddCounter_applied_twice_witness:
  "fits_bigint (2 * sint (5 :: int64)) \<and>
   pg_counter_of (fst (pg_AddCounter Background ''hits'' 5 (pg_db [] [FailAfter (OpError ECONNRESET)]))) ''hits'' = Some 10"
  using pg_AddCounter_applied_twice [of 5 Background "''hits''" ECONNRESET]
  by (simp add: fits_bigint_def pg_counter_of_def table_counter_def)

text \<open>
  C20: how often the delta of one \<open>AddCounter\<close> is added, whatever the database and the network do: at most four
  times (once per attempt), at least once when the call reports success, and possibly also when it reports an
  error; no other row changes.
\<close>

theorem pg_AddCounter_at_least_once:
  assumes "pg_AddCounter c n d w = (w', x)"
  shows "\<exists>k \<le> 4. (x = None \<longrightarrow> 1 \<le> k) \<and> (k = 0 \<longrightarrow> db_table w' = db_table w) \<and>
    counter_or_zero (pg_counter_of w' n) = counter_or_zero (pg_counter_of w n) + of_nat k * d \<and>
    (\<forall>n'. n' \<noteq> n \<longrightarrow> map_of (db_table w') n' = map_of (db_table w) n')"
proof -
  from pg_retry_applied [OF pg_exec_once assms [unfolded pg_AddCounter_def]]
  obtain k where "k \<le> 4" "applied (sql_add_counter n d) k (db_table w) (db_table w')" "x = None \<longrightarrow> 1 \<le> k" by blast
  with applied_add_counter [OF this(2)] show ?thesis unfolding pg_counter_of_def by blast
qed

text \<open>Four lost answers: the call fails and the delta has been added four times.\<close>

theorem pg_AddCounter_at_least_once_witness:
  "\<exists>k \<le> 4. counter_or_zero (pg_counter_of (fst (pg_AddCounter Background ''c'' 5
       (pg_db [] (replicate 4 (FailAfter (OpError EPIPE)))))) ''c'') = of_nat k * 5 \<and> k = 4"
proof -
  have run: "pg_AddCounter Background ''c'' 5 (pg_db [] (replicate 4 (FailAfter (OpError EPIPE)))) =
      (pg_db [(''c'', \<lparr>row_mtype = Counter, row_value = None, row_delta = Some 20\<rparr>)] [], Some (OpError EPIPE))"
    by (simp add: pg_AddCounter_def pg_run_defs fits_bigint_def numeral_eq_Suc)
  from pg_AddCounter_at_least_once [OF run] show ?thesis
    unfolding run by (auto simp: pg_counter_of_def table_counter_def)
qed

text \<open>
  in Postgres a name holds one metric: a successful write of a gauge removes the counter of that
  name, and a successful write of a counter removes the gauge, while all other names are untouched.
\<close>

theorem pg_name_holds_one_metric:
  assumes "pg_inv w" and "pg_SetGauge c n v w = (w1, None)" and "pg_AddCounter c n d w = (w2, None)"
  shows "pg_gauge_of w1 = (pg_gauge_of w)(n \<mapsto> v) \<and> pg_counter_of w1 = (pg_counter_of w)(n := None) \<and>
         pg_counter_of w2 = (pg_counter_of w)(n \<mapsto> counter_or_zero (pg_counter_of w n) + d) \<and>
         pg_gauge_of w2 = (pg_gauge_of w)(n := None)"
  using pg_SetGauge_facts [OF assms(1,2)] pg_AddCounter_facts [OF assms(1,3)] by simp

theorem pg_name_holds_one_metric_witness:
  "pg_counter_of (fst (pg_SetGauge Background ''m'' 1
     (pg_db [(''m'', \<lparr>row_mtype = Counter, row_value = None, row_delta = Some 4\<rparr>)] []))) ''m'' = None"
  using pg_name_holds_one_metric [of "pg_db [(''m'', \<lparr>row_mtype = Counter, row_value = None, row_delta = Some 4\<rparr>)] []"
      Background "''m''" 1 _ 2]
  by (simp add: pg_SetGauge_def pg_AddCounter_def pg_run_defs pg_inv_def env_ok_def table_ok_def fits_bigint_def)

text \<open>
  a sum that does not fit \<open>BIGINT\<close> is refused: \<open>AddCounter\<close> makes a single attempt, returns the
  server's error (SQLSTATE 22003 is not retryable) and leaves the table as it was.
\<close>

theorem pg_AddCounter_overflow:
  assumes "db_outcomes w = []" and "db_ctx w = []" and "map_of (db_table w) n = Some row"
    and "\<not> fits_bigint (sint (counter_or_zero (row_delta row)) + sint d)"
  shows "pg_AddCounter c n d w = (w, Some (PqError ''22003''))"
  using assms
  by (simp add: pg_AddCounter_def Retry_def Retry_from.simps [of _ _ _ _ _ _ w] pg_exec_def next_outcome_def pg_ctxErr_def
        sql_add_counter_def isRetryablePG_def isRetryablePGCode_def retryablePGCodes_def HasPrefix_def)

theorem pg_AddCounter_overflow_witness:
  "\<not> fits_bigint (sint (2 ^ 63 - 1 :: int64) + sint (1 :: int64)) \<and>
   snd (pg_AddCounter Background ''c'' 1
     (pg_db [(''c'', \<lparr>row_mtype = Counter, row_value = None, row_delta = Some (2 ^ 63 - 1)\<rparr>)] [])) = Some (PqError ''22003'')"
  using pg_AddCounter_overflow [of "pg_db [(''c'', \<lparr>row_mtype = Counter, row_value = None, row_delta = Some (2 ^ 63 - 1)\<rparr>)] []"
      "''c''" "\<lparr>row_mtype = Counter, row_value = None, row_delta = Some (2 ^ 63 - 1)\<rparr>" 1 Background]
  by (simp add: fits_bigint_def)

text \<open>
  \<open>Snapshot\<close> does not look at \<open>rows.Err()\<close> and skips a row it cannot scan: when the result set breaks
  off after \<open>k\<close> rows, or some rows do not convert, it reports success with the other rows only. With the
  whole result it is exact. \<open>GetCounter\<close> reports the same break to its caller.
\<close>

lemma pg_Snapshot_rows:
  assumes "pg_query (\<lambda>_. True) u = (u', Inr (rows, rowsErr))"
  shows "pg_Snapshot c u =
      (u', Inr \<lparr>Gauges = fst (pg_scan_rows rows [] []), Counters = snd (pg_scan_rows rows [] [])\<rparr>)"
  using assms by (simp add: pg_Snapshot_def Retry_def Retry_from.simps [of _ _ _ _ _ _ "(u, [], [])"] pg_snapshot_attempt_def)

theorem pg_Snapshot_truncated:
  assumes "pg_inv w" and "db_ctx w = []" and "\<not> isRetryablePG e" and "\<not> errors_Is e ErrNoRows"
  shows "let kept = (\<lambda>rows. Inr \<lparr>Gauges = fst (pg_scan_rows (scanned rows) [] []), Counters = snd (pg_scan_rows (scanned rows) [] [])\<rparr>) in
    snd (pg_Snapshot c (w\<lparr>db_outcomes := [RowsCut k e]\<rparr>)) = kept (take k (db_table w)) \<and>
    snd (pg_Snapshot c (w\<lparr>db_outcomes := [ScanFails ids e]\<rparr>)) = kept (filter (\<lambda>r. fst r \<notin> set ids) (db_table w)) \<and>
    (\<exists>s. snd (pg_Snapshot c (w\<lparr>db_outcomes := []\<rparr>)) = Inr s \<and>
       map_of (Gauges s) = pg_gauge_of w \<and> map_of (Counters s) = pg_counter_of w) \<and>
    snd (pg_GetCounter c n (w\<lparr>db_outcomes := [RowsCut 0 e]\<rparr>)) = Inl e"
proof -
  have "pg_inv (w\<lparr>db_outcomes := []\<rparr>)" using assms(1) by (simp add: pg_inv_def env_ok_def)
  moreover have whole: "pg_query (\<lambda>_. True) (w\<lparr>db_outcomes := []\<rparr>) = (w\<lparr>db_outcomes := []\<rparr>, Inr (scanned (db_table w), None))"
    by (simp add: pg_query_def next_outcome_def)
  ultimately have "\<exists>s. snd (pg_Snapshot c (w\<lparr>db_outcomes := []\<rparr>)) = Inr s \<and>
       map_of (Gauges s) = pg_gauge_of w \<and> map_of (Counters s) = pg_counter_of w"
    using pg_Snapshot_facts [OF _ pg_Snapshot_rows [OF whole, of c]] pg_Snapshot_rows [OF whole, of c]
    by (auto simp: pg_abs_defs)
  moreover have "snd (pg_GetCounter c n (w\<lparr>db_outcomes := [RowsCut 0 e]\<rparr>)) = Inl e"
    using assms(2-4) by (simp add: pg_GetCounter_def pg_scan_def pg_query_def pg_run_defs)
  moreover have "pg_scan_rows (map (\<lambda>r. (r, if fst r \<in> set ids then Some e else None)) rows) [] [] =
      pg_scan_rows (scanned (filter (\<lambda>r. fst r \<notin> set ids) rows)) [] []" for rows
    by (subst pg_scan_rows_skips) (auto simp: filter_map o_def intro!: arg_cong [where f = "\<lambda>l. pg_scan_rows l [] []"])
  moreover have "pg_query (\<lambda>_. True) (w\<lparr>db_outcomes := [RowsCut k e]\<rparr>) =
      (w\<lparr>db_outcomes := []\<rparr>, Inr (scanned (take k (db_table w)), if k \<le> length (db_table w) then Some e else None))"
    by (simp add: pg_query_def next_outcome_def Let_def)
  moreover have "pg_query (\<lambda>_. True) (w\<lparr>db_outcomes := [ScanFails ids e]\<rparr>) =
      (w\<lparr>db_outcomes := []\<rparr>, Inr (map (\<lambda>r. (r, if fst r \<in> set ids then Some e else None)) (db_table w), None))"
    by (simp add: pg_query_def next_outcome_def Let_def)
  ultimately show ?thesis by (simp add: pg_Snapshot_rows)
qed

theorem pg_Snapshot_truncated_witness:
  "let w = (\<lambda>outs. pg_db [(''c'', \<lparr>row_mtype = Counter, row_value = None, row_delta = Some 4\<rparr>)] outs) in
     snd (pg_Snapshot Background (w [RowsCut 0 (PqError ''XX000'')])) = Inr \<lparr>Gauges = [], Counters = []\<rparr> \<and>
     snd (pg_GetCounter Background ''c'' (w [RowsCut 0 (PqError ''XX000'')])) = Inl (PqError ''XX000'')"
  using pg_Snapshot_truncated [of "pg_db [(''c'', \<lparr>row_mtype = Counter, row_value = None, row_delta = Some 4\<rparr>)] []"
      "PqError ''XX000''" Background 0 "[''c'']" "''c''"]
  by (simp add: pg_inv_def env_ok_def table_ok_def isRetryablePG_def isRetryablePGCode_def retryablePGCodes_def HasPrefix_def)

end
