(* ===== verification/Metrics_Service.thy ===== *)
theory Metrics_Service
  imports Audit_Log Memory_Repo Postgres_Repo "HOL-Library.Sublist"
begin

text \<open>
  The metrics service (\<open>internal/services/metrics/metrics.go\<close>): reads and writes through the repository
  port, the snapshot hook, and the bounded audit queue with its dispatcher goroutine.

  \<open>Service\<close> holds the fields the constructor sets and nothing changes; \<open>svc_world\<close> holds what the
  operations change: the repository state, the channel \<open>auditQueue\<close> (\<open>None\<close> when nil), whether
  \<open>auditStop\<close> is set, and \<open>w_out\<close>, the rest of the world, on which the hook and the auditor act. The
  dispatcher is a step of its own (\<open>dispatch\<close>), interleaved with the offers of the request handlers by
  the relation \<open>audit_reach\<close>.

  The lemmas about reads and writes are proved once, in the contexts \<open>metrics_repo\<close> and
  \<open>separate_repo\<close>, and used for both repositories through their interpretations.
\<close>

section \<open>State\<close>

record ('r, 'w) Service =
  svc_repo :: "'r MetricsRepo"
  svc_onChanged :: "(go_context \<Rightarrow> Snapshot \<Rightarrow> 'w \<Rightarrow> 'w) option"
  svc_auditor :: "(go_context \<Rightarrow> Event \<Rightarrow> 'w \<Rightarrow> 'w) option"
  svc_now :: "('w \<Rightarrow> int64) option"

record ('r, 'w) svc_world =
  w_repo :: 'r
  w_queue :: "(go_context \<times> Event) list option"
  w_stop :: bool
  w_out :: 'w

definition auditQueueSize :: nat where
  "auditQueueSize = 128"

definition initAuditDispatcher :: "('r, 'w) Service \<Rightarrow> ('r, 'w) svc_world \<Rightarrow> ('r, 'w) svc_world" where
  "initAuditDispatcher s w =
     (if svc_auditor s = None then w else w\<lparr>w_queue := Some [], w_stop := True\<rparr>)"

definition svc_New ::
  "'r MetricsRepo \<Rightarrow> (go_context \<Rightarrow> Snapshot \<Rightarrow> 'w \<Rightarrow> 'w) option \<Rightarrow> (go_context \<Rightarrow> Event \<Rightarrow> 'w \<Rightarrow> 'w) option \<Rightarrow>
   ('w \<Rightarrow> int64) \<Rightarrow> 'r \<Rightarrow> 'w \<Rightarrow> ('r, 'w) Service \<times> ('r, 'w) svc_world" where
  "svc_New repo onChanged auditor time_Now r out =
     (let s = \<lparr>svc_repo = repo, svc_onChanged = onChanged, svc_auditor = auditor, svc_now = Some time_Now\<rparr>
      in (s, initAuditDispatcher s \<lparr>w_repo = r, w_queue = None, w_stop = False, w_out = out\<rparr>))"

section \<open>Auditing\<close>

fun dedup_loop :: "string \<Rightarrow> string list \<Rightarrow> string list" where
  "dedup_loop lst [] = []"
| "dedup_loop lst (name # names) =
     (if name = '''' \<or> name = lst then dedup_loop lst names else name # dedup_loop name names)"

definition dedupNames :: "string list \<Rightarrow> string list" where
  "dedupNames names = (if names = [] then [] else dedup_loop '''' (sort names))"

definition enqueueAudit ::
  "('r, 'w) Service \<Rightarrow> go_context \<Rightarrow> Event \<Rightarrow> ('r, 'w) svc_world \<Rightarrow> ('r, 'w) svc_world" where
  "enqueueAudit s c evt w =
     (case w_queue w of
        None \<Rightarrow> (case svc_auditor s of Some publish \<Rightarrow> w\<lparr>w_out := publish c evt (w_out w)\<rparr> | None \<Rightarrow> w)
      | Some q \<Rightarrow> if length q < auditQueueSize then w\<lparr>w_queue := Some (q @ [(c, evt)])\<rparr> else w)"

definition notifyAudit ::
  "('r, 'w) Service \<Rightarrow> go_context \<Rightarrow> string list \<Rightarrow> ('r, 'w) svc_world \<Rightarrow> ('r, 'w) svc_world" where
  "notifyAudit s c names w =
     (if svc_auditor s = None then w
      else let uniq = dedupNames names in
           if uniq = [] then w
           else let ts = (case svc_now s of Some now \<Rightarrow> now (w_out w) | None \<Rightarrow> 0)
                in enqueueAudit s c \<lparr>Timestamp = ts, EvMetrics = uniq, IPAddress = ClientIPFromContext (Some c)\<rparr> w)"

text \<open>One turn of the dispatcher's loop that receives a message.\<close>

definition dispatch :: "('r, 'w) Service \<Rightarrow> ('r, 'w) svc_world \<Rightarrow> ('r, 'w) svc_world option" where
  "dispatch s w =
     (if \<not> w_stop w then None
      else case w_queue w of
             Some ((c, evt) # q) \<Rightarrow>
               Some (w\<lparr>w_queue := Some q,
                       w_out := (case svc_auditor s of Some publish \<Rightarrow> publish c evt (w_out w) | None \<Rightarrow> w_out w)\<rparr>)
           | _ \<Rightarrow> None)"

definition svc_Close :: "('r, 'w) svc_world \<Rightarrow> ('r, 'w) svc_world" where
  "svc_Close w = (if \<not> w_stop w then w else w\<lparr>w_stop := False, w_queue := None\<rparr>)"

section \<open>Reads and writes\<close>

definition svc_Ping :: "('r, 'w) Service \<Rightarrow> go_context \<Rightarrow> ('r, 'w) svc_world \<Rightarrow> ('r, 'w) svc_world \<times> go_error option" where
  "svc_Ping s c w = (case repo_Ping (svc_repo s) c (w_repo w) of (r, e) \<Rightarrow> (w\<lparr>w_repo := r\<rparr>, e))"

definition svc_Get ::
  "('r, 'w) Service \<Rightarrow> go_context \<Rightarrow> string \<Rightarrow> string \<Rightarrow> ('r, 'w) svc_world \<Rightarrow> ('r, 'w) svc_world \<times> (go_error + Metrics)" where
  "svc_Get s c mType raw w =
     (let i = TrimSpace raw in
      if i = '''' then (w, Inl ErrNotFound)
      else if mType = Gauge then
        (case repo_GetGauge (svc_repo s) c i (w_repo w) of
           (r, Inl err) \<Rightarrow> (w\<lparr>w_repo := r\<rparr>, Inl err)
         | (r, Inr v) \<Rightarrow> (w\<lparr>w_repo := r\<rparr>, Inr \<lparr>Delta = None, Value = Some v, ID = i, MType = mType\<rparr>))
      else if mType = Counter then
        (case repo_GetCounter (svc_repo s) c i (w_repo w) of
           (r, Inl err) \<Rightarrow> (w\<lparr>w_repo := r\<rparr>, Inl err)
         | (r, Inr d) \<Rightarrow> (w\<lparr>w_repo := r\<rparr>, Inr \<lparr>Delta = Some d, Value = None, ID = i, MType = mType\<rparr>))
      else (w, Inl ErrInvalidType))"

text \<open>The common end of both branches of \<open>Upsert\<close>: read the stored value back, audit if that worked.\<close>

definition upsert_finish ::
  "('r, 'w) Service \<Rightarrow> go_context \<Rightarrow> Metrics \<Rightarrow> ('r, 'w) svc_world \<times> go_error option \<Rightarrow>
   ('r, 'w) svc_world \<times> (go_error + Metrics)" where
  "upsert_finish s c m res =
     (case res of
        (w1, Some err) \<Rightarrow> (w1, Inl err)
      | (w1, None) \<Rightarrow>
          (case svc_Get s c (MType m) (ID m) w1 of
             (w2, Inl err) \<Rightarrow> (w2, Inl err)
           | (w2, Inr x) \<Rightarrow> (notifyAudit s c [ID m] w2, Inr x)))"

definition svc_Upsert ::
  "('r, 'w) Service \<Rightarrow> go_context \<Rightarrow> Metrics \<Rightarrow> ('r, 'w) svc_world \<Rightarrow> ('r, 'w) svc_world \<times> (go_error + Metrics)" where
  "svc_Upsert s c m0 w =
     (let m = m0\<lparr>ID := TrimSpace (ID m0)\<rparr> in
      if ID m = '''' then (w, Inl ErrNotFound)
      else if MType m = Gauge then
        (case Value m of
           None \<Rightarrow> (w, Inl ErrInvalidType)
         | Some v \<Rightarrow>
             upsert_finish s c m
               (case repo_SetGauge (svc_repo s) c (ID m) v (w_repo w) of (r, e) \<Rightarrow> (w\<lparr>w_repo := r\<rparr>, e)))
      else if MType m = Counter then
        (case Delta m of
           None \<Rightarrow> (w, Inl ErrInvalidType)
         | Some d \<Rightarrow>
             upsert_finish s c m
               (case repo_AddCounter (svc_repo s) c (ID m) d (w_repo w) of (r, e) \<Rightarrow> (w\<lparr>w_repo := r\<rparr>, e)))
      else (w, Inl ErrInvalidType))"

fun batch_loop :: "Metrics list \<Rightarrow> Metrics list \<Rightarrow> string list \<Rightarrow> Metrics list \<times> string list" where
  "batch_loop [] valid names = (valid, names)"
| "batch_loop (it0 # items) valid names =
     (let i = TrimSpace (ID it0) in
      if i = '''' then batch_loop items valid names
      else let it = it0\<lparr>ID := i\<rparr> in
           if MType it = Gauge then
             (if Value it = None then batch_loop items valid names
              else batch_loop items (valid @ [it]) (names @ [ID it]))
           else if MType it = Counter then
             (if Delta it = None then batch_loop items valid names
              else batch_loop items (valid @ [it]) (names @ [ID it]))
           else batch_loop items valid names)"

definition svc_UpsertBatch ::
  "('r, 'w) Service \<Rightarrow> go_context \<Rightarrow> Metrics list \<Rightarrow> ('r, 'w) svc_world \<Rightarrow> ('r, 'w) svc_world \<times> (go_error + nat)" where
  "svc_UpsertBatch s c items w =
     (let (valid, names) = batch_loop items [] [] in
      if valid = [] then (w, Inl ErrInvalidType)
      else case repo_UpdateMany (svc_repo s) c valid (w_repo w) of
             (r, Some err) \<Rightarrow> (w\<lparr>w_repo := r\<rparr>, Inl err)
           | (r, None) \<Rightarrow>
               (let w1 = notifyAudit s c names (w\<lparr>w_repo := r\<rparr>);
                    w2 = (case svc_onChanged s of
                            None \<Rightarrow> w1
                          | Some hook \<Rightarrow>
                              (case repo_Snapshot (svc_repo s) c (w_repo w1) of
                                 (r', Inr snap) \<Rightarrow> w1\<lparr>w_repo := r', w_out := hook c snap (w_out w1)\<rparr>
                               | (r', Inl e) \<Rightarrow> w1\<lparr>w_repo := r'\<rparr>))
                in (w2, Inr (length valid))))"

definition svc_Snapshot :: "('r, 'w) Service \<Rightarrow> go_context \<Rightarrow> ('r, 'w) svc_world \<Rightarrow> ('r, 'w) svc_world \<times> (go_error + Snapshot)" where
  "svc_Snapshot s c w = (case repo_Snapshot (svc_repo s) c (w_repo w) of (r, x) \<Rightarrow> (w\<lparr>w_repo := r\<rparr>, x))"

section \<open>What a batch keeps\<close>

text \<open>An item that survives the filter of \<open>UpsertBatch\<close>, with its identifier trimmed.\<close>

definition valid_item :: "Metrics \<Rightarrow> Metrics option" where
  "valid_item m =
     (if TrimSpace (ID m) = '''' then None
      else if MType m = Gauge \<and> Value m \<noteq> None \<or> MType m = Counter \<and> Delta m \<noteq> None
      then Some (m\<lparr>ID := TrimSpace (ID m)\<rparr>) else None)"

definition valid_items :: "Metrics list \<Rightarrow> Metrics list" where
  "valid_items ms = List.map_filter valid_item ms"

section \<open>The queue as a step relation\<close>

text \<open>
  The service together with what was offered to the queue and what the dispatcher took from it. An
  offer is an \<open>enqueueAudit\<close> by some handler; a delivery is a turn of the dispatcher.
\<close>

record ('r, 'w) audit_sys =
  as_world :: "('r, 'w) svc_world"
  as_offered :: "(go_context \<times> Event) list"
  as_delivered :: "(go_context \<times> Event) list"

inductive audit_reach :: "('r, 'w) Service \<Rightarrow> 'w \<Rightarrow> ('r, 'w) audit_sys \<Rightarrow> bool"
  for s :: "('r, 'w) Service" and out0 :: 'w where
  start: "w_queue w = Some [] \<Longrightarrow> w_stop w \<Longrightarrow> w_out w = out0 \<Longrightarrow>
     audit_reach s out0 \<lparr>as_world = w, as_offered = [], as_delivered = []\<rparr>"
| offer: "audit_reach s out0 a \<Longrightarrow>
     audit_reach s out0 (a\<lparr>as_world := enqueueAudit s c evt (as_world a), as_offered := as_offered a @ [(c, evt)]\<rparr>)"
| deliver: "audit_reach s out0 a \<Longrightarrow> w_queue (as_world a) = Some ((c, evt) # q) \<Longrightarrow>
     dispatch s (as_world a) = Some w \<Longrightarrow>
     audit_reach s out0 (a\<lparr>as_world := w, as_delivered := as_delivered a @ [(c, evt)]\<rparr>)"

section \<open>Facts about de-duplication\<close>

lemma dedup_loop_set:
  "sorted names \<Longrightarrow> (\<forall>x \<in> set names. lst \<le> x) \<Longrightarrow> set (dedup_loop lst names) = set names - {'''', lst}"
proof (induction lst names rule: dedup_loop.induct)
  case (1 lst)
  show ?case by simp
next
  case (2 lst name names)
  show ?case
  proof (cases "name = '''' \<or> name = lst")
    case True
    with 2 show ?thesis by auto
  next
    case False
    with 2 have IH: "set (dedup_loop name names) = set names - {'''', name}" by simp
    have "lst \<notin> set names"
      using False "2.prems" by (metis le_neq_trans less_le_not_le list.set_intros(1) sorted_simps(2))
    with False IH show ?thesis by auto
  qed
qed

lemma dedup_loop_strict:
  "sorted names \<Longrightarrow> (\<forall>x \<in> set names. lst \<le> x) \<Longrightarrow> sorted_wrt (<) (dedup_loop lst names)"
proof (induction lst names rule: dedup_loop.induct)
  case (1 lst)
  show ?case by simp
next
  case (2 lst name names)
  show ?case
  proof (cases "name = '''' \<or> name = lst")
    case True
    with 2 show ?thesis by auto
  next
    case False
    with 2 have IH: "sorted_wrt (<) (dedup_loop name names)" by simp
    moreover have "set (dedup_loop name names) = set names - {'''', name}"
      using "2.prems" by (intro dedup_loop_set) auto
    then have "\<forall>x \<in> set (dedup_loop name names). name < x"
      using "2.prems" by (auto simp: less_le)
    ultimately show ?thesis using False by simp
  qed
qed

lemma Nil_le [simp]: "([] :: string) \<le> x"
  by (cases x) auto

lemma dedupNames_set: "set (dedupNames names) = set names - {''''}"
  using dedup_loop_set [of "sort names" "''''"] by (auto simp: dedupNames_def)

lemma dedupNames_strict: "sorted_wrt (<) (dedupNames names)"
  using dedup_loop_strict [of "sort names" "''''"] by (auto simp: dedupNames_def)

lemma dedupNames_single [simp]: "dedupNames [n] = (if n = '''' then [] else [n])"
  by (simp add: dedupNames_def)

section \<open>Facts about the batch filter\<close>

lemma batch_loop_valid: "batch_loop items vs ns = (vs @ valid_items items, ns @ map ID (valid_items items))"
proof (induction items vs ns rule: batch_loop.induct)
  case (1 vs ns)
  show ?case by (simp add: valid_items_def map_filter_def)
next
  case (2 it items vs ns)
  then show ?case
    by (auto simp: Let_def valid_items_def map_filter_def valid_item_def)
qed

lemma valid_items_Nil [simp]: "valid_items [] = []"
  by (simp add: valid_items_def map_filter_def)

lemma valid_items_Cons [simp]:
  "valid_items (m # ms) = (case valid_item m of None \<Rightarrow> valid_items ms | Some m' \<Rightarrow> m' # valid_items ms)"
  by (simp add: valid_items_def map_filter_def split: option.split)

lemma valid_items_ID: "m \<in> set (valid_items ms) \<Longrightarrow> ID m \<noteq> '''' \<and> TrimSpace (ID m) = ID m"
  by (induction ms) (auto simp: valid_item_def split: option.splits if_splits)

lemma valid_items_all: "\<forall>m \<in> set ms. valid_item m = Some m \<Longrightarrow> valid_items ms = ms"
  by (induction ms) auto

section \<open>Facts about the queue\<close>

lemma enqueueAudit_repo [simp]:
  "w_repo (enqueueAudit s c evt w) = w_repo w" "w_stop (enqueueAudit s c evt w) = w_stop w"
  by (simp_all add: enqueueAudit_def split: option.split)

lemma notifyAudit_repo [simp]:
  "w_repo (notifyAudit s c ns w) = w_repo w" "w_stop (notifyAudit s c ns w) = w_stop w"
  by (simp_all add: notifyAudit_def Let_def)

lemma notifyAudit_off: "svc_auditor s = None \<Longrightarrow> notifyAudit s c ns w = w"
  by (simp add: notifyAudit_def)

definition audit_publish :: "('r, 'w) Service \<Rightarrow> go_context \<times> Event \<Rightarrow> 'w \<Rightarrow> 'w" where
  "audit_publish s m out =
     (case svc_auditor s of Some publish \<Rightarrow> publish (fst m) (snd m) out | None \<Rightarrow> out)"

lemma dispatch_Some:
  assumes "dispatch s w = Some w'" and "w_queue w = Some ((c, evt) # q)"
  shows "w_queue w' = Some q" and "w_stop w'" and
    "w_out w' = audit_publish s (c, evt) (w_out w)"
  using assms by (auto simp: dispatch_def audit_publish_def split: if_splits option.splits)

text \<open>
  The invariant of the queue: it is open and within its capacity, what was delivered followed by what
  is queued is a subsequence of what was offered, and the world is what delivering did to it.
\<close>

definition audit_inv :: "('r, 'w) Service \<Rightarrow> 'w \<Rightarrow> ('r, 'w) audit_sys \<Rightarrow> bool" where
  "audit_inv s out0 a \<longleftrightarrow>
     (\<exists>q. w_queue (as_world a) = Some q \<and> length q \<le> auditQueueSize \<and>
          subseq (as_delivered a @ q) (as_offered a) \<and>
          (length (as_offered a) \<le> auditQueueSize \<longrightarrow> as_delivered a @ q = as_offered a)) \<and>
     w_stop (as_world a) \<and>
     w_out (as_world a) = fold (audit_publish s) (as_delivered a) out0"

lemma audit_reach_inv: "audit_reach s out0 a \<Longrightarrow> audit_inv s out0 a"
proof (induction rule: audit_reach.induct)
  case (start w)
  then show ?case by (simp add: audit_inv_def)
next
  case (offer a c evt)
  then obtain q where q: "w_queue (as_world a) = Some q" "length q \<le> auditQueueSize"
      "subseq (as_delivered a @ q) (as_offered a)"
      "length (as_offered a) \<le> auditQueueSize \<longrightarrow> as_delivered a @ q = as_offered a"
    by (auto simp: audit_inv_def)
  have full: "length q < auditQueueSize" if "Suc (length (as_offered a)) \<le> auditQueueSize"
    using q(4) that by (metis Suc_leD Suc_le_lessD add_leD2 le_trans length_append not_less_eq_eq)
  show ?case
  proof (cases "length q < auditQueueSize")
    case True
    have "subseq ((as_delivered a @ q) @ [(c, evt)]) (as_offered a @ [(c, evt)])"
      using q(3) by (rule list_emb_append_mono) simp
    with True q offer.IH show ?thesis
      by (auto simp: audit_inv_def enqueueAudit_def)
  next
    case False
    have "subseq (as_delivered a @ q) (as_offered a @ [(c, evt)])"
      using q(3) by (metis append_Nil2 list_emb_append_mono list_emb_Nil)
    with False q full offer.IH show ?thesis
      by (auto simp: audit_inv_def enqueueAudit_def)
  qed
next
  case (deliver a c evt q w)
  then show ?case
    using dispatch_Some [OF deliver.hyps(3,2)] by (auto simp: audit_inv_def)
qed

section \<open>Clients of a repository\<close>

context repo_keeps
begin

text \<open>What every method of the repository keeps, every operation of the service keeps.\<close>

lemma Get_keeps: "svc_repo s = R \<Longrightarrow> I (w_repo w) \<Longrightarrow> I (w_repo (fst (svc_Get s c t raw w)))"
  using keeps_get_gauge [of "w_repo w" c "TrimSpace raw"] keeps_get_counter [of "w_repo w" c "TrimSpace raw"]
  by (auto simp: svc_Get_def Let_def split: prod.split sum.split)

lemma upsert_finish_keeps:
  assumes "svc_repo s = R" and "I (w_repo w1)"
  shows "I (w_repo (fst (upsert_finish s c m (w1, e))))"
  using Get_keeps [OF assms, of c "MType m" "ID m"]
  by (cases e) (auto simp: upsert_finish_def notifyAudit_repo assms(2) split: prod.split sum.split)

lemma Upsert_keeps: "svc_repo s = R \<Longrightarrow> I (w_repo w) \<Longrightarrow> I (w_repo (fst (svc_Upsert s c m w)))"
  by (simp add: svc_Upsert_def Let_def split_beta upsert_finish_keeps keeps_set_gauge keeps_add_counter split: option.split)

lemma UpsertBatch_keeps:
  assumes "svc_repo s = R" and "I (w_repo w)"
  shows "I (w_repo (fst (svc_UpsertBatch s c items w)))"
proof -
  obtain valid names where b: "batch_loop items [] [] = (valid, names)" by fastforce
  obtain r e where u: "repo_UpdateMany R c valid (w_repo w) = (r, e)" by fastforce
  then have r: "I r" using keeps_update_many [OF assms(2), of c valid] by simp
  show ?thesis
    using assms keeps_snapshot [OF r, of c] b u r
    by (auto simp: svc_UpsertBatch_def notifyAudit_repo Let_def split: option.split prod.split sum.split)
qed

end

context metrics_repo
begin

lemma Get_facts:
  assumes "svc_repo s = R" and "inv (w_repo w)" and "svc_Get s c t raw w = (w', x)"
  shows "inv (w_repo w')" and "gauge_of (w_repo w') = gauge_of (w_repo w)"
    and "counter_of (w_repo w') = counter_of (w_repo w)"
    and "w_out w' = w_out w" and "w_queue w' = w_queue w"
    and "x = Inr m \<Longrightarrow> ID m = TrimSpace raw \<and> MType m = t \<and> (t = Gauge \<or> t = Counter) \<and>
           (t = Gauge \<longrightarrow> Value m = gauge_of (w_repo w) (ID m) \<and> Delta m = None) \<and>
           (t = Counter \<longrightarrow> Delta m = counter_of (w_repo w) (ID m) \<and> Value m = None)"
  using assms
  by (auto simp: svc_Get_def Let_def split: if_splits prod.splits sum.splits
        dest: get_gauge_frame get_counter_frame get_gauge_ok get_counter_ok)

lemma upsert_finish_facts:
  assumes "svc_repo s = R" and "inv (w_repo w1)" and "upsert_finish s c m (w1, None) = (w', Inr x)"
    and "TrimSpace (ID m) = ID m"
  shows "inv (w_repo w') \<and> gauge_of (w_repo w') = gauge_of (w_repo w1) \<and>
         counter_of (w_repo w') = counter_of (w_repo w1) \<and> ID x = ID m \<and> MType x = MType m \<and>
         (MType m = Gauge \<longrightarrow> Value x = gauge_of (w_repo w1) (ID m) \<and> Delta x = None) \<and>
         (MType m = Counter \<longrightarrow> Delta x = counter_of (w_repo w1) (ID m) \<and> Value x = None)"
proof -
  obtain w2 y where g: "svc_Get s c (MType m) (ID m) w1 = (w2, y)" by fastforce
  with assms(3) have y: "y = Inr x" and w': "w' = notifyAudit s c [ID m] w2"
    by (auto simp: upsert_finish_def split: sum.splits)
  from Get_facts(1-3) [OF assms(1,2) g] Get_facts(6) [OF assms(1,2) g, of x] y w' assms(4)
  show ?thesis by auto
qed

text \<open>A successful upsert of a gauge stores the value under the trimmed name and answers with it.\<close>

lemma Upsert_gauge:
  assumes "svc_repo s = R" and "inv (w_repo w)" and "MType m = Gauge"
    and run: "svc_Upsert s c m w = (w', Inr x)"
  shows "\<exists>v. Value m = Some v \<and> inv (w_repo w') \<and>
         x = \<lparr>Delta = None, Value = Some v, ID = TrimSpace (ID m), MType = Gauge\<rparr> \<and>
         gauge_of (w_repo w') = (gauge_of (w_repo w))(TrimSpace (ID m) \<mapsto> v) \<and>
         (\<forall>k. k \<noteq> TrimSpace (ID m) \<longrightarrow> counter_of (w_repo w') k = counter_of (w_repo w) k)"
proof -
  let ?i = "TrimSpace (ID m)" and ?m = "m\<lparr>ID := TrimSpace (ID m)\<rparr>"
  from run assms(3) obtain v where v: "Value m = Some v"
    by (auto simp: svc_Upsert_def Let_def split: if_splits option.splits)
  obtain r e where sg: "repo_SetGauge R c ?i v (w_repo w) = (r, e)" by fastforce
  from run assms(1,3) v sg have fin: "upsert_finish s c ?m (w\<lparr>w_repo := r\<rparr>, e) = (w', Inr x)"
    by (auto simp: svc_Upsert_def Let_def split: if_splits)
  then have e: "e = None" by (auto simp: upsert_finish_def split: option.splits)
  note i1 = set_gauge_inv [OF assms(2) sg]
  from upsert_finish_facts [of s "w\<lparr>w_repo := r\<rparr>" c ?m w' x] i1 fin e assms(1,3)
  have f: "inv (w_repo w')" "gauge_of (w_repo w') = gauge_of r" "counter_of (w_repo w') = counter_of r"
    "ID x = ?i" "MType x = Gauge" "Value x = gauge_of r ?i" "Delta x = None"
    by auto
  from set_gauge_ok [OF assms(2)] set_gauge_frame [OF assms(2)] sg e
  have "gauge_of r = (gauge_of (w_repo w))(?i \<mapsto> v)" "\<And>k. k \<noteq> ?i \<Longrightarrow> counter_of r k = counter_of (w_repo w) k"
    by auto
  with f v show ?thesis by (cases x) auto
qed

text \<open>A successful upsert of a counter adds its delta and answers with the new total.\<close>

lemma Upsert_counter:
  assumes "svc_repo s = R" and "inv (w_repo w)" and "MType m = Counter"
    and run: "svc_Upsert s c m w = (w', Inr x)"
  shows "\<exists>d. Delta m = Some d \<and> inv (w_repo w') \<and>
         x = \<lparr>Delta = Some (counter_or_zero (counter_of (w_repo w) (TrimSpace (ID m))) + d), Value = None,
              ID = TrimSpace (ID m), MType = Counter\<rparr> \<and>
         counter_of (w_repo w') = (counter_of (w_repo w))(TrimSpace (ID m) \<mapsto>
            counter_or_zero (counter_of (w_repo w) (TrimSpace (ID m))) + d) \<and>
         (\<forall>k. k \<noteq> TrimSpace (ID m) \<longrightarrow> gauge_of (w_repo w') k = gauge_of (w_repo w) k)"
proof -
  let ?i = "TrimSpace (ID m)" and ?m = "m\<lparr>ID := TrimSpace (ID m)\<rparr>"
  from run assms(3) obtain d where d: "Delta m = Some d"
    by (auto simp: svc_Upsert_def Let_def split: if_splits option.splits)
  obtain r e where ac: "repo_AddCounter R c ?i d (w_repo w) = (r, e)" by fastforce
  from run assms(1,3) d ac have fin: "upsert_finish s c ?m (w\<lparr>w_repo := r\<rparr>, e) = (w', Inr x)"
    by (auto simp: svc_Upsert_def Let_def split: if_splits)
  then have e: "e = None" by (auto simp: upsert_finish_def split: option.splits)
  note i1 = add_counter_inv [OF assms(2) ac]
  from upsert_finish_facts [of s "w\<lparr>w_repo := r\<rparr>" c ?m w' x] i1 fin e assms(1,3)
  have f: "inv (w_repo w')" "gauge_of (w_repo w') = gauge_of r" "counter_of (w_repo w') = counter_of r"
    "ID x = ?i" "MType x = Counter" "Delta x = counter_of r ?i" "Value x = None"
    by auto
  from add_counter_ok [OF assms(2)] add_counter_frame [OF assms(2)] ac e
  have "counter_of r = (counter_of (w_repo w))(?i \<mapsto> counter_or_zero (counter_of (w_repo w) ?i) + d)"
    "\<And>k. k \<noteq> ?i \<Longrightarrow> gauge_of r k = gauge_of (w_repo w) k"
    by auto
  with f d show ?thesis by (cases x) auto
qed

text \<open>A batch that fails leaves every stored metric as it was.\<close>

lemma UpsertBatch_error:
  assumes "svc_repo s = R" and "inv (w_repo w)" and "svc_UpsertBatch s c items w = (w', Inl e)"
  shows "inv (w_repo w') \<and> gauge_of (w_repo w') = gauge_of (w_repo w) \<and>
         counter_of (w_repo w') = counter_of (w_repo w) \<and> w_out w' = w_out w \<and> w_queue w' = w_queue w"
  using assms
  by (auto simp: svc_UpsertBatch_def batch_loop_valid Let_def split: if_splits prod.splits option.splits
        dest: update_many_err update_many_inv)

end

context separate_repo
begin

lemma update_many_run:
  "inv r \<Longrightarrow> \<exists>r'. repo_UpdateMany R c ms r = (r', None) \<and> inv r' \<and>
     gauge_of r' = spec_gauges ms (gauge_of r) \<and> counter_of r' = spec_counters ms (counter_of r)"
  using update_many_total [of r c ms] update_many_gauges [of r c ms] update_many_counters [of r c ms]
    update_many_inv [of r c ms]
  by (cases "repo_UpdateMany R c ms r") auto

lemma snapshot_run:
  "inv r \<Longrightarrow> \<exists>r' s. repo_Snapshot R c r = (r', Inr s) \<and> inv r' \<and> gauge_of r' = gauge_of r \<and>
     counter_of r' = counter_of r \<and> map_of (Gauges s) = gauge_of r \<and> map_of (Counters s) = counter_of r \<and>
     gm_wf (Gauges s) \<and> gm_wf (Counters s)"
  using snapshot_total [of r c] snapshot_frame [of r c] snapshot_ok [of r c]
  by (cases "repo_Snapshot R c r") auto

text \<open>A batch with at least one valid item is applied and counted; the hook sees the new snapshot.\<close>

lemma UpsertBatch_applies:
  assumes s: "svc_repo s = R" and i: "inv (w_repo w)" and v: "valid_items items \<noteq> []"
  shows "\<exists>w'. svc_UpsertBatch s c items w = (w', Inr (length (valid_items items))) \<and> inv (w_repo w') \<and>
           gauge_of (w_repo w') = spec_gauges (valid_items items) (gauge_of (w_repo w)) \<and>
           counter_of (w_repo w') = spec_counters (valid_items items) (counter_of (w_repo w)) \<and>
           (\<forall>hook. svc_onChanged s = Some hook \<longrightarrow>
             (\<exists>snap. map_of (Gauges snap) = gauge_of (w_repo w') \<and> map_of (Counters snap) = counter_of (w_repo w') \<and>
                gm_wf (Gauges snap) \<and> gm_wf (Counters snap) \<and>
                w_out w' = hook c snap (w_out (notifyAudit s c (map ID (valid_items items)) w))))"
proof -
  obtain r where r: "repo_UpdateMany R c (valid_items items) (w_repo w) = (r, None)" "inv r"
      "gauge_of r = spec_gauges (valid_items items) (gauge_of (w_repo w))"
      "counter_of r = spec_counters (valid_items items) (counter_of (w_repo w))"
    using update_many_run [OF i] by blast
  obtain r2 snap where sn: "repo_Snapshot R c r = (r2, Inr snap)" "inv r2" "gauge_of r2 = gauge_of r"
      "counter_of r2 = counter_of r" "map_of (Gauges snap) = gauge_of r" "map_of (Counters snap) = counter_of r"
      "gm_wf (Gauges snap)" "gm_wf (Counters snap)"
    using snapshot_run [OF r(2)] by blast
  have out: "w_out (notifyAudit s c ns (w\<lparr>w_repo := r\<rparr>)) = w_out (notifyAudit s c ns w)" for ns
    by (simp add: notifyAudit_def enqueueAudit_def Let_def split: option.split)
  show ?thesis
  proof (cases "svc_onChanged s")
    case None
    with s v r show ?thesis by (simp add: svc_UpsertBatch_def batch_loop_valid)
  next
    case (Some hook)
    with s v r sn out show ?thesis by (auto simp: svc_UpsertBatch_def batch_loop_valid)
  qed
qed

end

section \<open>Properties\<close>

text \<open>
  on the in-memory repository \<open>Upsert\<close> of a well-formed counter always succeeds: it adds the delta
  (wrapping) to the counter of the trimmed name, answers with the new total, and changes neither another
  counter nor any gauge.
\<close>

theorem Upsert_counter_memory:
  assumes "svc_repo s = memory_repo" and "mem_inv (w_repo w)" and "TrimSpace (ID m) \<noteq> ''''"
    and "MType m = Counter" and "Delta m = Some d"
  shows "\<exists>w'. svc_Upsert s c m w =
      (w', Inr \<lparr>Delta = Some (counter_or_zero (mem_counter_of (w_repo w) (TrimSpace (ID m))) + d), Value = None,
                ID = TrimSpace (ID m), MType = Counter\<rparr>) \<and>
    mem_inv (w_repo w') \<and> mem_gauge_of (w_repo w') = mem_gauge_of (w_repo w) \<and>
    mem_counter_of (w_repo w') = (mem_counter_of (w_repo w))(TrimSpace (ID m) \<mapsto>
      counter_or_zero (mem_counter_of (w_repo w) (TrimSpace (ID m))) + d)"
proof -
  obtain w' x where run: "svc_Upsert s c m w = (w', x)" by fastforce
  from run assms obtain y where y: "x = Inr y" and g: "gauges (w_repo w') = gauges (w_repo w)"
    by (auto simp: svc_Upsert_def upsert_finish_def svc_Get_def mem_op_defs Let_def)
  from mem.Upsert_counter [OF assms(1,2,4) run [unfolded y]] assms(5) g y run show ?thesis
    by (auto simp: mem_gauge_of_def)
qed

abbreviation svc_of :: "'r MetricsRepo \<Rightarrow> ('r, 'w) Service" where
  "svc_of repo \<equiv> \<lparr>svc_repo = repo, svc_onChanged = None, svc_auditor = None, svc_now = None\<rparr>"

abbreviation world_of :: "'r \<Rightarrow> ('r, unit) svc_world" where
  "world_of r \<equiv> \<lparr>w_repo = r, w_queue = None, w_stop = False, w_out = ()\<rparr>"

lemma TrimSpace_lit [simp]: "TrimSpace ''c'' = ''c''" "TrimSpace ''m'' = ''m''"
  by (simp_all add: TrimSpace_def space_seqs_def trim_seqs.simps)

theorem Upsert_counter_memory_witness:
  "\<exists>w'. svc_Upsert (svc_of memory_repo) Background (counter_metric ''c'' 7) (world_of mem_New) =
      (w', Inr (counter_metric ''c'' 7)) \<and> mem_counter_of (w_repo w') ''c'' = Some 7"
  using Upsert_counter_memory [of "svc_of memory_repo" "world_of mem_New" "counter_metric ''c'' 7" 7 Background]
  by (auto simp: counter_metric_def)

text \<open>
  on Postgres a successful \<open>Upsert\<close> of a gauge stores its value under the trimmed name and answers
  with it, and a successful \<open>Upsert\<close> of a counter adds its delta once and answers with the new total,
  through any number of failed attempts that took no effect; other names keep their metrics.
\<close>

theorem Upsert_postgres:
  assumes "svc_repo s = postgres_repo" and "pg_inv (w_repo w)" and "svc_Upsert s c m w = (w', Inr x)"
  shows "pg_inv (w_repo w') \<and> ID x = TrimSpace (ID m) \<and>
    (MType m = Gauge \<longrightarrow> Value x = Value m \<and> Value m \<noteq> None \<and>
       pg_gauge_of (w_repo w') = (pg_gauge_of (w_repo w))(ID x := Value m) \<and>
       (\<forall>k. k \<noteq> ID x \<longrightarrow> pg_counter_of (w_repo w') k = pg_counter_of (w_repo w) k)) \<and>
    (MType m = Counter \<longrightarrow> Delta x = Some (counter_or_zero (pg_counter_of (w_repo w) (ID x)) + the (Delta m)) \<and>
       pg_counter_of (w_repo w') = (pg_counter_of (w_repo w))(ID x := Delta x) \<and>
       (\<forall>k. k \<noteq> ID x \<longrightarrow> pg_gauge_of (w_repo w') k = pg_gauge_of (w_repo w) k)) \<and>
    (MType m = Gauge \<or> MType m = Counter)"
proof -
  consider (g) "MType m = Gauge" | (c) "MType m = Counter" | (o) "MType m \<noteq> Gauge" "MType m \<noteq> Counter" by blast
  then show ?thesis
  proof cases
    case g
    from pg.Upsert_gauge [OF assms(1,2) g assms(3)] g show ?thesis by auto
  next
    case c
    from pg.Upsert_counter [OF assms(1,2) c assms(3)] c show ?thesis by auto
  next
    case o
    with assms(3) show ?thesis by (auto simp: svc_Upsert_def Let_def split: if_splits)
  qed
qed

theorem Upsert_postgres_witness:
  "\<exists>w' x. svc_Upsert (svc_of postgres_repo) Background (counter_metric ''c'' 2) (world_of (pg_db [] [FailBefore ErrBadConn])) =
      (w', Inr x) \<and> Delta x = Some 2"
proof -
  obtain w' x where run: "svc_Upsert (svc_of postgres_repo) Background (counter_metric ''c'' 2)
      (world_of (pg_db [] [FailBefore ErrBadConn])) = (w', Inr x)"
    by (simp add: svc_Upsert_def upsert_finish_def svc_Get_def pg_AddCounter_def pg_GetCounter_def pg_run_defs
          pg_scan_def pg_query_def notifyAudit_def Let_def)
  from Upsert_postgres [OF _ _ run] have "Delta x = Some 2"
    by (simp add: pg_inv_def env_ok_def pg_counter_of_def table_counter_def)
  with run show ?thesis by blast
qed

text \<open>
  \<open>Upsert\<close> refuses, for any repository, a blank name (\<open>ErrNotFound\<close>), an unknown type, a gauge without
  a value and a counter without a delta (\<open>ErrInvalidType\<close>), and then nothing at all has changed: no write,
  no audit event, no hook. Every other metric is written once, under its trimmed name, and read back.
\<close>

theorem Upsert_rejects:
  "svc_Upsert s c m w =
     (if TrimSpace (ID m) = '''' then (w, Inl ErrNotFound)
      else if valid_item m = None then (w, Inl ErrInvalidType)
      else upsert_finish s c (m\<lparr>ID := TrimSpace (ID m)\<rparr>)
        (case (if MType m = Gauge then repo_SetGauge (svc_repo s) c (TrimSpace (ID m)) (the (Value m)) (w_repo w)
               else repo_AddCounter (svc_repo s) c (TrimSpace (ID m)) (the (Delta m)) (w_repo w))
         of (r, e) \<Rightarrow> (w\<lparr>w_repo := r\<rparr>, e)))"
  by (auto simp: svc_Upsert_def valid_item_def Let_def split: option.splits)

text \<open>
  C5: on the in-memory repository a batch with a valid item is applied as a whole: exactly the valid items,
  in order, with trimmed names; the answer is their number, and the snapshot hook runs once, last, on the
  state the batch produced. A batch with no valid item is refused with \<open>ErrInvalidType\<close> and changes nothing.
\<close>

theorem UpsertBatch_memory:
  assumes "svc_repo s = memory_repo" and "mem_inv (w_repo w)"
  shows "\<exists>w'. svc_UpsertBatch s c items w =
      (w', if valid_items items = [] then Inl ErrInvalidType else Inr (length (valid_items items))) \<and>
    mem_inv (w_repo w') \<and>
    mem_gauge_of (w_repo w') = spec_gauges (valid_items items) (mem_gauge_of (w_repo w)) \<and>
    mem_counter_of (w_repo w') = spec_counters (valid_items items) (mem_counter_of (w_repo w)) \<and>
    (if valid_items items = [] then w' = w
     else \<forall>hook. svc_onChanged s = Some hook \<longrightarrow>
       (\<exists>snap. map_of (Gauges snap) = mem_gauge_of (w_repo w') \<and> map_of (Counters snap) = mem_counter_of (w_repo w') \<and>
          gm_wf (Gauges snap) \<and> gm_wf (Counters snap) \<and>
          w_out w' = hook c snap (w_out (notifyAudit s c (map ID (valid_items items)) w))))"
proof (cases "valid_items items = []")
  case True
  with assms show ?thesis by (simp add: svc_UpsertBatch_def batch_loop_valid)
next
  case False
  with mem.UpsertBatch_applies [OF assms False, of c] show ?thesis by simp
qed

theorem UpsertBatch_memory_witness:
  "\<exists>w'. svc_UpsertBatch (svc_of memory_repo) Background [counter_metric ''c'' 1, counter_metric '''' 5, counter_metric ''c'' 2]
      (world_of mem_New) = (w', Inr 2) \<and> mem_counter_of (w_repo w') ''c'' = Some 3"
proof -
  have v: "valid_items [counter_metric ''c'' 1, counter_metric '''' 5, counter_metric ''c'' 2] =
      [counter_metric ''c'' 1, counter_metric ''c'' 2]"
    by (simp add: valid_item_def counter_metric_def Counter_def)
  from UpsertBatch_memory [of "svc_of memory_repo" "world_of mem_New" Background
      "[counter_metric ''c'' 1, counter_metric '''' 5, counter_metric ''c'' 2]", unfolded v]
  show ?thesis by (auto simp: spec_counters_sum)
qed

text \<open>
  on Postgres a batch that returns an error has had no effect: the table, the audit queue and the
  outside world are what they were, and the hook has not run.
\<close>

theorem UpsertBatch_postgres_error:
  assumes "svc_repo s = postgres_repo" and "pg_inv (w_repo w)" and "svc_UpsertBatch s c items w = (w', Inl e)"
  shows "pg_inv (w_repo w') \<and> pg_gauge_of (w_repo w') = pg_gauge_of (w_repo w) \<and>
    pg_counter_of (w_repo w') = pg_counter_of (w_repo w) \<and> w_out w' = w_out w \<and> w_queue w' = w_queue w"
  by (rule pg.UpsertBatch_error [OF assms])

theorem UpsertBatch_postgres_error_witness:
  "\<exists>w' e. svc_UpsertBatch (svc_of postgres_repo) Background [counter_metric ''c'' 2]
      (world_of (pg_db [] [Delivered, FailBefore ErrNoRows])) = (w', Inl e) \<and> pg_counter_of (w_repo w') ''c'' = None"
proof -
  obtain w' e where run: "svc_UpsertBatch (svc_of postgres_repo) Background [counter_metric ''c'' 2]
      (world_of (pg_db [] [Delivered, FailBefore ErrNoRows])) = (w', Inl e)"
    by (simp add: svc_UpsertBatch_def batch_loop_valid valid_item_def pg_UpdateMany_def pg_run_defs)
  from UpsertBatch_postgres_error [OF _ _ run] have "pg_counter_of (w_repo w') ''c'' = None"
    by (simp add: pg_inv_def env_ok_def pg_counter_of_def table_counter_def)
  with run show ?thesis by blast
qed

text \<open>
  the names of an audit event are the distinct non-empty names of the request in ascending order.
\<close>

theorem dedupNames_sorted_set: "dedupNames names = sorted_list_of_set (set names - {''''})"
  using dedupNames_strict [of names] dedupNames_set [of names]
  by (metis sorted_list_of_set.idem_if_sorted_distinct strict_sorted_iff)

text \<open>
  C24: in every interleaving of request handlers and dispatcher the audit queue never exceeds its capacity,
  what the auditor receives is a subsequence of what was offered, in order and without repetition, the
  outside world is what these deliveries made of it, and nothing is lost while no more than 128 events
  have been offered.
\<close>

theorem audit_queue_fifo:
  assumes "audit_reach s out0 a"
  shows "\<exists>q. w_queue (as_world a) = Some q \<and> length q \<le> 128 \<and> subseq (as_delivered a @ q) (as_offered a) \<and>
    w_out (as_world a) = fold (audit_publish s) (as_delivered a) out0 \<and>
    (length (as_offered a) \<le> 128 \<longrightarrow> as_delivered a @ q = as_offered a)"
  using audit_reach_inv [OF assms] by (auto simp: audit_inv_def auditQueueSize_def)

theorem audit_queue_fifo_witness:
  "\<exists>a q. audit_reach (svc_of memory_repo\<lparr>svc_auditor := Some (\<lambda>c e out. Suc out)\<rparr>) 0 a \<and>
     w_queue (as_world a) = Some q \<and> as_delivered a @ q = as_offered a \<and> length (as_offered a) = 1"
proof -
  let ?s = "svc_of memory_repo\<lparr>svc_auditor := Some (\<lambda>c e out. Suc out)\<rparr>"
  let ?w = "\<lparr>w_repo = mem_New, w_queue = Some [], w_stop = True, w_out = 0 :: nat\<rparr>"
  let ?e = "\<lparr>Timestamp = 1, EvMetrics = [''c''], IPAddress = ''::1''\<rparr>"
  let ?a = "\<lparr>as_world = enqueueAudit ?s Background ?e ?w, as_offered = [(Background, ?e)], as_delivered = []\<rparr>"
  have "audit_reach ?s 0 ?a"
    using audit_reach.offer [OF audit_reach.start [of ?w 0 ?s], of Background ?e] by simp
  from audit_queue_fifo [OF this] this show ?thesis by (intro exI [of _ ?a]) auto
qed

text \<open>
  \<open>Upsert\<close> never runs the snapshot hook: its result and its effects are the same whatever hook the
  service was built with, so a single update does not reach the snapshot file by itself.
\<close>

theorem Upsert_ignores_hook:
  "svc_Upsert (s\<lparr>svc_onChanged := h\<rparr>) c m w = svc_Upsert s c m w"
proof -
  have n: "notifyAudit (s\<lparr>svc_onChanged := h\<rparr>) c ns u = notifyAudit s c ns u" for ns u
    by (simp add: notifyAudit_def enqueueAudit_def Let_def split: option.split)
  have g: "svc_Get (s\<lparr>svc_onChanged := h\<rparr>) c t i u = svc_Get s c t i u" for t i u
    by (simp add: svc_Get_def Let_def)
  have f: "upsert_finish (s\<lparr>svc_onChanged := h\<rparr>) c m' res = upsert_finish s c m' res" for m' res
    by (simp add: upsert_finish_def n g split: prod.split option.split sum.split)
  show ?thesis by (simp add: svc_Upsert_def f Let_def split: option.split)
qed

text \<open>
  \<open>Close\<close> leaves the queued audit events behind: afterwards the dispatcher delivers nothing, the outside
  world has not seen them, and a later audited request publishes directly.
\<close>

theorem Close_drops_queue:
  assumes "w_queue w = Some q" and "w_stop w" and "svc_auditor s = Some publish"
  shows "dispatch s (svc_Close w) = None \<and> w_out (svc_Close w) = w_out w \<and> w_queue (svc_Close w) = None \<and>
    w_out (enqueueAudit s c evt (svc_Close w)) = publish c evt (w_out w) \<and> svc_Close (svc_Close w) = svc_Close w"
  using assms by (simp add: svc_Close_def dispatch_def enqueueAudit_def)

theorem Close_drops_queue_witness:
  "w_out (svc_Close \<lparr>w_repo = mem_New, w_queue = Some [(Background, \<lparr>Timestamp = 1, EvMetrics = [''c''], IPAddress = ''''\<rparr>)],
     w_stop = True, w_out = (0 :: nat)\<rparr>) = 0"
  using Close_drops_queue [of "\<lparr>w_repo = mem_New, w_queue = Some [(Background, \<lparr>Timestamp = 1, EvMetrics = [''c''], IPAddress = ''''\<rparr>)],
     w_stop = True, w_out = (0 :: nat)\<rparr>" _ "svc_of memory_repo\<lparr>svc_auditor := Some (\<lambda>c e out. Suc out)\<rparr>" "\<lambda>c e out. Suc out"]
  by simp

end
