(* ===== verification/Persister.thy ===== *)
theory Persister
  imports Filesystem Memory_Repo
begin

text \<open>
  The snapshot persister (\<open>internal/adapters/persistence/file/file.go\<close>).

  \<open>encoding/json\<close> appears as two arguments: \<open>text\<close>, the bytes it writes for a list of metrics whose
  floats are finite, and \<open>dec\<close>, its decoder. That \<open>encoding/json\<close> refuses NaN and infinities is part
  of the model (\<open>json_refuses\<close>, \<open>json_Encode\<close>). Lemmas: a save leaves the target file either as it was or complete,
  whatever system calls fail; a restore after a save gives back every metric, in whatever order the
  maps were walked.
\<close>

section \<open>Encoding\<close>

definition json_Encode :: "(Metrics list \<Rightarrow> string) \<Rightarrow> Metrics list \<Rightarrow> go_error + string" where
  "json_Encode text items =
     (if list_ex json_refuses items
      then Inl (ErrNew ''json: unsupported value'') else Inr (text items))"

section \<open>The operations\<close>

definition flattenSnapshot :: "Snapshot \<Rightarrow> Metrics list" where
  "flattenSnapshot s =
     map (\<lambda>(k, v). gauge_metric k v) (Gauges s) @ map (\<lambda>(k, d). counter_metric k d) (Counters s)"

text \<open>
  The part of \<open>writeJSONAtomic\<close> after the temporary file exists: the file system, \<open>retErr\<close>, whether
  \<open>tmp\<close> is still non-nil, and \<open>cleanup\<close>.
\<close>

definition write_tmp ::
  "(Metrics list \<Rightarrow> string) \<Rightarrow> string \<Rightarrow> string \<Rightarrow> Metrics list \<Rightarrow> fs \<Rightarrow> fs \<times> go_error option \<times> bool \<times> bool" where
  "write_tmp text path tmpName items s =
     (case json_Encode text items of
        Inl e \<Rightarrow> (s, Some (Wrapf ''encode'' e), True, True)
      | Inr bytes \<Rightarrow>
          (case os_Write tmpName bytes s of
             (s1, Some e) \<Rightarrow> (s1, Some (Wrapf ''encode'' e), True, True)
           | (s1, None) \<Rightarrow>
               (case fs_call s1 of
                  (s2, Some e) \<Rightarrow> (s2, Some (Wrapf ''close tmp'' e), True, True)
                | (s2, None) \<Rightarrow>
                    (case os_Rename tmpName path s2 of
                       (s3, Some e) \<Rightarrow> (s3, Some (Wrapf ''rename'' e), False, True)
                     | (s3, None) \<Rightarrow> (s3, None, False, False)))))"

text \<open>The deferred function: close if still open, remove if \<open>cleanup\<close>; their errors count only when there is none yet.\<close>

definition write_deferred ::
  "string \<Rightarrow> fs \<times> go_error option \<times> bool \<times> bool \<Rightarrow> fs \<times> go_error option" where
  "write_deferred tmpName res =
     (let (s, retErr, tmpOpen, cleanup) = res;
          (s1, r1) = (if tmpOpen
                      then (case fs_call s of
                              (s', Some e) \<Rightarrow> (s', if retErr = None then Some (Wrapf ''close tmp'' e) else retErr)
                            | (s', None) \<Rightarrow> (s', retErr))
                      else (s, retErr))
      in if cleanup
         then (case os_Remove tmpName s1 of
                 (s2, Some e) \<Rightarrow> (s2, if r1 = None then Some (Wrapf ''remove tmp'' e) else r1)
               | (s2, None) \<Rightarrow> (s2, r1))
         else (s1, r1))"

definition writeJSONAtomic :: "(Metrics list \<Rightarrow> string) \<Rightarrow> string \<Rightarrow> Metrics list \<Rightarrow> fs \<Rightarrow> fs \<times> go_error option" where
  "writeJSONAtomic text path items s =
     (let dir = filepath_Dir path in
      case (if dir \<noteq> '''' \<and> dir \<noteq> ''.'' then fs_call s else (s, None)) of
        (s1, Some e) \<Rightarrow> (s1, Some (Wrapf ''mkdir'' e))
      | (s1, None) \<Rightarrow>
          (case os_CreateTemp dir s1 of
             (s2, Inl e) \<Rightarrow> (s2, Some (Wrapf ''create tmp'' e))
           | (s2, Inr tmpName) \<Rightarrow> write_deferred tmpName (write_tmp text path tmpName items s2)))"

definition Persister_Save :: "(Metrics list \<Rightarrow> string) \<Rightarrow> string \<Rightarrow> Snapshot \<Rightarrow> fs \<Rightarrow> fs \<times> go_error option" where
  "Persister_Save text path snap s = writeJSONAtomic text path (flattenSnapshot snap) s"

text \<open>The call after \<open>Open\<close> is the decoder's read; one that fails does so before the value is complete.\<close>

definition Persister_Restore ::
  "(string \<Rightarrow> go_error + Metrics list) \<Rightarrow> string \<Rightarrow> 'r MetricsRepo \<Rightarrow> go_context \<Rightarrow> fs \<times> 'r \<Rightarrow>
   (fs \<times> 'r) \<times> go_error option" where
  "Persister_Restore dec path R c sr =
     (case os_Open path (fst sr) of
        (s1, Inl err) \<Rightarrow>
          ((s1, snd sr), if errors_Is err ErrNotExist then None else Some (Wrapf ''open'' err))
      | (s1, Inr content) \<Rightarrow>
          (let (s2, rerr) = fs_call s1;
               (r', retErr) = (case (case rerr of Some e \<Rightarrow> Inl e | None \<Rightarrow> dec content) of
                                 Inl e \<Rightarrow> (snd sr, Some (Wrapf ''decode'' e))
                               | Inr items \<Rightarrow> repo_UpdateMany R c items (snd sr));
               (s3, cerr) = fs_call s2
           in ((s3, r'), case cerr of Some e \<Rightarrow> if retErr = None then Some (Wrapf ''close'' e) else retErr
                                    | None \<Rightarrow> retErr)))"

section \<open>Facts about flattening\<close>

lemma spec_gauges_counters_only: "\<forall>m \<in> set ms. MType m \<noteq> Gauge \<Longrightarrow> spec_gauges ms g = g"
  by (induction ms g rule: spec_gauges.induct) auto

lemma spec_counters_gauges_only: "\<forall>m \<in> set ms. MType m \<noteq> Counter \<Longrightarrow> spec_counters ms c = c"
  by (induction ms c rule: spec_counters.induct) auto

lemma spec_gauges_of_map:
  assumes "gm_wf gs"
  shows "spec_gauges (map (\<lambda>(k, v). gauge_metric k v) gs) g = g ++ map_of gs"
  using assms
proof (induction gs arbitrary: g)
  case Nil
  show ?case by simp
next
  case (Cons kv gs)
  obtain k v where kv: "kv = (k, v)" by fastforce
  with Cons.prems have "map_of gs k = None" by (simp add: map_of_eq_None_iff)
  with Cons kv show ?case by (auto simp: map_add_def fun_eq_iff split: option.split)
qed

lemma spec_counters_of_map:
  assumes "gm_wf cs" and "\<And>k. k \<in> fst ` set cs \<Longrightarrow> c k = None"
  shows "spec_counters (map (\<lambda>(k, d). counter_metric k d) cs) c = c ++ map_of cs"
  using assms
proof (induction cs arbitrary: c)
  case Nil
  show ?case by simp
next
  case (Cons kd cs)
  obtain k d where kd: "kd = (k, d)" by fastforce
  with Cons.prems have "map_of cs k = None" by (simp add: map_of_eq_None_iff)
  moreover have "spec_counters (map (\<lambda>(k, d). counter_metric k d) cs) (c(k \<mapsto> d)) = c(k \<mapsto> d) ++ map_of cs"
    using Cons kd by (intro Cons.IH) auto
  ultimately show ?case
    using Cons.prems(2) [of k] kd by (auto simp: map_add_def fun_eq_iff split: option.split)
qed

text \<open>Replaying a flattened snapshot into an empty repository rebuilds its two maps.\<close>

lemma replay_flattenSnapshot:
  assumes "gm_wf (Gauges s)" and "gm_wf (Counters s)"
  shows "spec_gauges (flattenSnapshot s) Map.empty = map_of (Gauges s)"
    and "spec_counters (flattenSnapshot s) Map.empty = map_of (Counters s)"
proof -
  have g: "spec_gauges (map (\<lambda>(k, d). counter_metric k d) (Counters s)) g = g" for g
    by (rule spec_gauges_counters_only) auto
  have c: "spec_counters (map (\<lambda>(k, v). gauge_metric k v) (Gauges s)) c = c" for c
    by (rule spec_counters_gauges_only) auto
  show "spec_gauges (flattenSnapshot s) Map.empty = map_of (Gauges s)"
    using assms by (simp add: flattenSnapshot_def spec_gauges_append g spec_gauges_of_map)
  show "spec_counters (flattenSnapshot s) Map.empty = map_of (Counters s)"
    using assms by (simp add: flattenSnapshot_def spec_counters_append c spec_counters_of_map)
qed

section \<open>Facts about the atomic write\<close>

lemma os_Rename_facts:
  assumes "os_Rename src dst s = (s', x)" and "src \<noteq> dst"
  shows "case x of
           Some e \<Rightarrow> (\<forall>p. fs_content p s' = fs_content p s)
         | None \<Rightarrow> fs_content dst s' = fs_content src s \<and> fs_content src s' = None \<and>
             (\<forall>p. p \<noteq> src \<longrightarrow> p \<noteq> dst \<longrightarrow> fs_content p s' = fs_content p s)"
  using assms fs_call_facts [of s]
  by (auto simp: os_Rename_def split: prod.splits option.splits if_splits)

lemma write_tmp_facts:
  assumes "write_tmp text path tmp items s = (s', r, op, cl)" and "tmp \<noteq> path"
    and "fs_content tmp s = Some []"
  shows "(r = None \<longleftrightarrow> \<not> cl) \<and> (r = None \<longrightarrow> \<not> op) \<and>
         (\<forall>p. p \<noteq> tmp \<longrightarrow> p \<noteq> path \<longrightarrow> fs_content p s' = fs_content p s) \<and>
         (case r of
            None \<Rightarrow> fs_content tmp s' = None \<and> json_Encode text items = Inr (text items) \<and>
                    fs_content path s' = Some (text items)
          | Some e \<Rightarrow> fs_content path s' = fs_content path s)"
proof (cases "json_Encode text items")
  case (Inl e)
  with assms show ?thesis by (auto simp: write_tmp_def)
next
  case (Inr bytes)
  then have bytes: "bytes = text items" by (simp add: json_Encode_def split: if_splits)
  obtain s1 r1 where w: "os_Write tmp bytes s = (s1, r1)" by fastforce
  have w_other: "fs_content p s1 = fs_content p s" if "p \<noteq> tmp" for p
    using os_Write_other [OF w that] .
  have w_tmp: "fs_content tmp s1 = Some bytes" if "r1 = None"
    using w assms(3) that by (auto simp: os_Write_def Let_def split: prod.splits fs_fault.splits)
  obtain s2 r2 where c: "fs_call s1 = (s2, r2)" by fastforce
  note c_all = fs_call_facts(1) [OF c]
  obtain s3 r3 where m: "os_Rename tmp path s2 = (s3, r3)" by fastforce
  note m_all = os_Rename_facts [OF m assms(2)]
  from assms(1) Inr w c m show ?thesis
    using w_other w_tmp c_all m_all assms(2) bytes Inr
    by (auto simp: write_tmp_def split: option.splits)
qed

lemma write_deferred_facts:
  assumes "write_deferred tmp (s, r, op, cl) = (s', r')" and "r = None \<longleftrightarrow> \<not> cl" and "r = None \<longrightarrow> \<not> op"
  shows "r' = r \<and> (\<forall>p. p \<noteq> tmp \<longrightarrow> fs_content p s' = fs_content p s) \<and> (r = None \<longrightarrow> s' = s)"
proof (cases cl)
  case False
  with assms show ?thesis by (auto simp: write_deferred_def)
next
  case True
  with assms(2) obtain e where r: "r = Some e" by auto
  obtain s1 x1 where c: "fs_call s = (s1, x1)" by fastforce
  obtain s2 x2 where m: "os_Remove tmp (if op then s1 else s) = (s2, x2)" by fastforce
  have "fs_content p s2 = fs_content p s" if "p \<noteq> tmp" for p
    using os_Remove_other [OF m that] fs_call_facts(1) [OF c] by (simp split: if_splits)
  moreover have "s' = s2" "r' = r"
    using assms(1) True r c m by (auto simp: write_deferred_def split: option.splits if_splits)
  ultimately show ?thesis using r by simp
qed

text \<open>From the temporary file on: the file is the only trace of a failure, and a success leaves none.\<close>

lemma write_tmp_deferred:
  assumes wt: "write_tmp text path tmp items s2 = (s3, r3, op, cl)" and wd: "write_deferred tmp (s3, r3, op, cl) = (s', r)"
    and ne: "tmp \<noteq> path" and tmp: "fs_content tmp s2 = Some []"
  shows "p \<noteq> tmp \<Longrightarrow> p \<noteq> path \<Longrightarrow> fs_content p s' = fs_content p s2"
    and "r = None \<Longrightarrow> json_Encode text items = Inr (text items) \<and> fs_content path s' = Some (text items) \<and> fs_content tmp s' = None"
    and "r \<noteq> None \<Longrightarrow> fs_content path s' = fs_content path s2"
proof -
  note f3 = write_tmp_facts [OF wt ne tmp]
  have f4: "r = r3" "\<And>p. p \<noteq> tmp \<Longrightarrow> fs_content p s' = fs_content p s3" "r3 = None \<Longrightarrow> s' = s3"
    using write_deferred_facts [OF wd] f3 by blast+
  show "p \<noteq> tmp \<Longrightarrow> p \<noteq> path \<Longrightarrow> fs_content p s' = fs_content p s2" using f3 f4(2) by metis
  show "r = None \<Longrightarrow> json_Encode text items = Inr (text items) \<and> fs_content path s' = Some (text items) \<and> fs_content tmp s' = None"
    using f3 f4 by auto
  show "r \<noteq> None \<Longrightarrow> fs_content path s' = fs_content path s2" using f3 f4 ne by auto
qed

text \<open>
  The whole write: on success the target holds the complete text and nothing else has changed; on an
  error the target is what it was, and no file that is not one of the temporary names has changed.
\<close>

lemma writeJSONAtomic_facts:
  assumes "writeJSONAtomic text path items s = (s', r)"
    and fresh: "\<forall>x \<in> set (fs_rand s). tmp_path (filepath_Dir path) x \<noteq> path"
  shows "case r of
           None \<Rightarrow> json_Encode text items = Inr (text items) \<and> fs_content path s' = Some (text items) \<and>
             (\<forall>p. p \<noteq> path \<longrightarrow> fs_content p s' = fs_content p s)
         | Some e \<Rightarrow> fs_content path s' = fs_content path s \<and>
             (\<forall>p. p \<notin> tmp_path (filepath_Dir path) ` set (fs_rand s) \<longrightarrow> fs_content p s' = fs_content p s)"
proof -
  let ?dir = "filepath_Dir path"
  obtain s1 r1 where mk: "(if ?dir \<noteq> '''' \<and> ?dir \<noteq> ''.'' then fs_call s else (s, None)) = (s1, r1)"
    by fastforce
  then have s1: "\<And>p. fs_content p s1 = fs_content p s" "fs_rand s1 = fs_rand s"
    by (auto split: if_splits dest: fs_call_facts)
  obtain s2 y where ct: "os_CreateTemp ?dir s1 = (s2, y)" by fastforce
  note ct_facts = os_CreateTemp_facts [OF ct]
  show ?thesis
  proof (cases "r1 = None \<and> (\<exists>tmp. y = Inr tmp)")
    case False
    with assms(1) mk ct ct_facts s1 show ?thesis
      by (auto simp: writeJSONAtomic_def split: option.splits sum.splits)
  next
    case True
    then obtain tmp where y: "y = Inr tmp" by blast
    from ct_facts y s1 have tmp: "fs_content tmp s = None" "fs_content tmp s2 = Some []"
        "tmp \<in> tmp_path ?dir ` set (fs_rand s)" "\<And>p. p \<noteq> tmp \<Longrightarrow> fs_content p s2 = fs_content p s"
      by auto
    with fresh have ne: "tmp \<noteq> path" by auto
    obtain s3 r3 op cl where wt: "write_tmp text path tmp items s2 = (s3, r3, op, cl)" by (metis surj_pair)
    from assms(1) mk True ct y wt have wd: "write_deferred tmp (s3, r3, op, cl) = (s', r)"
      by (simp add: writeJSONAtomic_def)
    note facts = write_tmp_deferred [OF wt wd ne tmp(2)]
    have other: "fs_content p s' = fs_content p s" if "p \<noteq> tmp" "p \<noteq> path" for p
      using facts(1) tmp(4) that by metis
    show ?thesis using facts(2,3) other tmp(1,3,4) ne by (cases r) (auto, metis+)
  qed
qed

section \<open>Properties\<close>

text \<open>The files that a save may touch besides its target: the temporary names.\<close>

abbreviation tmp_names :: "string \<Rightarrow> fs \<Rightarrow> string set" where
  "tmp_names path s \<equiv> tmp_path (filepath_Dir path) ` set (fs_rand s)"

text \<open>
  C7: \<open>Save\<close> is atomic, whichever system calls fail and however much of the temporary file was written:
  afterwards the target holds either its old content (with an error) or the complete new text (without),
  never a part of it; no file but a temporary one has changed, and after success not even those.
\<close>

theorem Save_atomic:
  assumes "path \<notin> tmp_names path s" and "Persister_Save text path snap s = (s', r)"
  shows "case r of
      None \<Rightarrow> fs_content path s' = Some (text (flattenSnapshot snap)) \<and>
              (\<forall>p. p \<noteq> path \<longrightarrow> fs_content p s' = fs_content p s)
    | Some e \<Rightarrow> fs_content path s' = fs_content path s \<and>
              (\<forall>p. p \<notin> tmp_names path s \<longrightarrow> fs_content p s' = fs_content p s)"
  using writeJSONAtomic_facts [of "text" path "flattenSnapshot snap" s s' r] assms
  by (force simp: Persister_Save_def split: option.splits)

theorem Save_atomic_witness:
  "fs_content ''m'' (fst (Persister_Save (\<lambda>items. ''new'') ''m'' \<lparr>Gauges = [], Counters = []\<rparr>
     \<lparr>fs_files = [(''m'', ''old'')], fs_faults = [FsOk, FsPartial 2 EPIPE], fs_rand = [''1'']\<rparr>)) = Some ''old''"
proof -
  let ?s = "\<lparr>fs_files = [(''m'', ''old'')], fs_faults = [FsOk, FsPartial 2 EPIPE], fs_rand = [''1'']\<rparr>"
  obtain s' e where run: "Persister_Save (\<lambda>items. ''new'') ''m'' \<lparr>Gauges = [], Counters = []\<rparr> ?s = (s', Some e)"
    by (simp add: Persister_Save_def writeJSONAtomic_def Let_def fs_call_def fs_next_def os_CreateTemp_def write_tmp_def
          write_deferred_def os_Write_def os_Remove_def flattenSnapshot_def json_Encode_def fs_put_def fs_content_def
          tmp_path_def filepath_Dir_def last_slash_prefix_def filepath_Clean_def slash_def HasPrefix_def)
  have "''m'' \<notin> tmp_names ''m'' ?s"
    by (simp add: tmp_path_def filepath_Dir_def last_slash_prefix_def filepath_Clean_def slash_def HasPrefix_def)
  from Save_atomic [OF this run] show ?thesis by (simp add: run fs_content_def)
qed

lemma Restore_content:
  assumes content: "fs_content path s' = Some (text (flattenSnapshot snap))"
    and json: "dec (text (flattenSnapshot snap)) = Inr (flattenSnapshot snap)"
    and snap: "gm_wf (Gauges snap)" "gm_wf (Counters snap)" and disk: "fs_faults s' = []"
    and rest: "Persister_Restore dec path memory_repo c (s', mem_New) = ((s'', r), e)"
  shows "e = None \<and> mem_inv r \<and> mem_gauge_of r = map_of (Gauges snap) \<and> mem_counter_of r = map_of (Counters snap) \<and>
    fs_content path s'' = fs_content path s'"
proof -
  have call: "fs_call s' = (s', None)" using disk by (simp add: fs_call_def fs_next_def)
  let ?r = "mem_update_loop (flattenSnapshot snap) mem_New"
  have "mem_gauge_of ?r = map_of (Gauges snap)" "mem_counter_of ?r = map_of (Counters snap)"
    using replay_flattenSnapshot [OF snap]
    by (simp_all add: mem_abs_defs mem_update_loop_gauges mem_update_loop_counters mem_New_def)
  with content call json rest mem_update_loop_inv [of mem_New "flattenSnapshot snap"] show ?thesis
    by (auto simp: Persister_Restore_def os_Open_def mem_UpdateMany_def)
qed

lemma Restore_replays:
  assumes saved: "Persister_Save text path snap s = (s', None)"
    and json: "dec (text (flattenSnapshot snap)) = Inr (flattenSnapshot snap)"
    and snap: "gm_wf (Gauges snap)" "gm_wf (Counters snap)"
    and disk: "path \<notin> tmp_names path s" "fs_faults s' = []"
    and rest: "Persister_Restore dec path memory_repo c (s', mem_New) = ((s'', r), e)"
  shows "e = None \<and> mem_inv r \<and> mem_gauge_of r = map_of (Gauges snap) \<and> mem_counter_of r = map_of (Counters snap) \<and>
    fs_content path s'' = fs_content path s'"
proof (rule Restore_content [of path s' "text" snap dec, OF _ json snap disk(2) rest])
  show "fs_content path s' = Some (text (flattenSnapshot snap))"
    using writeJSONAtomic_facts [of "text" path "flattenSnapshot snap" s s' None] saved disk
    by (force simp: Persister_Save_def)
qed

text \<open>
  C35: what \<open>Save\<close> wrote, \<open>Restore\<close> reads back: into an empty in-memory repository it rebuilds exactly the
  gauges and the counters of the snapshot, in whatever order the maps were walked, given that the JSON
  decoder inverts the encoder on the list that was written.
\<close>

theorem Save_Restore_roundtrip:
  assumes saved: "Persister_Save text path snap s = (s', None)"
    and json: "dec (text (flattenSnapshot snap)) = Inr (flattenSnapshot snap)"
    and snap: "gm_wf (Gauges snap)" "gm_wf (Counters snap)"
    and disk: "path \<notin> tmp_names path s" "fs_faults s' = []"
  shows "case Persister_Restore dec path memory_repo c (s', mem_New) of
    ((s'', r), e) \<Rightarrow> e = None \<and> mem_inv r \<and> mem_gauge_of r = map_of (Gauges snap) \<and>
      mem_counter_of r = map_of (Counters snap) \<and> fs_content path s'' = fs_content path s'"
  using Restore_replays [OF saved, of dec c] json snap disk by (auto split: prod.split)

theorem Save_Restore_roundtrip_witness:
  "\<exists>s' s'' r. Persister_Save (\<lambda>items. ''x'') ''m'' \<lparr>Gauges = [], Counters = [(''c'', 5)]\<rparr>
       \<lparr>fs_files = [], fs_faults = [], fs_rand = [''1'']\<rparr> = (s', None) \<and>
     Persister_Restore (\<lambda>b. Inr [counter_metric ''c'' 5]) ''m'' memory_repo Background (s', mem_New) = ((s'', r), None) \<and>
     mem_counter_of r ''c'' = Some 5"
proof -
  let ?s = "\<lparr>fs_files = [], fs_faults = [], fs_rand = [''1'']\<rparr>" and ?snap = "\<lparr>Gauges = [], Counters = [(''c'', 5)]\<rparr>"
  let ?s' = "\<lparr>fs_files = [(''m'', ''x'')], fs_faults = [], fs_rand = []\<rparr>"
  have run: "Persister_Save (\<lambda>items. ''x'') ''m'' ?snap ?s = (?s', None)"
    by (simp add: Persister_Save_def writeJSONAtomic_def Let_def fs_call_def fs_next_def os_CreateTemp_def write_tmp_def
          write_deferred_def os_Write_def os_Rename_def flattenSnapshot_def json_Encode_def fs_put_def fs_content_def fs_del_def
          tmp_path_def filepath_Dir_def last_slash_prefix_def filepath_Clean_def slash_def HasPrefix_def)
  have ne: "''m'' \<notin> tmp_names ''m'' ?s"
    by (simp add: tmp_path_def filepath_Dir_def last_slash_prefix_def filepath_Clean_def slash_def HasPrefix_def)
  obtain s'' r e where rest: "Persister_Restore (\<lambda>b. Inr [counter_metric ''c'' 5]) ''m'' memory_repo Background (?s', mem_New) = ((s'', r), e)"
    by (metis surj_pair)
  have "flattenSnapshot ?snap = [counter_metric ''c'' 5]" by (simp add: flattenSnapshot_def)
  from Save_Restore_roundtrip [OF run _ _ _ ne, of "\<lambda>b. Inr [counter_metric ''c'' 5]" Background] this rest run show ?thesis
    by auto
qed

text \<open>
  one gauge that is NaN or an infinity blocks persistence: \<open>Save\<close> then fails whatever the disk does, and
  the file keeps its old content, also for all the finite metrics.
\<close>

theorem Save_nonfinite_fails:
  assumes "(k, v) \<in> set (Gauges snap)" and "is_nonfinite v" and "path \<notin> tmp_names path s"
  shows "case Persister_Save text path snap s of
    (s', r) \<Rightarrow> r \<noteq> None \<and> fs_content path s' = fs_content path s"
proof -
  have "gauge_metric k v \<in> set (flattenSnapshot snap)" using assms(1) by (force simp: flattenSnapshot_def)
  with assms(2) have enc: "json_Encode text (flattenSnapshot snap) \<noteq> Inr b" for b
    by (auto simp: json_Encode_def list_ex_iff json_refuses_def intro!: bexI [of _ "gauge_metric k v"])
  obtain s' r where run: "Persister_Save text path snap s = (s', r)" by fastforce
  from writeJSONAtomic_facts [of "text" path "flattenSnapshot snap" s s' r] run assms(3) enc show ?thesis
    by (cases r) (force simp: Persister_Save_def)+
qed

theorem Save_nonfinite_fails_witness:
  "is_nonfinite 0x7FF0000000000000 \<and>
   snd (Persister_Save (\<lambda>items. ''x'') ''m'' \<lparr>Gauges = [(''g'', 0x7FF0000000000000)], Counters = []\<rparr>
     \<lparr>fs_files = [], fs_faults = [], fs_rand = [''1'']\<rparr>) \<noteq> None"
proof -
  have inf: "is_nonfinite 0x7FF0000000000000" by (simp add: is_nonfinite_def)
  have ne: "''m'' \<notin> tmp_names ''m'' \<lparr>fs_files = [], fs_faults = [], fs_rand = [''1'']\<rparr>"
    by (simp add: tmp_path_def filepath_Dir_def last_slash_prefix_def filepath_Clean_def slash_def HasPrefix_def)
  from Save_nonfinite_fails [of "''g''" "0x7FF0000000000000" "\<lparr>Gauges = [(''g'', 0x7FF0000000000000)], Counters = []\<rparr>", OF _ inf ne]
    inf show ?thesis by (simp add: split_beta)
qed

end
