(* ===== verification/Config.thy ===== *)
theory Config
  imports Misc
begin

text \<open>
  Configuration (\<open>internal/config\<close>): the ENV / CLI / default resolution helpers and the two loaders.

  Package \<open>flag\<close> (\<open>FlagSet.Parse\<close> over string, int and bool flags), \<open>strconv.ParseInt\<close> with base 0,
  \<open>strconv.ParseBool\<close> and \<open>net.SplitHostPort\<close> are modelled. \<open>time.ParseDuration\<close>, \<open>url.ParseRequestURI\<close>
  and the host of \<open>url.Parse\<close> are the fields of \<open>urltime\<close>, an argument of the loaders. Go's \<open>int\<close> has
  64 bits, and \<open>time.Duration(n) * time.Second\<close> wraps.
\<close>

section \<open>strconv.ParseInt(s, 0, 64) and strconv.ParseBool\<close>

definition is_sign :: "char \<Rightarrow> bool" where
  "is_sign c \<longleftrightarrow> c = CHR ''+'' \<or> c = CHR ''-''"

definition drop_sign :: "string \<Rightarrow> string" where
  "drop_sign s = (case s of c # cs \<Rightarrow> if is_sign c then cs else s | [] \<Rightarrow> [])"

definition char_digit :: "char \<Rightarrow> nat option" where
  "char_digit c =
     (let n = of_char (lower_byte c) :: nat in
      if is_digit c then Some (of_char c - 48)
      else if 97 \<le> n \<and> n \<le> 122 then Some (n - 87) else None)"

text \<open>The base and the digits after a base prefix; a lone leading zero means octal.\<close>

definition base_prefix :: "string \<Rightarrow> nat \<times> string" where
  "base_prefix s =
     (case s of
        c # x # y # rest \<Rightarrow>
          if c \<noteq> CHR ''0'' then (10, s)
          else if lower_byte x = CHR ''b'' then (2, y # rest)
          else if lower_byte x = CHR ''o'' then (8, y # rest)
          else if lower_byte x = CHR ''x'' then (16, y # rest)
          else (8, x # y # rest)
      | c # rest \<Rightarrow> if c = CHR ''0'' then (8, rest) else (10, s)
      | [] \<Rightarrow> (10, []))"

fun parse_base :: "nat \<Rightarrow> nat \<Rightarrow> string \<Rightarrow> nat option" where
  "parse_base b acc [] = Some acc"
| "parse_base b acc (c # cs) =
     (if c = CHR ''_'' then parse_base b acc cs
      else case char_digit c of
             None \<Rightarrow> None
           | Some d \<Rightarrow> if b \<le> d then None else parse_base b (acc * b + d) cs)"

datatype under_class = UStart | UDigit | UUnder | UOther

fun under_scan :: "bool \<Rightarrow> under_class \<Rightarrow> string \<Rightarrow> bool" where
  "under_scan hex i [] \<longleftrightarrow> i \<noteq> UUnder"
| "under_scan hex i (c # cs) \<longleftrightarrow>
     (if is_digit c \<or> hex \<and> (case char_digit c of Some d \<Rightarrow> d < 16 | None \<Rightarrow> False) then under_scan hex UDigit cs
      else if c = CHR ''_'' then i = UDigit \<and> under_scan hex UUnder cs
      else i \<noteq> UUnder \<and> under_scan hex UOther cs)"

definition underscoreOK :: "string \<Rightarrow> bool" where
  "underscoreOK s0 =
     (case drop_sign s0 of
        c # x # rest \<Rightarrow>
          if c = CHR ''0'' \<and> lower_byte x \<in> set [CHR ''b'', CHR ''o'', CHR ''x'']
          then under_scan (lower_byte x = CHR ''x'') UDigit rest
          else under_scan False UStart (c # x # rest)
      | s \<Rightarrow> under_scan False UStart s)"

definition ParseInt0 :: "string \<Rightarrow> int64 option" where
  "ParseInt0 s =
     (let neg = (case s of c # cs \<Rightarrow> c = CHR ''-'' | [] \<Rightarrow> False); u = drop_sign s in
      if u = [] then None
      else let (b, ds) = base_prefix u in
           case parse_base b 0 ds of
             None \<Rightarrow> None
           | Some n \<Rightarrow>
               if CHR ''_'' \<in> set ds \<and> \<not> underscoreOK u then None
               else if \<not> neg \<and> 2 ^ 63 \<le> n then None
               else if neg \<and> 2 ^ 63 < n then None
               else Some (word_of_int (if neg then - int n else int n)))"

definition ParseBool :: "string \<Rightarrow> bool option" where
  "ParseBool s =
     (if s \<in> set [''1'', ''t'', ''T'', ''true'', ''TRUE'', ''True''] then Some True
      else if s \<in> set [''0'', ''f'', ''F'', ''false'', ''FALSE'', ''False''] then Some False
      else None)"

section \<open>Package flag\<close>

datatype flag_kind = StringFlag | IntFlag | BoolFlag

record flag_vals =
  fv_str :: "string gomap"
  fv_int :: "int64 gomap"
  fv_bool :: "bool gomap"

definition flag_Set :: "flag_kind \<Rightarrow> string \<Rightarrow> string \<Rightarrow> flag_vals \<Rightarrow> flag_vals option" where
  "flag_Set kind name val fv =
     (case kind of
        StringFlag \<Rightarrow> Some (fv\<lparr>fv_str := gm_set name val (fv_str fv)\<rparr>)
      | IntFlag \<Rightarrow> map_option (\<lambda>n. fv\<lparr>fv_int := gm_set name n (fv_int fv)\<rparr>) (ParseInt0 val)
      | BoolFlag \<Rightarrow> map_option (\<lambda>b. fv\<lparr>fv_bool := gm_set name b (fv_bool fv)\<rparr>) (ParseBool val))"

text \<open>Splits \<open>name=value\<close> at the first equals sign that is not the first byte.\<close>

definition split_eq :: "string \<Rightarrow> string \<times> string option" where
  "split_eq s =
     (case s of
        [] \<Rightarrow> ([], None)
      | c # cs \<Rightarrow>
          (let a = takeWhile (\<lambda>x. x \<noteq> CHR ''='') cs; b = dropWhile (\<lambda>x. x \<noteq> CHR ''='') cs
           in (c # a, case b of [] \<Rightarrow> None | _ # v \<Rightarrow> Some v)))"

fun FlagSet_Parse :: "(string \<times> flag_kind) list \<Rightarrow> flag_vals \<Rightarrow> string list \<Rightarrow> go_error + flag_vals" where
  "FlagSet_Parse formal fv [] = Inr fv"
| "FlagSet_Parse formal fv (s # args) =
     (if length s < 2 \<or> hd s \<noteq> CHR ''-'' then Inr fv
      else if s = ''--'' then Inr fv
      else
        (let name0 = (if s ! 1 = CHR ''-'' then drop 2 s else drop 1 s) in
         if name0 = [] \<or> hd name0 = CHR ''-'' \<or> hd name0 = CHR ''='' then Inl (ErrNew ''bad flag syntax'')
         else
           (let (name, val) = split_eq name0 in
            case map_of formal name of
              None \<Rightarrow> Inl (if name = ''help'' \<or> name = ''h'' then ErrNew ''flag: help requested''
                           else ErrNew ''flag provided but not defined'')
            | Some BoolFlag \<Rightarrow>
                (case flag_Set BoolFlag name (case val of Some v \<Rightarrow> v | None \<Rightarrow> ''true'') fv of
                   None \<Rightarrow> Inl (ErrNew ''invalid boolean value'')
                 | Some fv' \<Rightarrow> FlagSet_Parse formal fv' args)
            | Some kind \<Rightarrow>
                (case val of
                   Some v \<Rightarrow>
                     (case flag_Set kind name v fv of
                        None \<Rightarrow> Inl (ErrNew ''invalid value'')
                      | Some fv' \<Rightarrow> FlagSet_Parse formal fv' args)
                 | None \<Rightarrow>
                     (case args of
                        [] \<Rightarrow> Inl (ErrNew ''flag needs an argument'')
                      | v # args' \<Rightarrow>
                          (case flag_Set kind name v fv of
                             None \<Rightarrow> Inl (ErrNew ''invalid value'')
                           | Some fv' \<Rightarrow> FlagSet_Parse formal fv' args'))))))"

definition flag_str :: "flag_vals \<Rightarrow> string \<Rightarrow> string" where
  "flag_str fv n = (case map_of (fv_str fv) n of Some v \<Rightarrow> v | None \<Rightarrow> '''')"

definition flag_int :: "flag_vals \<Rightarrow> string \<Rightarrow> int64 \<Rightarrow> int64" where
  "flag_int fv n def = (case map_of (fv_int fv) n of Some v \<Rightarrow> v | None \<Rightarrow> def)"

definition flag_bool :: "flag_vals \<Rightarrow> string \<Rightarrow> bool" where
  "flag_bool fv n = (case map_of (fv_bool fv) n of Some v \<Rightarrow> v | None \<Rightarrow> False)"

definition no_flags :: flag_vals where
  "no_flags = \<lparr>fv_str = [], fv_int = [], fv_bool = []\<rparr>"

section \<open>net.SplitHostPort\<close>

definition last_colon :: "string \<Rightarrow> nat option" where
  "last_colon s =
     (if CHR '':'' \<in> set s then Some (length s - 1 - length (takeWhile (\<lambda>c. c \<noteq> CHR '':'') (rev s))) else None)"

definition index_of :: "char \<Rightarrow> string \<Rightarrow> nat option" where
  "index_of c s = (if c \<in> set s then Some (length (takeWhile (\<lambda>x. x \<noteq> c) s)) else None)"

definition SplitHostPort :: "string \<Rightarrow> (string \<times> string) option" where
  "SplitHostPort s =
     (case last_colon s of
        None \<Rightarrow> None
      | Some i \<Rightarrow>
          if hd s = CHR ''['' then
            (case index_of (CHR '']'') s of
               None \<Rightarrow> None
             | Some e \<Rightarrow>
                 if e + 1 \<noteq> i then None
                 else if CHR ''['' \<in> set (drop 1 s) \<or> CHR '']'' \<in> set (drop (e + 1) s) then None
                 else Some (take (e - 1) (drop 1 s), drop (i + 1) s))
          else
            (if CHR '':'' \<in> set (take i s) then None
             else if CHR ''['' \<in> set s \<or> CHR '']'' \<in> set s then None
             else Some (take i s, drop (i + 1) s)))"

section \<open>helpers.go\<close>

record urltime =
  ut_ParseDuration :: "string \<Rightarrow> duration option"
  ut_ParseRequestURI :: "string \<Rightarrow> bool"
  ut_ParseHost :: "string \<Rightarrow> string option"

definition FromEnvOrFlag :: "environ \<Rightarrow> string \<Rightarrow> string \<Rightarrow> string \<Rightarrow> string" where
  "FromEnvOrFlag env envKey flagVal def =
     (let v = TrimSpace (os_Getenv env envKey) in
      if v \<noteq> '''' then v
      else let f = TrimSpace flagVal in if f \<noteq> '''' then f else def)"

definition FromEnvOrFlagBool :: "environ \<Rightarrow> string \<Rightarrow> bool \<Rightarrow> bool \<Rightarrow> bool" where
  "FromEnvOrFlagBool env envKey flagVal def =
     (if TrimSpace (os_Getenv env envKey) \<noteq> '''' then GetBool env envKey def
      else if flagVal then True else def)"

definition FromEnvOrFlagInt :: "environ \<Rightarrow> string \<Rightarrow> int64 \<Rightarrow> int64 \<Rightarrow> int64 \<Rightarrow> int64" where
  "FromEnvOrFlagInt env envKey flagVal def minv =
     (let ev = TrimSpace (os_Getenv env envKey);
          fromFlag = (if flagVal \<noteq> 0 \<and> sint minv \<le> sint flagVal then flagVal else def)
      in if ev \<noteq> '''' then
           (case ParseInt ev of
              Some n \<Rightarrow> if sint minv \<le> sint n then n else fromFlag
            | None \<Rightarrow> fromFlag)
         else fromFlag)"

definition FromEnvOrFlagDuration ::
  "urltime \<Rightarrow> environ \<Rightarrow> string \<Rightarrow> int64 \<Rightarrow> int64 \<Rightarrow> int64 \<Rightarrow> duration \<times> bool" where
  "FromEnvOrFlagDuration ut env envKey flagSeconds flagSentinel defSeconds =
     (let ev = TrimSpace (os_Getenv env envKey) in
      if ev \<noteq> '''' then
        (case ParseInt ev of
           Some n \<Rightarrow> (n * Second, True)
         | None \<Rightarrow>
             (case ut_ParseDuration ut ev of
                Some d \<Rightarrow> (d, True)
              | None \<Rightarrow> (GetDuration (ut_ParseDuration ut) env envKey (defSeconds * Second), True)))
      else if flagSeconds \<noteq> flagSentinel then (flagSeconds * Second, True)
      else (defSeconds * Second, False))"

section \<open>agent.go\<close>

definition defaultServerAddr :: string where
  "defaultServerAddr = ''http://localhost:8080''"

definition defaultReportInterval :: int64 where "defaultReportInterval = 10"
definition defaultPollInterval :: int64 where "defaultPollInterval = 2"
definition defaultRateLimit :: int64 where "defaultRateLimit = 1"

record AgentConfig =
  ac_Address :: string
  ac_Key :: string
  ac_PollInterval :: duration
  ac_ReportInterval :: duration
  ac_RateLimit :: int64

definition normalizeAddressURL :: "string \<Rightarrow> string" where
  "normalizeAddressURL s0 =
     (let s = TrimSpace s0 in
      if s = '''' then defaultServerAddr
      else if HasPrefix s ''http://'' \<or> HasPrefix s ''https://'' then s
      else if HasPrefix s '':'' then ''http://localhost'' @ s
      else ''http://'' @ s)"

definition agent_flags :: "(string \<times> flag_kind) list" where
  "agent_flags = [(''a'', StringFlag), (''k'', StringFlag), (''r'', IntFlag), (''p'', IntFlag), (''l'', IntFlag)]"

definition LoadAgentConfig :: "urltime \<Rightarrow> environ \<Rightarrow> string list \<Rightarrow> go_error + AgentConfig" where
  "LoadAgentConfig ut env args =
     (case FlagSet_Parse agent_flags no_flags args of
        Inl e \<Rightarrow> Inl e
      | Inr fv \<Rightarrow>
          (let addr = normalizeAddressURL (FromEnvOrFlag env ''ADDRESS'' (flag_str fv ''a'') defaultServerAddr) in
           if \<not> ut_ParseRequestURI ut addr then Inl (ErrNew ''invalid server address'')
           else
             (let key = FromEnvOrFlag env ''KEY'' (flag_str fv ''k'') '''';
                  report = fst (FromEnvOrFlagDuration ut env ''REPORT_INTERVAL'' (flag_int fv ''r'' 0) 0 defaultReportInterval) in
              if sint report \<le> 0 then Inl (ErrNew ''report interval must be > 0'')
              else
                (let poll = fst (FromEnvOrFlagDuration ut env ''POLL_INTERVAL'' (flag_int fv ''p'' 0) 0 defaultPollInterval) in
                 if sint poll \<le> 0 then Inl (ErrNew ''poll interval must be > 0'')
                 else Inr \<lparr>ac_Address = addr, ac_Key = key, ac_PollInterval = poll, ac_ReportInterval = report,
                           ac_RateLimit = FromEnvOrFlagInt env ''RATE_LIMIT'' (flag_int fv ''l'' 0) defaultRateLimit 1\<rparr>))))"

section \<open>server.go\<close>

definition defaultListenAndServeAddr :: string where "defaultListenAndServeAddr = '':8080''"
definition defaultFilePath :: string where "defaultFilePath = ''metrics-db.json''"
definition defaultStoreInterval :: int64 where "defaultStoreInterval = 300"
definition defaultRestore :: bool where "defaultRestore = False"

record ServerConfig =
  sc_Address :: string
  sc_File :: string
  sc_DSN :: string
  sc_Key :: string
  sc_Interval :: duration
  sc_Restore :: bool
  sc_AuditFile :: string
  sc_AuditURL :: string

definition normalizeListenAndServeURL :: "urltime \<Rightarrow> string \<Rightarrow> string" where
  "normalizeListenAndServeURL ut s0 =
     (let s = TrimSpace s0;
          plain = (if \<not> Contains s '':'' then CHR '':'' # s else s)
      in if s = '''' then '':8080''
         else if HasPrefix s ''http://'' \<or> HasPrefix s ''https://'' then
           (case ut_ParseHost ut s of
              Some host \<Rightarrow> if host \<noteq> '''' then host else plain
            | None \<Rightarrow> plain)
         else plain)"

definition server_flags :: "(string \<times> flag_kind) list" where
  "server_flags =
     [(''a'', StringFlag), (''f'', StringFlag), (''d'', StringFlag), (''k'', StringFlag), (''i'', IntFlag),
      (''r'', BoolFlag), (''audit-file'', StringFlag), (''audit-url'', StringFlag)]"

definition LoadServerConfig :: "urltime \<Rightarrow> environ \<Rightarrow> string list \<Rightarrow> go_error + ServerConfig" where
  "LoadServerConfig ut env args =
     (case FlagSet_Parse server_flags no_flags args of
        Inl e \<Rightarrow> Inl e
      | Inr fv \<Rightarrow>
          (let addr = normalizeListenAndServeURL ut (FromEnvOrFlag env ''ADDRESS'' (flag_str fv ''a'') defaultListenAndServeAddr) in
           if (case SplitHostPort addr of None \<Rightarrow> True | Some (host, port) \<Rightarrow> port = '''')
           then Inl (ErrNew ''invalid listen address'')
           else
             (let interval = fst (FromEnvOrFlagDuration ut env ''STORE_INTERVAL'' (flag_int fv ''i'' (-1)) (-1) defaultStoreInterval) in
              if sint interval < 0 then Inl (ErrNew ''store interval must be >= 0'')
              else Inr \<lparr>sc_Address = addr,
                        sc_File = FromEnvOrFlag env ''FILE_STORAGE_PATH'' (flag_str fv ''f'') defaultFilePath,
                        sc_DSN = FromEnvOrFlag env ''DATABASE_DSN'' (flag_str fv ''d'') '''',
                        sc_Key = FromEnvOrFlag env ''KEY'' (flag_str fv ''k'') '''',
                        sc_Interval = interval,
                        sc_Restore = FromEnvOrFlagBool env ''RESTORE'' (flag_bool fv ''r'') defaultRestore,
                        sc_AuditFile = FromEnvOrFlag env ''AUDIT_FILE'' (flag_str fv ''audit-file'') '''',
                        sc_AuditURL = FromEnvOrFlag env ''AUDIT_URL'' (flag_str fv ''audit-url'') ''''\<rparr>)))"

section \<open>Facts\<close>

lemma FromEnvOrFlag_cases:
  "FromEnvOrFlag env k f d =
     (if TrimSpace (os_Getenv env k) \<noteq> '''' then TrimSpace (os_Getenv env k)
      else if TrimSpace f \<noteq> '''' then TrimSpace f else d)"
  by (simp add: FromEnvOrFlag_def Let_def)

lemma FromEnvOrFlagInt_min: "sint minv \<le> sint def \<Longrightarrow> sint minv \<le> sint (FromEnvOrFlagInt env k f def minv)"
  by (auto simp: FromEnvOrFlagInt_def Let_def split: option.split)

lemma normalizeAddressURL_scheme:
  "HasPrefix (normalizeAddressURL s) ''http://'' \<or> HasPrefix (normalizeAddressURL s) ''https://''"
  by (auto simp: normalizeAddressURL_def Let_def HasPrefix_iff defaultServerAddr_def)

text \<open>What an accepted agent configuration guarantees to the agent.\<close>

lemma LoadAgentConfig_ok:
  assumes "LoadAgentConfig ut env args = Inr cfg"
  shows "0 < sint (ac_PollInterval cfg)" and "0 < sint (ac_ReportInterval cfg)" and "1 \<le> sint (ac_RateLimit cfg)"
    and "HasPrefix (ac_Address cfg) ''http://'' \<or> HasPrefix (ac_Address cfg) ''https://''"
    and "ut_ParseRequestURI ut (ac_Address cfg)"
proof -
  obtain s where addr: "ac_Address cfg = normalizeAddressURL s"
    using assms by (auto simp: LoadAgentConfig_def Let_def split: sum.splits if_splits)
  show "HasPrefix (ac_Address cfg) ''http://'' \<or> HasPrefix (ac_Address cfg) ''https://''"
    unfolding addr by (rule normalizeAddressURL_scheme)
  show "0 < sint (ac_PollInterval cfg)" "0 < sint (ac_ReportInterval cfg)" "1 \<le> sint (ac_RateLimit cfg)"
    "ut_ParseRequestURI ut (ac_Address cfg)"
    using assms FromEnvOrFlagInt_min [of 1 defaultRateLimit]
    by (auto simp: LoadAgentConfig_def Let_def defaultRateLimit_def split: sum.splits if_splits)
qed

lemma LoadServerConfig_ok:
  assumes "LoadServerConfig ut env args = Inr cfg"
  shows "0 \<le> sint (sc_Interval cfg)"
    and "\<exists>host port. SplitHostPort (sc_Address cfg) = Some (host, port) \<and> port \<noteq> ''''"
  using assms by (auto simp: LoadServerConfig_def Let_def split: sum.splits if_splits option.splits prod.splits)

text \<open>\<open>net.SplitHostPort\<close> cuts at its last colon.\<close>

lemma last_colon_Some: "last_colon s = Some i \<Longrightarrow> i < length s \<and> s ! i = CHR '':'' \<and> CHR '':'' \<notin> set (drop (i + 1) s)"
proof -
  assume a: "last_colon s = Some i"
  from a have "CHR '':'' \<in> set s" by (auto simp: last_colon_def split: if_splits)
  then obtain u v where s: "s = u @ CHR '':'' # v" and v: "CHR '':'' \<notin> set v"
    using split_list_last [of "CHR '':''" s] by blast
  then have "takeWhile (\<lambda>c. c \<noteq> CHR '':'') (rev s) = rev v" by (simp add: takeWhile_stop)
  with a s have "i = length u" by (simp add: last_colon_def split: if_splits)
  with s v show ?thesis by simp
qed

lemma SplitHostPort_port:
  "SplitHostPort s = Some (host, port) \<Longrightarrow> \<exists>pre. s = pre @ CHR '':'' # port \<and> CHR '':'' \<notin> set port"
proof -
  assume a: "SplitHostPort s = Some (host, port)"
  then obtain i where i: "last_colon s = Some i" and p: "port = drop (i + 1) s"
    by (auto simp: SplitHostPort_def split: option.splits if_splits)
  note f = last_colon_Some [OF i]
  then have "s = take i s @ CHR '':'' # drop (i + 1) s" using id_take_nth_drop [of i s] by simp
  with f p show ?thesis by blast
qed

section \<open>Properties\<close>

text \<open>
  C33: an accepted agent configuration is one the agent can run with: both tickers get a positive interval
  (\<open>time.NewTicker\<close> panics otherwise), there is at least one worker, and the address has an HTTP scheme and
  was accepted as a request URI.
\<close>

theorem LoadAgentConfig_valid:
  assumes "LoadAgentConfig ut env args = Inr cfg"
  shows "0 < sint (ac_PollInterval cfg) \<and> 0 < sint (ac_ReportInterval cfg) \<and> 1 \<le> sint (ac_RateLimit cfg) \<and>
    (HasPrefix (ac_Address cfg) ''http://'' \<or> HasPrefix (ac_Address cfg) ''https://'') \<and>
    ut_ParseRequestURI ut (ac_Address cfg)"
  using LoadAgentConfig_ok [OF assms] by blast

abbreviation ut_any :: urltime where
  "ut_any \<equiv> \<lparr>ut_ParseDuration = (\<lambda>s. None), ut_ParseRequestURI = (\<lambda>s. True), ut_ParseHost = (\<lambda>s. None)\<rparr>"

theorem LoadAgentConfig_valid_witness:
  "\<exists>cfg. LoadAgentConfig ut_any [] [] = Inr cfg \<and> 0 < sint (ac_PollInterval cfg)"
proof -
  obtain cfg where c: "LoadAgentConfig ut_any [] [] = Inr cfg"
    by (simp add: LoadAgentConfig_def FromEnvOrFlagDuration_def FromEnvOrFlag_def os_Getenv_def flag_int_def flag_str_def
          no_flags_def defaultReportInterval_def defaultPollInterval_def Second_def Let_def)
  with LoadAgentConfig_valid [OF c] show ?thesis by blast
qed

text \<open>
  C39: an accepted server configuration has a store interval that is not negative and a listen address that
  ends in a colon and a non-empty port without a further colon.
\<close>

theorem LoadServerConfig_valid:
  assumes "LoadServerConfig ut env args = Inr cfg"
  shows "0 \<le> sint (sc_Interval cfg) \<and>
    (\<exists>pre port. sc_Address cfg = pre @ '':'' @ port \<and> port \<noteq> '''' \<and> CHR '':'' \<notin> set port)"
  using LoadServerConfig_ok [OF assms] SplitHostPort_port by fastforce

theorem LoadServerConfig_valid_witness:
  "\<exists>cfg. LoadServerConfig ut_any [(''STORE_INTERVAL'', ''0'')] [] = Inr cfg \<and> 0 \<le> sint (sc_Interval cfg) \<and> sc_Interval cfg = 0"
proof -
  have t: "TrimSpace '':8080'' = '':8080''" "TrimSpace ''0'' = ''0''"
    by (simp_all add: TrimSpace_def space_seqs_def trim_seqs.simps)
  obtain cfg where c: "LoadServerConfig ut_any [(''STORE_INTERVAL'', ''0'')] [] = Inr cfg" "sc_Interval cfg = 0"
    by (simp add: LoadServerConfig_def FromEnvOrFlagDuration_def FromEnvOrFlag_def os_Getenv_def flag_int_def flag_str_def
          no_flags_def normalizeListenAndServeURL_def defaultListenAndServeAddr_def HasPrefix_def SplitHostPort_def last_colon_def
          ParseInt_def is_digit_def t Let_def)
  with LoadServerConfig_valid [OF c(1)] show ?thesis by blast
qed

definition env_cli_default :: "environ \<Rightarrow> string \<Rightarrow> string \<Rightarrow> string \<Rightarrow> string" where
  "env_cli_default env k cli def =
     hd (filter (\<lambda>v. v \<noteq> '''') [TrimSpace (os_Getenv env k), TrimSpace cli] @ [def])"

text \<open>
  for every textual setting of the server the environment wins over the command line, and the command
  line over the default; a blank value counts as absent.
\<close>

theorem server_setting_precedence:
  assumes "LoadServerConfig ut env args = Inr cfg" and "FlagSet_Parse server_flags no_flags args = Inr fv"
  shows "sc_File cfg = env_cli_default env ''FILE_STORAGE_PATH'' (flag_str fv ''f'') ''metrics-db.json'' \<and>
    sc_DSN cfg = env_cli_default env ''DATABASE_DSN'' (flag_str fv ''d'') '''' \<and>
    sc_Key cfg = env_cli_default env ''KEY'' (flag_str fv ''k'') '''' \<and>
    sc_AuditFile cfg = env_cli_default env ''AUDIT_FILE'' (flag_str fv ''audit-file'') '''' \<and>
    sc_AuditURL cfg = env_cli_default env ''AUDIT_URL'' (flag_str fv ''audit-url'') ''''"
proof -
  have e: "FromEnvOrFlag env k f d = env_cli_default env k f d" for k f d
    by (simp add: FromEnvOrFlag_cases env_cli_default_def)
  obtain i b where "cfg = \<lparr>sc_Address = sc_Address cfg,
      sc_File = FromEnvOrFlag env ''FILE_STORAGE_PATH'' (flag_str fv ''f'') defaultFilePath,
      sc_DSN = FromEnvOrFlag env ''DATABASE_DSN'' (flag_str fv ''d'') '''',
      sc_Key = FromEnvOrFlag env ''KEY'' (flag_str fv ''k'') '''', sc_Interval = i, sc_Restore = b,
      sc_AuditFile = FromEnvOrFlag env ''AUDIT_FILE'' (flag_str fv ''audit-file'') '''',
      sc_AuditURL = FromEnvOrFlag env ''AUDIT_URL'' (flag_str fv ''audit-url'') ''''\<rparr>"
    using assms by (auto simp: LoadServerConfig_def Let_def split: if_splits)
  then show ?thesis
    by (metis ServerConfig.select_convs(2-4,7,8) defaultFilePath_def e)
qed

theorem server_setting_precedence_witness:
  "\<exists>cfg. LoadServerConfig ut_any [(''FILE_STORAGE_PATH'', ''8'')] [''-f'', ''9''] = Inr cfg \<and> sc_File cfg = ''8''"
proof -
  have t: "TrimSpace '':8080'' = '':8080''" "TrimSpace ''8'' = ''8''" "TrimSpace ''9'' = ''9''"
    by (simp_all add: TrimSpace_def space_seqs_def trim_seqs.simps)
  have fv: "FlagSet_Parse server_flags no_flags [''-f'', ''9''] = Inr (no_flags\<lparr>fv_str := [(''f'', ''9'')]\<rparr>)"
    by (simp add: server_flags_def no_flags_def flag_Set_def split_eq_def)
  obtain cfg where c: "LoadServerConfig ut_any [(''FILE_STORAGE_PATH'', ''8'')] [''-f'', ''9''] = Inr cfg"
    unfolding LoadServerConfig_def fv
    by (simp add: FromEnvOrFlagDuration_def FromEnvOrFlag_def os_Getenv_def flag_int_def flag_str_def
          no_flags_def normalizeListenAndServeURL_def defaultListenAndServeAddr_def HasPrefix_def SplitHostPort_def last_colon_def
          defaultStoreInterval_def Second_def t Let_def)
  from server_setting_precedence [OF c fv] c show ?thesis
    by (simp add: env_cli_default_def os_Getenv_def t)
qed

text \<open>
  an interval given in seconds is exact only between -9223372036 and 9223372036; outside, the product
  with \<open>time.Second\<close> wraps. So \<open>REPORT_INTERVAL=18446744074\<close>, 584 years, passes the check for a positive
  interval and makes the agent report every 0.29 seconds.
\<close>

theorem interval_wraps:
  assumes "TrimSpace (os_Getenv env k) \<noteq> ''''" and "ParseInt (TrimSpace (os_Getenv env k)) = Some n"
  shows "(sint (fst (FromEnvOrFlagDuration ut env k fs sent def)) = sint n * 10 ^ 9 \<longleftrightarrow>
      - 9223372036 \<le> sint n \<and> sint n \<le> 9223372036)"
proof -
  have "fst (FromEnvOrFlagDuration ut env k fs sent def) = n * Second"
    using assms by (simp add: FromEnvOrFlagDuration_def)
  moreover have "sint (n * Second) = signed_take_bit 63 (sint n * 10 ^ 9)"
    by (simp add: sint_word_ariths Second_def)
  moreover have "signed_take_bit 63 (sint n * 10 ^ 9) = sint n * 10 ^ 9 \<longleftrightarrow> - (2 ^ 63) \<le> sint n * 10 ^ 9 \<and> sint n * 10 ^ 9 < 2 ^ 63"
    by (rule signed_take_bit_int_eq_self_iff)
  ultimately show ?thesis by simp linarith
qed

theorem interval_wraps_witness:
  "ParseInt ''18446744074'' = Some 18446744074 \<and>
   fst (FromEnvOrFlagDuration ut_any [(''REPORT_INTERVAL'', ''18446744074'')] ''REPORT_INTERVAL'' 0 0 10) = 290448384 \<and>
   sint (fst (FromEnvOrFlagDuration ut_any [(''REPORT_INTERVAL'', ''18446744074'')] ''REPORT_INTERVAL'' 0 0 10)) \<noteq> 18446744074 * 10 ^ 9"
proof -
  have t: "TrimSpace ''18446744074'' = ''18446744074''"
    by (rule TrimSpace_digits) (simp_all add: is_digit_def)
  have n: "ParseInt ''18446744074'' = Some 18446744074" by (simp add: ParseInt_def is_digit_def Let_def)
  have d: "fst (FromEnvOrFlagDuration ut_any [(''REPORT_INTERVAL'', ''18446744074'')] ''REPORT_INTERVAL'' 0 0 10) = 290448384"
    by (simp add: FromEnvOrFlagDuration_def os_Getenv_def t n Second_def)
  from interval_wraps [of "[(''REPORT_INTERVAL'', ''18446744074'')]" "''REPORT_INTERVAL''" 18446744074 ut_any 0 0 10] n d t
  show ?thesis by (simp add: os_Getenv_def)
qed

end
