(* ===== verification/Server.thy ===== *)
theory Server
  imports Metrics_Service Persister Config
begin

text \<open>
  The server program (\<open>cmd/server/init.go\<close> and \<open>cmd/server/main.go\<close>): the choice of the repository, the hook
  that persists snapshots, the periodic save, the auditor, and the life of the running server as a step
  relation.

  The repository the server holds is an interface value: \<open>any_repo\<close>, with the methods of the dynamic type in
  \<open>server_repo\<close>; it satisfies the contract of a repository, and that of a repository with separate name spaces
  when it is in memory. What the program calls in libraries is the record \<open>server_env\<close>: \<open>sql.Open\<close>, \<open>SetDialect\<close> and \<open>Up\<close> of
  goose, \<open>encoding/json\<close>, \<open>net/url\<close>, the HTTP client of the audit sink and the clock. \<open>srv_out\<close> is what is
  outside the process: the file system and the warnings in the log.
\<close>

section \<open>The repository as an interface value\<close>

datatype any_repo = AnyPg pg_Repo | AnyMem mem_Repo

definition dyn :: "(pg_Repo \<Rightarrow> pg_Repo \<times> 'x) \<Rightarrow> (mem_Repo \<Rightarrow> mem_Repo \<times> 'x) \<Rightarrow> any_repo \<Rightarrow> any_repo \<times> 'x" where
  "dyn f g r = (case r of AnyPg p \<Rightarrow> apfst AnyPg (f p) | AnyMem m \<Rightarrow> apfst AnyMem (g m))"

definition server_repo :: "any_repo MetricsRepo" where
  "server_repo =
     \<lparr>repo_GetGauge = (\<lambda>c n. dyn (pg_GetGauge c n) (mem_GetGauge c n)),
      repo_GetCounter = (\<lambda>c n. dyn (pg_GetCounter c n) (mem_GetCounter c n)),
      repo_SetGauge = (\<lambda>c n v. dyn (pg_SetGauge c n v) (mem_SetGauge c n v)),
      repo_AddCounter = (\<lambda>c n d. dyn (pg_AddCounter c n d) (mem_AddCounter c n d)),
      repo_UpdateMany = (\<lambda>c ms. dyn (pg_UpdateMany c ms) (mem_UpdateMany c ms)),
      repo_Snapshot = (\<lambda>c. dyn (pg_Snapshot c) (mem_Snapshot c)),
      repo_Ping = (\<lambda>c. dyn (pg_Ping c) (mem_Ping c))\<rparr>"

section \<open>Outside the process\<close>

record srv_out =
  so_fs :: fs
  so_warn :: "(string \<times> go_error) list"

record server_env =
  se_sqlOpen :: "string \<Rightarrow> go_error option"
  se_SetDialect :: "string \<Rightarrow> go_error option"
  se_gooseUp :: "string \<Rightarrow> pg_Repo \<Rightarrow> pg_Repo \<times> go_error option"
  se_text :: "Metrics list \<Rightarrow> string"
  se_decode :: "string \<Rightarrow> go_error + Metrics list"
  se_marshal :: "Event \<Rightarrow> string"
  se_parseURI :: "string \<Rightarrow> go_error option"
  se_newRequest :: "string \<Rightarrow> go_error option"
  se_httpDo :: "string \<Rightarrow> string \<Rightarrow> srv_out \<Rightarrow> srv_out \<times> (go_error + http_answer)"
  se_now :: "srv_out \<Rightarrow> int64"

definition warn :: "string \<Rightarrow> go_error \<Rightarrow> srv_out \<Rightarrow> srv_out" where
  "warn msg e out = out\<lparr>so_warn := so_warn out @ [(msg, e)]\<rparr>"

definition warn_if :: "string \<Rightarrow> go_error option \<Rightarrow> srv_out \<Rightarrow> srv_out" where
  "warn_if msg x out = (case x of None \<Rightarrow> out | Some e \<Rightarrow> warn msg e out)"

section \<open>init.go\<close>

definition ping_and_migrate :: "server_env \<Rightarrow> pg_Repo \<Rightarrow> pg_Repo \<times> go_error option" where
  "ping_and_migrate env w =
     (case pg_exec Inr w of
        (w1, Some err) \<Rightarrow> (w1, Some err)
      | (w1, None) \<Rightarrow> Migrate (se_SetDialect env) (se_gooseUp env) w1)"

text \<open>
  \<open>Inr\<close>: the connected database; \<open>Inl\<close>: the error of the attempt, or \<open>None\<close> when no DSN is configured. The context
  is \<open>context.Background()\<close>, which never ends.
\<close>

definition open_postgres :: "server_env \<Rightarrow> ServerConfig \<Rightarrow> pg_Repo \<Rightarrow> go_error option + pg_Repo" where
  "open_postgres env cfg db =
     (if sc_DSN cfg \<noteq> '''' then
        (case se_sqlOpen env (sc_DSN cfg) of
           Some err \<Rightarrow> Inl (Some err)
         | None \<Rightarrow>
             (case Retry live (\<lambda>d. live) DefaultBackoff isRetryablePG (ping_and_migrate env) db of
                (db1, None) \<Rightarrow> Inr db1
              | (db1, Some err) \<Rightarrow> Inl (Some err)))
      else Inl None)"

definition buildRepoAndPersister ::
  "server_env \<Rightarrow> ServerConfig \<Rightarrow> pg_Repo \<Rightarrow> srv_out \<Rightarrow> any_repo \<times> string option \<times> srv_out" where
  "buildRepoAndPersister env cfg db out =
     (case open_postgres env cfg db of
        Inr db1 \<Rightarrow> (AnyPg db1, None, out)
      | Inl failed \<Rightarrow>
          (let out1 = warn_if ''postgres init failed, falling back to memory'' failed out; path = sc_File cfg in
           if sc_Restore cfg then
             (case Persister_Restore (se_decode env) path memory_repo Background (so_fs out1, mem_New) of
                ((s, r), e) \<Rightarrow> (AnyMem r, Some path, warn_if ''restore failed'' e (out1\<lparr>so_fs := s\<rparr>)))
           else (AnyMem mem_New, Some path, out1)))"

section \<open>main.go\<close>

definition onChanged :: "server_env \<Rightarrow> string option \<Rightarrow> go_context \<Rightarrow> Snapshot \<Rightarrow> srv_out \<Rightarrow> srv_out" where
  "onChanged env persister c snap out =
     (case persister of
        None \<Rightarrow> out
      | Some path \<Rightarrow>
          (case Persister_Save (se_text env) path snap (so_fs out) of
             (s, e) \<Rightarrow> warn_if ''save failed'' e (out\<lparr>so_fs := s\<rparr>)))"

definition audit_file_observer :: "server_env \<Rightarrow> string \<Rightarrow> (Event, srv_out) observer" where
  "audit_file_observer env path c evt out =
     (case Writer_Notify (se_marshal env) (Some path) evt (so_fs out) of (s, e) \<Rightarrow> (out\<lparr>so_fs := s\<rparr>, e))"

definition audit_remote_observer :: "server_env \<Rightarrow> string \<Rightarrow> (Event, srv_out) observer" where
  "audit_remote_observer env url c evt out =
     remote_Notify (se_marshal env) (se_newRequest env) (se_httpDo env) (Some url) evt out"

text \<open>\<open>Inl\<close> is the \<open>logger.Fatal\<close> of an invalid audit URL, which ends the process.\<close>

definition buildAuditor :: "server_env \<Rightarrow> ServerConfig \<Rightarrow> go_error + (Event, srv_out) Subject option" where
  "buildAuditor env cfg =
     (if sc_AuditFile cfg = '''' \<and> sc_AuditURL cfg = '''' then Inr None
      else
        (let s1 = SetErrorHandler (Some (warn ''audit delivery failed'')) (Some (NewSubject []));
             s2 = (if sc_AuditFile cfg \<noteq> '''' then Attach [Some (audit_file_observer env (sc_AuditFile cfg))] s1 else s1)
         in if sc_AuditURL cfg \<noteq> '''' then
              (case remote_New (se_parseURI env) (sc_AuditURL cfg) of
                 Inl err \<Rightarrow> Inl err
               | Inr client \<Rightarrow> Inr (Attach [Some (audit_remote_observer env client)] s2))
            else Inr s2))"

record server =
  sv_svc :: "(any_repo, srv_out) Service"
  sv_persister :: "string option"
  sv_periodic :: bool

text \<open>\<open>run\<close> up to \<open>ListenAndServe\<close>: the server and the state it starts with.\<close>

definition server_start ::
  "server_env \<Rightarrow> ServerConfig \<Rightarrow> pg_Repo \<Rightarrow> srv_out \<Rightarrow> go_error + server \<times> (any_repo, srv_out) svc_world" where
  "server_start env cfg db out =
     (let (repo, persister, out1) = buildRepoAndPersister env cfg db out in
      case buildAuditor env cfg of
        Inl err \<Rightarrow> Inl err
      | Inr auditor \<Rightarrow>
          (let (svc, w) = svc_New server_repo (Some (onChanged env persister))
                            (case auditor of None \<Rightarrow> None | Some sub \<Rightarrow> Some (Publish (Some sub))) (se_now env) repo out1
           in Inr (\<lparr>sv_svc = svc, sv_persister = persister,
                    sv_periodic = (sc_DSN cfg = '''' \<and> 0 < sint (sc_Interval cfg))\<rparr>, w)))"

text \<open>One tick of the periodic save.\<close>

definition periodic_save :: "server_env \<Rightarrow> server \<Rightarrow> (any_repo, srv_out) svc_world \<Rightarrow> (any_repo, srv_out) svc_world" where
  "periodic_save env sv w =
     (case repo_Snapshot (svc_repo (sv_svc sv)) Background (w_repo w) of
        (r, Inl err) \<Rightarrow> w\<lparr>w_repo := r\<rparr>
      | (r, Inr snap) \<Rightarrow>
          (case sv_persister sv of
             None \<Rightarrow> w\<lparr>w_repo := r\<rparr>
           | Some path \<Rightarrow>
               (case Persister_Save (se_text env) path snap (so_fs (w_out w)) of
                  (s, e) \<Rightarrow> w\<lparr>w_repo := r, w_out := warn_if ''periodic save failed'' e ((w_out w)\<lparr>so_fs := s\<rparr>)\<rparr>)))"

section \<open>The running server\<close>

text \<open>
  The steps of a running server, in any order: requests that update one metric or a batch, that read metrics or
  ping the storage, turns of the audit dispatcher, ticks of the periodic save. A request is one step here; the steps it
  consists of, and their interleavings, are those of \<open>Concurrent_Updates\<close>. The list collects the metrics the server has acknowledged, as they
  were stored.
\<close>

inductive server_reach ::
  "server_env \<Rightarrow> server \<Rightarrow> (any_repo, srv_out) svc_world \<Rightarrow> (any_repo, srv_out) svc_world \<Rightarrow> Metrics list \<Rightarrow> bool"
  for env :: server_env and sv :: server and w0 :: "(any_repo, srv_out) svc_world" where
  start: "server_reach env sv w0 w0 []"
| update: "server_reach env sv w0 w ms \<Longrightarrow> svc_Upsert (sv_svc sv) c m w = (w', Inr x) \<Longrightarrow>
     server_reach env sv w0 w' (ms @ [m\<lparr>ID := TrimSpace (ID m)\<rparr>])"
| update_refused: "server_reach env sv w0 w ms \<Longrightarrow> svc_Upsert (sv_svc sv) c m w = (w', Inl e) \<Longrightarrow>
     server_reach env sv w0 w' ms"
| batch: "server_reach env sv w0 w ms \<Longrightarrow> svc_UpsertBatch (sv_svc sv) c items w = (w', Inr n) \<Longrightarrow>
     server_reach env sv w0 w' (ms @ valid_items items)"
| batch_refused: "server_reach env sv w0 w ms \<Longrightarrow> svc_UpsertBatch (sv_svc sv) c items w = (w', Inl e) \<Longrightarrow>
     server_reach env sv w0 w' ms"
| get: "server_reach env sv w0 w ms \<Longrightarrow> svc_Get (sv_svc sv) c t n w = (w', y) \<Longrightarrow> server_reach env sv w0 w' ms"
| snapshot: "server_reach env sv w0 w ms \<Longrightarrow> svc_Snapshot (sv_svc sv) c w = (w', z) \<Longrightarrow> server_reach env sv w0 w' ms"
| ping: "server_reach env sv w0 w ms \<Longrightarrow> svc_Ping (sv_svc sv) c w = (w', e) \<Longrightarrow> server_reach env sv w0 w' ms"
| audit: "server_reach env sv w0 w ms \<Longrightarrow> dispatch (sv_svc sv) w = Some w' \<Longrightarrow> server_reach env sv w0 w' ms"
| tick: "server_reach env sv w0 w ms \<Longrightarrow> sv_periodic sv \<Longrightarrow> server_reach env sv w0 (periodic_save env sv w) ms"

section \<open>The contract of the interface value\<close>

definition any_gauge_of :: "any_repo \<Rightarrow> string \<Rightarrow> float64 option" where
  "any_gauge_of r = (case r of AnyPg p \<Rightarrow> pg_gauge_of p | AnyMem m \<Rightarrow> mem_gauge_of m)"

definition any_counter_of :: "any_repo \<Rightarrow> string \<Rightarrow> int64 option" where
  "any_counter_of r = (case r of AnyPg p \<Rightarrow> pg_counter_of p | AnyMem m \<Rightarrow> mem_counter_of m)"

definition any_inv :: "any_repo \<Rightarrow> bool" where
  "any_inv r = (case r of AnyPg p \<Rightarrow> pg_inv p | AnyMem m \<Rightarrow> mem_inv m)"

definition mem_backed :: "any_repo \<Rightarrow> bool" where
  "mem_backed r = (case r of AnyPg p \<Rightarrow> False | AnyMem m \<Rightarrow> mem_inv m)"

lemmas any_abs_defs = any_gauge_of_def any_counter_of_def any_inv_def mem_backed_def

lemma dyn_run:
  "dyn f g r = (r', x) \<longleftrightarrow>
     (\<exists>p p'. r = AnyPg p \<and> r' = AnyPg p' \<and> f p = (p', x)) \<or> (\<exists>m m'. r = AnyMem m \<and> r' = AnyMem m' \<and> g m = (m', x))"
  by (cases r) (auto simp: dyn_def apfst_def map_prod_def split: prod.splits)

lemma server_repo_sel [simp]:
  "repo_GetGauge server_repo c n = dyn (pg_GetGauge c n) (mem_GetGauge c n)"
  "repo_GetCounter server_repo c n = dyn (pg_GetCounter c n) (mem_GetCounter c n)"
  "repo_SetGauge server_repo c n v = dyn (pg_SetGauge c n v) (mem_SetGauge c n v)"
  "repo_AddCounter server_repo c n d = dyn (pg_AddCounter c n d) (mem_AddCounter c n d)"
  "repo_UpdateMany server_repo c ms = dyn (pg_UpdateMany c ms) (mem_UpdateMany c ms)"
  "repo_Snapshot server_repo c = dyn (pg_Snapshot c) (mem_Snapshot c)"
  by (simp_all add: server_repo_def)

lemmas pg_laws =
  pg.get_gauge_frame [unfolded postgres_repo_sel] pg.get_gauge_ok [unfolded postgres_repo_sel]
  pg.get_counter_frame [unfolded postgres_repo_sel] pg.get_counter_ok [unfolded postgres_repo_sel]
  pg.set_gauge_inv [unfolded postgres_repo_sel] pg.set_gauge_ok [unfolded postgres_repo_sel]
  pg.set_gauge_frame [unfolded postgres_repo_sel] pg.set_gauge_err [unfolded postgres_repo_sel]
  pg.add_counter_inv [unfolded postgres_repo_sel] pg.add_counter_ok [unfolded postgres_repo_sel]
  pg.add_counter_frame [unfolded postgres_repo_sel] pg.add_counter_err [unfolded postgres_repo_sel]
  pg.update_many_inv [unfolded postgres_repo_sel] pg.update_many_frame [unfolded postgres_repo_sel]
  pg.update_many_err [unfolded postgres_repo_sel] pg.snapshot_frame [unfolded postgres_repo_sel]
  pg.snapshot_ok [unfolded postgres_repo_sel]

lemmas mem_laws =
  mem.get_gauge_frame [unfolded memory_repo_sel] mem.get_gauge_ok [unfolded memory_repo_sel]
  mem.get_counter_frame [unfolded memory_repo_sel] mem.get_counter_ok [unfolded memory_repo_sel]
  mem.set_gauge_inv [unfolded memory_repo_sel] mem.set_gauge_ok [unfolded memory_repo_sel]
  mem.set_gauge_frame [unfolded memory_repo_sel] mem.set_gauge_err [unfolded memory_repo_sel]
  mem.add_counter_inv [unfolded memory_repo_sel] mem.add_counter_ok [unfolded memory_repo_sel]
  mem.add_counter_frame [unfolded memory_repo_sel] mem.add_counter_err [unfolded memory_repo_sel]
  mem.update_many_inv [unfolded memory_repo_sel] mem.update_many_frame [unfolded memory_repo_sel]
  mem.update_many_err [unfolded memory_repo_sel] mem.snapshot_frame [unfolded memory_repo_sel]
  mem.snapshot_ok [unfolded memory_repo_sel]

interpretation srv: metrics_repo server_repo any_gauge_of any_counter_of any_inv
  by unfold_locales
    (unfold server_repo_sel dyn_run any_abs_defs, (elim disjE exE conjE; simp; blast dest: pg_laws mem_laws)+)

text \<open>Held in memory, it is a repository with separate name spaces that never fails.\<close>

lemma mem_backed_iff: "mem_backed r \<longleftrightarrow> (\<exists>m. r = AnyMem m \<and> mem_inv m)"
  by (cases r) (auto simp: mem_backed_def)

lemma dyn_mem [simp]: "dyn f g (AnyMem m) = apfst AnyMem (g m)"
  by (simp add: dyn_def)

lemma any_of_mem [simp]: "any_gauge_of (AnyMem m) = mem_gauge_of m" "any_counter_of (AnyMem m) = mem_counter_of m"
  by (simp_all add: any_abs_defs)

interpretation srvm: separate_repo server_repo any_gauge_of any_counter_of mem_backed
proof (intro separate_repo.intro separate_repo_axioms.intro)
  show "metrics_repo server_repo any_gauge_of any_counter_of mem_backed"
    by unfold_locales
      (unfold server_repo_sel dyn_run any_abs_defs, (elim disjE exE conjE; simp; blast dest: mem_laws)+)
qed (use mem.get_gauge_total mem.get_counter_total mem.set_gauge_total mem.set_gauge_separate mem.add_counter_total
      mem.add_counter_separate mem.update_many_total mem.update_many_gauges mem.update_many_counters mem.snapshot_total
     in \<open>(unfold mem_backed_iff memory_repo_sel server_repo_sel, elim exE conjE, simp)+\<close>)

text \<open>
  Whatever the network does, the rows in Postgres are typed and the maps in memory well formed.
\<close>

definition repo_typed :: "any_repo \<Rightarrow> bool" where
  "repo_typed r = (case r of AnyPg p \<Rightarrow> table_ok (db_table p) | AnyMem m \<Rightarrow> mem_inv m)"

lemma dyn_keeps:
  assumes "\<And>p. P p \<Longrightarrow> P (fst (f p))" and "\<And>m. Q m \<Longrightarrow> Q (fst (g m))"
    and "case r of AnyPg p \<Rightarrow> P p | AnyMem m \<Rightarrow> Q m"
  shows "case fst (dyn f g r) of AnyPg p \<Rightarrow> P p | AnyMem m \<Rightarrow> Q m"
  using assms by (cases r) (simp_all add: dyn_def)

interpretation srvt: repo_keeps server_repo repo_typed
  by unfold_locales
    (unfold server_repo_sel repo_typed_def,
     (rule dyn_keeps [rotated 2], assumption,
      use pgt.repo_keeps_axioms mem.weak.repo_keeps_axioms in \<open>simp add: repo_keeps_def\<close>,
      use pgt.repo_keeps_axioms mem.weak.repo_keeps_axioms in \<open>simp add: repo_keeps_def\<close>)+)

section \<open>Single updates on a repository with separate name spaces\<close>

context separate_repo
begin

text \<open>An acknowledged update is the abstract effect of its metric; a refused one has none.\<close>

lemma Upsert_spec:
  assumes s: "svc_repo s = R" and i: "inv (w_repo w)" and run: "svc_Upsert s c m w = (w', Inr x)"
  shows "inv (w_repo w') \<and> gauge_of (w_repo w') = spec_gauges [m\<lparr>ID := TrimSpace (ID m)\<rparr>] (gauge_of (w_repo w)) \<and>
         counter_of (w_repo w') = spec_counters [m\<lparr>ID := TrimSpace (ID m)\<rparr>] (counter_of (w_repo w))"
proof -
  let ?i = "TrimSpace (ID m)" and ?m = "m\<lparr>ID := TrimSpace (ID m)\<rparr>"
  from run consider (g) "MType m = Gauge" | (c) "MType m = Counter"
    by (auto simp: svc_Upsert_def Let_def split: if_splits)
  then show ?thesis
  proof cases
    case g
    from Upsert_gauge [OF s i g run] obtain v where v: "Value m = Some v" "inv (w_repo w')"
        "gauge_of (w_repo w') = (gauge_of (w_repo w))(?i \<mapsto> v)" by blast
    obtain r e where sg: "repo_SetGauge R c ?i v (w_repo w) = (r, e)" by fastforce
    from run s g v sg have fin: "upsert_finish s c ?m (w\<lparr>w_repo := r\<rparr>, None) = (w', Inr x)"
      using set_gauge_total [OF i, of c ?i v] by (auto simp: svc_Upsert_def Let_def split: if_splits)
    from upsert_finish_facts [OF s _ fin] set_gauge_inv [OF i sg] have "counter_of (w_repo w') = counter_of r" by simp
    with set_gauge_separate [OF i, of c ?i v] sg v g show ?thesis by simp
  next
    case c
    from Upsert_counter [OF s i c run] obtain d where d: "Delta m = Some d" "inv (w_repo w')"
        "counter_of (w_repo w') = (counter_of (w_repo w))(?i \<mapsto> counter_or_zero (counter_of (w_repo w) ?i) + d)" by blast
    obtain r e where ac: "repo_AddCounter R c ?i d (w_repo w) = (r, e)" by fastforce
    from run s c d ac have fin: "upsert_finish s c ?m (w\<lparr>w_repo := r\<rparr>, None) = (w', Inr x)"
      using add_counter_total [OF i, of c ?i d] by (auto simp: svc_Upsert_def Let_def split: if_splits)
    from upsert_finish_facts [OF s _ fin] add_counter_inv [OF i ac] have "gauge_of (w_repo w') = gauge_of r" by simp
    with add_counter_separate [OF i, of c ?i d] ac d c show ?thesis by simp
  qed
qed

lemma upsert_finish_total:
  assumes s: "svc_repo s = R" and i: "inv (w_repo w1)" and n: "ID m \<noteq> ''''" "TrimSpace (ID m) = ID m"
    and stored: "MType m = Gauge \<and> gauge_of (w_repo w1) (ID m) \<noteq> None \<or> MType m = Counter \<and> counter_of (w_repo w1) (ID m) \<noteq> None"
  shows "\<exists>w2 x. upsert_finish s c m (w1, None) = (w2, Inr x)"
proof -
  obtain w2 y where g: "svc_Get s c (MType m) (ID m) w1 = (w2, y)" by fastforce
  have "snd (repo_GetGauge R c (ID m) (w_repo w1)) = (case gauge_of (w_repo w1) (ID m) of None \<Rightarrow> Inl ErrNotFound | Some v \<Rightarrow> Inr v)"
    "snd (repo_GetCounter R c (ID m) (w_repo w1)) = (case counter_of (w_repo w1) (ID m) of None \<Rightarrow> Inl ErrNotFound | Some d \<Rightarrow> Inr d)"
    using get_gauge_total [OF i] get_counter_total [OF i] by auto
  with g s n stored have "\<exists>x. y = Inr x" by (auto simp: svc_Get_def Let_def split: prod.splits sum.splits)
  with g show ?thesis by (auto simp: upsert_finish_def)
qed

lemma Upsert_refused:
  assumes s: "svc_repo s = R" and i: "inv (w_repo w)" and run: "svc_Upsert s c m w = (w', Inl e)"
  shows "w' = w"
proof (rule ccontr)
  let ?i = "TrimSpace (ID m)" and ?m = "m\<lparr>ID := TrimSpace (ID m)\<rparr>"
  assume "w' \<noteq> w"
  with run have n: "?i \<noteq> ''''" by (auto simp: svc_Upsert_def)
  from run \<open>w' \<noteq> w\<close> n consider (g) v where "MType m = Gauge" "Value m = Some v" | (c) d where "MType m = Counter" "Delta m = Some d"
    by (auto simp: svc_Upsert_def Let_def split: if_splits option.splits)
  then show False
  proof cases
    case g
    obtain r where sg: "repo_SetGauge R c ?i v (w_repo w) = (r, None)"
      using set_gauge_total [OF i, of c ?i v] by (metis prod.collapse)
    have fin: "upsert_finish s c ?m (w\<lparr>w_repo := r\<rparr>, None) = (w', Inl e)"
      using run s g n sg by (simp add: svc_Upsert_def Let_def)
    have "gauge_of r ?i \<noteq> None" using set_gauge_ok [OF i sg] by simp
    then show False using upsert_finish_total [of s "w\<lparr>w_repo := r\<rparr>" ?m c] s set_gauge_inv [OF i sg] n g fin by auto
  next
    case c
    obtain r where ac: "repo_AddCounter R c ?i d (w_repo w) = (r, None)"
      using add_counter_total [OF i, of c ?i d] by (metis prod.collapse)
    have fin: "upsert_finish s c ?m (w\<lparr>w_repo := r\<rparr>, None) = (w', Inl e)"
      using run s c n ac by (simp add: svc_Upsert_def Let_def)
    have "counter_of r ?i \<noteq> None" using add_counter_ok [OF i ac] by simp
    then show False using upsert_finish_total [of s "w\<lparr>w_repo := r\<rparr>" ?m c] s add_counter_inv [OF i ac] n c fin by auto
  qed
qed

end

section \<open>The history of a running server\<close>

text \<open>What \<open>run\<close> wires together.\<close>

definition wired :: "server_env \<Rightarrow> server \<Rightarrow> bool" where
  "wired env sv \<longleftrightarrow> svc_repo (sv_svc sv) = server_repo \<and> svc_onChanged (sv_svc sv) = Some (onChanged env (sv_persister sv))"

lemma server_start_wired:
  assumes "server_start env cfg db out = Inr (sv, w0)"
  shows "wired env sv" and "buildRepoAndPersister env cfg db out = (w_repo w0, sv_persister sv, w_out w0)"
    and "svc_auditor (sv_svc sv) = None \<or> w_queue w0 \<noteq> None"
    and "sv_periodic sv = (sc_DSN cfg = '''' \<and> 0 < sint (sc_Interval cfg))"
  using assms
  by (auto simp: server_start_def svc_New_def initAuditDispatcher_def wired_def Let_def split: prod.splits sum.splits if_splits)

text \<open>Reading, on a server in memory, changes nothing.\<close>

lemma memory_reads:
  assumes "wired env sv" and "mem_backed (w_repo w)"
  shows "svc_Get (sv_svc sv) c t n w = (w', x) \<Longrightarrow> w' = w" and "svc_Snapshot (sv_svc sv) c w = (w', y) \<Longrightarrow> w' = w"
    and "svc_Ping (sv_svc sv) c w = (w', z) \<Longrightarrow> w' = w"
  using assms
  by (auto simp: wired_def mem_backed_iff svc_Get_def svc_Snapshot_def svc_Ping_def server_repo_def dyn_def mem_op_defs mem_Snapshot_def
      mem_Ping_def Let_def split: if_splits option.splits)

text \<open>Pings and reads keep the tables of a database typed.\<close>

lemma server_ping_keeps: "repo_typed r \<Longrightarrow> repo_typed (fst (repo_Ping server_repo c r))"
proof (cases r)
  case (AnyPg p)
  moreover have "table_ok (db_table p) \<Longrightarrow> table_ok (db_table (fst (pg_Ping c p)))"
    unfolding pg_Ping_def using pg_write_typed [OF pg_exec_once, of Inr p] by auto
  ultimately show "repo_typed r \<Longrightarrow> ?thesis" by (auto simp: server_repo_def dyn_def repo_typed_def)
qed (auto simp: server_repo_def dyn_def repo_typed_def mem_Ping_def)

lemma memory_history:
  assumes "server_reach env sv w0 w ms" and ok: "wired env sv" and start: "mem_backed (w_repo w0)"
  shows "mem_backed (w_repo w) \<and> any_gauge_of (w_repo w) = spec_gauges ms (any_gauge_of (w_repo w0)) \<and>
         any_counter_of (w_repo w) = spec_counters ms (any_counter_of (w_repo w0))"
  using assms(1)
proof (induction rule: server_reach.induct)
  case start
  with assms(3) show ?case by simp
next
  case (update w ms c m w' x)
  with srvm.Upsert_spec [of "sv_svc sv" w c m w' x] ok show ?case
    by (simp add: wired_def spec_gauges_append spec_counters_append)
next
  case (update_refused w ms c m w' e)
  with srvm.Upsert_refused [of "sv_svc sv" w c m w' e] ok show ?case by (simp add: wired_def)
next
  case (batch w ms c items w' n)
  have "valid_items items \<noteq> []" using batch.hyps by (auto simp: svc_UpsertBatch_def batch_loop_valid split: if_splits)
  with srvm.UpsertBatch_applies [of "sv_svc sv" w items c] batch ok show ?case
    by (auto simp: wired_def spec_gauges_append spec_counters_append)
next
  case (batch_refused w ms c items w' e)
  with srvm.UpsertBatch_error [of "sv_svc sv" w c items w' e] ok show ?case by (simp add: wired_def)
next
  case (get w ms c t n w' y)
  with memory_reads(1) [OF ok] show ?case by blast
next
  case (snapshot w ms c w' z)
  with memory_reads(2) [OF ok] show ?case by blast
next
  case (ping w ms c w' e)
  with memory_reads(3) [OF ok] show ?case by blast
next
  case (audit w ms w')
  then have "w_repo w' = w_repo w" by (auto simp: dispatch_def split: if_splits option.splits list.splits)
  with audit show ?case by simp
next
  case (tick w ms)
  obtain r z where sn: "repo_Snapshot server_repo Background (w_repo w) = (r, z)" by fastforce
  with ok have "w_repo (periodic_save env sv w) = r"
    by (auto simp: periodic_save_def wired_def split: sum.splits option.splits prod.splits)
  with srvm.snapshot_frame [OF _ sn] tick show ?case by simp
qed

text \<open>Every repository the server can start with is typed, when the migration leaves a typed table.\<close>

lemma typed_history:
  assumes "server_reach env sv w0 w ms" and ok: "wired env sv" and start: "repo_typed (w_repo w0)"
  shows "repo_typed (w_repo w)"
  using assms(1)
proof (induction rule: server_reach.induct)
  case start
  with assms(3) show ?case .
next
  case (update w ms c m w' x)
  with srvt.Upsert_keeps [of "sv_svc sv" w c m] ok show ?case by (simp add: wired_def)
next
  case (update_refused w ms c m w' e)
  with srvt.Upsert_keeps [of "sv_svc sv" w c m] ok show ?case by (simp add: wired_def)
next
  case (batch w ms c items w' n)
  with srvt.UpsertBatch_keeps [of "sv_svc sv" w c items] ok show ?case by (simp add: wired_def)
next
  case (batch_refused w ms c items w' e)
  with srvt.UpsertBatch_keeps [of "sv_svc sv" w c items] ok show ?case by (simp add: wired_def)
next
  case (get w ms c t n w' y)
  with srvt.Get_keeps [of "sv_svc sv" w c t n] ok show ?case by (simp add: wired_def)
next
  case (snapshot w ms c w' z)
  with srvt.keeps_snapshot [of "w_repo w" c] ok show ?case
    by (auto simp: svc_Snapshot_def wired_def simp del: server_repo_sel split: prod.splits)
next
  case (ping w ms c w' e)
  with server_ping_keeps [of "w_repo w" c] ok show ?case by (auto simp: svc_Ping_def wired_def split: prod.splits)
next
  case (audit w ms w')
  then have "w_repo w' = w_repo w" by (auto simp: dispatch_def split: if_splits option.splits list.splits)
  with audit show ?case by simp
next
  case (tick w ms)
  with srvt.keeps_snapshot [of "w_repo w" Background] ok show ?case
    by (auto simp: periodic_save_def wired_def simp del: server_repo_sel split: sum.split option.split prod.split)
qed

text \<open>What the migration keeps, the whole start-up keeps.\<close>

lemma open_postgres_typed:
  assumes "open_postgres env cfg db = Inr db'" and "table_ok (db_table db)"
    and migrate: "\<And>u. table_ok (db_table u) \<Longrightarrow> table_ok (db_table (fst (se_gooseUp env ''migrations'' u)))"
  shows "table_ok (db_table db')"
proof -
  let ?I = "\<lambda>u. table_ok (db_table u)"
  have step: "?I u'" if "ping_and_migrate env u = (u', x)" "?I u" for u u' x
  proof -
    obtain u1 y where e: "pg_exec Inr u = (u1, y)" by fastforce
    have "db_table u1 = db_table u" using pg_exec_once [of Inr] e unfolding pg_once_def by fastforce
    with that e migrate [of u1] show ?thesis by (auto simp: ping_and_migrate_def Migrate_def split: option.splits)
  qed
  from assms(1) obtain x where r: "Retry live (\<lambda>d. live) DefaultBackoff isRetryablePG (ping_and_migrate env) db = (db', x)"
    by (auto simp: open_postgres_def split: if_splits option.splits prod.splits)
  have "case x of None \<Rightarrow> ?I db' | Some e \<Rightarrow> ?I db'"
    by (rule Retry_rule [where I = ?I and Q = ?I, OF _ _ _ _ r assms(2)]) (auto dest: step)
  then show ?thesis by (cases x) auto
qed

lemma Restore_keeps: "mem_inv r \<Longrightarrow> mem_inv (snd (fst (Persister_Restore dec path memory_repo c (s, r))))"
  using mem.weak.keeps_update_many [of r c]
  by (auto simp: Persister_Restore_def Let_def split_beta split: sum.split)

lemma server_start_typed:
  assumes "server_start env cfg db out = Inr (sv, w0)" and "table_ok (db_table db)"
    and "\<And>u. table_ok (db_table u) \<Longrightarrow> table_ok (db_table (fst (se_gooseUp env ''migrations'' u)))"
  shows "repo_typed (w_repo w0)"
proof -
  have b: "buildRepoAndPersister env cfg db out = (w_repo w0, sv_persister sv, w_out w0)"
    by (rule server_start_wired(2) [OF assms(1)])
  show ?thesis
  proof (cases "open_postgres env cfg db")
    case (Inr db')
    with b have "w_repo w0 = AnyPg db'" by (simp add: buildRepoAndPersister_def)
    with open_postgres_typed [OF Inr assms(2,3)] show ?thesis by (simp add: repo_typed_def)
  next
    case (Inl failed)
    have n: "mem_inv mem_New" by (simp add: mem_New_def mem_inv_def)
    have "w_repo w0 = fst (buildRepoAndPersister env cfg db out)" using b by simp
    with Inl Restore_keeps [OF n, of "se_decode env" "sc_File cfg" Background] n show ?thesis
      by (simp add: buildRepoAndPersister_def repo_typed_def Let_def split_beta)
  qed
qed

section \<open>The audit channel of a running server\<close>

definition audit_on :: "(any_repo, srv_out) Service \<Rightarrow> (any_repo, srv_out) svc_world \<Rightarrow> bool" where
  "audit_on s w \<longleftrightarrow> svc_auditor s = None \<or> w_queue w \<noteq> None"

lemma notifyAudit_on:
  "audit_on s w \<Longrightarrow> audit_on s (notifyAudit s c ns w) \<and> w_out (notifyAudit s c ns w) = w_out w"
  by (auto simp: audit_on_def notifyAudit_def enqueueAudit_def Let_def split: if_splits)

lemma audit_on_repo [simp]: "audit_on s (w\<lparr>w_repo := r\<rparr>) = audit_on s w" "audit_on s (w\<lparr>w_out := out\<rparr>) = audit_on s w"
  by (simp_all add: audit_on_def)

lemma Get_on: "svc_Get s c t n w = (w', x) \<Longrightarrow> \<exists>r. w' = w\<lparr>w_repo := r\<rparr>"
  by (cases w) (auto simp: svc_Get_def Let_def split: if_splits prod.splits sum.splits)

lemma upsert_finish_on:
  assumes "upsert_finish s c m (w1, e) = (w', x)" and "audit_on s w1"
  shows "audit_on s w' \<and> w_out w' = w_out w1"
proof (cases e)
  case (Some err)
  with assms show ?thesis by (simp add: upsert_finish_def)
next
  case None
  obtain w2 y where g: "svc_Get s c (MType m) (ID m) w1 = (w2, y)" by fastforce
  from Get_on [OF g] assms(2) have on: "audit_on s w2" "w_out w2 = w_out w1" by auto
  with g None assms(1) notifyAudit_on [OF on(1), of c "[ID m]"] show ?thesis
    by (auto simp: upsert_finish_def split: sum.splits)
qed

text \<open>A single update touches nothing outside the process: not the disk, not the log.\<close>

lemma Upsert_on:
  assumes "svc_Upsert s c m w = (w', x)" and on: "audit_on s w"
  shows "audit_on s w' \<and> w_out w' = w_out w"
proof -
  have fin: "audit_on s w' \<and> w_out w' = w_out w" if "upsert_finish s c m' (case p of (r, e) \<Rightarrow> (w\<lparr>w_repo := r\<rparr>, e)) = (w', x)" for m' p
    using that upsert_finish_on [of s c m' "w\<lparr>w_repo := fst p\<rparr>" "snd p" w' x] on by (auto simp: split_beta)
  from assms show ?thesis
    by (auto simp: svc_Upsert_def Let_def split: if_splits option.splits dest: fin)
qed

lemma UpsertBatch_on:
  assumes "svc_UpsertBatch s c items w = (w', x)" and on: "audit_on s w"
  shows "audit_on s w'"
  using assms notifyAudit_on [of s "w\<lparr>w_repo := r\<rparr>" c "map ID (valid_items items)" for r]
  by (auto simp: svc_UpsertBatch_def batch_loop_valid Let_def split: if_splits prod.splits option.splits sum.splits)

lemma reach_audit_on:
  assumes "server_reach env sv w0 w ms" and "audit_on (sv_svc sv) w0"
  shows "audit_on (sv_svc sv) w"
  using assms
proof (induction rule: server_reach.induct)
  case (audit w ms w')
  then show ?case by (auto simp: dispatch_def audit_on_def split: if_splits option.splits list.splits)
next
  case (tick w ms)
  then show ?case by (auto simp: periodic_save_def audit_on_def split: prod.splits sum.splits option.splits)
qed (auto simp: svc_Snapshot_def svc_Ping_def dest: Upsert_on UpsertBatch_on Get_on split: prod.splits)

section \<open>Saving after a batch\<close>

lemma mem_Snapshot_ctx: "mem_Snapshot c r = mem_Snapshot c' r"
  by (simp add: mem_Snapshot_def)

text \<open>An acknowledged batch on a server in memory runs the hook on the snapshot of the repository it leaves.\<close>

lemma batch_saves:
  assumes ok: "wired env sv" and mem: "mem_backed (w_repo w)" and on: "audit_on (sv_svc sv) w"
    and run: "svc_UpsertBatch (sv_svc sv) c items w = (w', Inr n)"
  shows "\<exists>snap. repo_Snapshot server_repo Background (w_repo w') = (w_repo w', Inr snap) \<and>
           w_out w' = onChanged env (sv_persister sv) c snap (w_out w)"
proof -
  from mem obtain m where m: "w_repo w = AnyMem m" by (auto simp: mem_backed_iff)
  let ?m = "mem_update_loop (valid_items items) m"
  obtain snap where snap: "mem_Snapshot c ?m = (?m, Inr snap)" by (simp add: mem_Snapshot_def)
  have v: "valid_items items \<noteq> []" using run by (auto simp: svc_UpsertBatch_def batch_loop_valid split: if_splits)
  have "w_out (notifyAudit (sv_svc sv) c (map ID (valid_items items)) (w\<lparr>w_repo := AnyMem ?m\<rparr>)) = w_out w"
    using notifyAudit_on [of "sv_svc sv" "w\<lparr>w_repo := AnyMem ?m\<rparr>"] on by simp
  with run ok m v snap have "w_repo w' = AnyMem ?m \<and> w_out w' = onChanged env (sv_persister sv) c snap (w_out w)"
    by (auto simp: svc_UpsertBatch_def batch_loop_valid wired_def mem_UpdateMany_def)
  with snap mem_Snapshot_ctx [of c ?m Background] show ?thesis by auto
qed

lemma warn_if_same: "so_warn (warn_if msg e out) = so_warn out \<longleftrightarrow> e = None"
  by (cases e) (simp_all add: warn_if_def warn_def)

text \<open>
  The repository a restart builds after an acknowledged batch whose save logged no warning: the metrics the batch left.
\<close>

lemma restart_after_batch:
  assumes started: "server_start env cfg db out = Inr (sv, w0)" "mem_backed (w_repo w0)"
    and before: "mem_backed (w_repo w)" "audit_on (sv_svc sv) w"
    and batch: "svc_UpsertBatch (sv_svc sv) c items w = (w', Inr n)"
    and saved: "so_warn (w_out w') = so_warn (w_out w)"
    and json: "repo_Snapshot server_repo Background (w_repo w') = (r', Inr snap)"
      "se_decode env (se_text env (flattenSnapshot snap)) = Inr (flattenSnapshot snap)"
    and disk: "sc_File cfg \<notin> tmp_names (sc_File cfg) (so_fs (w_out w))" "fs_faults (so_fs (w_out w')) = []"
    and again: "sc_DSN cfg' = ''''" "sc_Restore cfg'" "sc_File cfg' = sc_File cfg"
  shows "case buildRepoAndPersister env cfg' db' (w_out w') of (repo, p, out') \<Rightarrow>
    p = Some (sc_File cfg) \<and> mem_backed repo \<and> so_warn out' = so_warn (w_out w') \<and>
    any_gauge_of repo = spec_gauges (valid_items items) (any_gauge_of (w_repo w)) \<and>
    any_counter_of repo = spec_counters (valid_items items) (any_counter_of (w_repo w))"
proof -
  note w = server_start_wired [OF started(1)]
  have v: "valid_items items \<noteq> []" using batch by (auto simp: svc_UpsertBatch_def batch_loop_valid split: if_splits)
  have after: "mem_backed (w_repo w')" "any_gauge_of (w_repo w') = spec_gauges (valid_items items) (any_gauge_of (w_repo w))"
      "any_counter_of (w_repo w') = spec_counters (valid_items items) (any_counter_of (w_repo w))"
    using srvm.UpsertBatch_applies [OF _ before(1) v, of "sv_svc sv" c] w(1) batch by (auto simp: wired_def)
  have p: "sv_persister sv = Some (sc_File cfg)"
    using w(2) started(2) by (cases "w_repo w0") (auto simp: buildRepoAndPersister_def mem_backed_def Let_def split: sum.splits if_splits prod.splits)
  have out: "w_out w' = onChanged env (Some (sc_File cfg)) c snap (w_out w)"
    using batch_saves [OF w(1) before batch] p json(1) by auto
  obtain s1 e where sv: "Persister_Save (se_text env) (sc_File cfg) snap (so_fs (w_out w)) = (s1, e)" by fastforce
  with out saved have e: "e = None" and s1: "so_fs (w_out w') = s1"
    using warn_if_same [of "''save failed''" e "(w_out w)\<lparr>so_fs := s1\<rparr>"] by (auto simp: onChanged_def warn_if_def)
  have snap: "map_of (Gauges snap) = any_gauge_of (w_repo w')" "map_of (Counters snap) = any_counter_of (w_repo w')"
      "gm_wf (Gauges snap)" "gm_wf (Counters snap)"
    using srvm.snapshot_ok [OF after(1) json(1)] by auto
  obtain s2 r x where rest: "Persister_Restore (se_decode env) (sc_File cfg) memory_repo Background (s1, mem_New) = ((s2, r), x)"
    by (metis surj_pair)
  from Restore_replays [OF sv [unfolded e], of "se_decode env" Background s2 r x] json(2) snap(3,4) disk(1) disk(2) [unfolded s1] rest
  have r: "x = None" "mem_inv r" "mem_gauge_of r = map_of (Gauges snap)" "mem_counter_of r = map_of (Counters snap)" by auto
  with rest again s1 snap after show ?thesis
    by (simp add: buildRepoAndPersister_def open_postgres_def warn_if_def mem_backed_def)
qed

section \<open>Properties\<close>

abbreviation sample_cfg :: "string \<Rightarrow> bool \<Rightarrow> ServerConfig" where
  "sample_cfg dsn restore \<equiv> \<lparr>sc_Address = '':8080'', sc_File = ''m'', sc_DSN = dsn, sc_Key = '''', sc_Interval = 5, sc_Restore = restore,
     sc_AuditFile = '''', sc_AuditURL = ''''\<rparr>"

abbreviation sample_env :: server_env where
  "sample_env \<equiv> \<lparr>se_sqlOpen = (\<lambda>d. Some (ErrNew ''bad dsn'')), se_SetDialect = (\<lambda>d. None), se_gooseUp = (\<lambda>dir. live), se_text = (\<lambda>ms. ''x''),
     se_decode = (\<lambda>b. Inr [counter_metric ''c'' 5]), se_marshal = (\<lambda>e. ''e''), se_parseURI = (\<lambda>u. None), se_newRequest = (\<lambda>u. None),
     se_httpDo = (\<lambda>u b out. (out, Inl EPIPE)), se_now = (\<lambda>out. 0)\<rparr>"

abbreviation sample_out :: srv_out where
  "sample_out \<equiv> \<lparr>so_fs = \<lparr>fs_files = [], fs_faults = [], fs_rand = [''1'']\<rparr>, so_warn = []\<rparr>"

abbreviation sample_server :: server where
  "sample_server \<equiv> \<lparr>sv_svc = \<lparr>svc_repo = server_repo, svc_onChanged = Some (onChanged sample_env (Some ''m'')), svc_auditor = None, svc_now = Some (\<lambda>out. 0)\<rparr>,
     sv_persister = Some ''m'', sv_periodic = True\<rparr>"

abbreviation sample_world :: "any_repo \<Rightarrow> srv_out \<Rightarrow> (any_repo, srv_out) svc_world" where
  "sample_world r out \<equiv> \<lparr>w_repo = r, w_queue = None, w_stop = False, w_out = out\<rparr>"

abbreviation saved_out :: srv_out where
  "saved_out \<equiv> \<lparr>so_fs = \<lparr>fs_files = [(''m'', ''x'')], fs_faults = [], fs_rand = []\<rparr>, so_warn = []\<rparr>"

lemma sample_start:
  "server_start sample_env (sample_cfg '''' False) db sample_out = Inr (sample_server, sample_world (AnyMem mem_New) sample_out)"
  by (simp add: server_start_def buildRepoAndPersister_def open_postgres_def warn_if_def buildAuditor_def svc_New_def initAuditDispatcher_def)

lemma sample_valid: "valid_item (counter_metric ''c'' 5) = Some (counter_metric ''c'' 5)"
  by (simp add: valid_item_def counter_metric_def)

lemma sample_save:
  "Persister_Save (\<lambda>ms. ''x'') ''m'' \<lparr>Gauges = [], Counters = [(''c'', 5)]\<rparr> (so_fs sample_out) = (so_fs saved_out, None)"
  by (simp add: Persister_Save_def writeJSONAtomic_def Let_def fs_call_def fs_next_def os_CreateTemp_def write_tmp_def
        write_deferred_def os_Write_def os_Rename_def flattenSnapshot_def json_Encode_def fs_put_def fs_content_def fs_del_def
        tmp_path_def filepath_Dir_def last_slash_prefix_def filepath_Clean_def slash_def HasPrefix_def)

lemma sample_batch:
  "svc_UpsertBatch (sv_svc sample_server) Background [counter_metric ''c'' 5] (sample_world (AnyMem mem_New) sample_out) =
     (sample_world (AnyMem \<lparr>gauges = [], counters = [(''c'', 5)]\<rparr>) saved_out, Inr 1)"
  using sample_save
  by (simp add: svc_UpsertBatch_def batch_loop_valid sample_valid mem_UpdateMany_def mem_New_def notifyAudit_off mem_Snapshot_def
        gm_add_def onChanged_def warn_if_def)



text \<open>
  C18: stored metrics are typed in every state a server can reach, whatever calls of the database fail, before or after
  they took effect, and however often they are retried: in Postgres each row has the column of its type and no
  other, so that no name is a gauge and a counter at once, and in memory the two maps are well formed. The
  premises are that the table was typed before the start and that the migration keeps it so.
\<close>

theorem stored_metrics_typed:
  assumes "server_start env cfg db out = Inr (sv, w0)" and "server_reach env sv w0 w ms" and "table_ok (db_table db)"
    and "\<And>u. table_ok (db_table u) \<Longrightarrow> table_ok (db_table (fst (se_gooseUp env ''migrations'' u)))"
  shows "case w_repo w of
      AnyPg p \<Rightarrow> table_ok (db_table p) \<and> (\<forall>n. pg_gauge_of p n = None \<or> pg_counter_of p n = None)
    | AnyMem m \<Rightarrow> mem_inv m"
proof -
  have "repo_typed (w_repo w)"
    using typed_history [OF assms(2) server_start_wired(1) [OF assms(1)] server_start_typed [OF assms(1,3,4)]] .
  then show ?thesis using table_ok_exclusive by (auto simp: repo_typed_def split: any_repo.splits)
qed

abbreviation pg_env :: server_env where
  "pg_env \<equiv> sample_env\<lparr>se_sqlOpen := \<lambda>d. None\<rparr>"

abbreviation pg_server :: server where
  "pg_server \<equiv> \<lparr>sv_svc = \<lparr>svc_repo = server_repo, svc_onChanged = Some (onChanged pg_env None), svc_auditor = None, svc_now = Some (\<lambda>out. 0)\<rparr>,
     sv_persister = None, sv_periodic = False\<rparr>"

text \<open>The database answers the ping, applies the update and then loses its answer twice.\<close>

theorem stored_metrics_typed_witness:
  "\<exists>p x. svc_Upsert (sv_svc pg_server) Background (counter_metric ''c'' 5)
       (sample_world (AnyPg (pg_db [] [FailAfter (OpError EPIPE), FailAfter (OpError EPIPE)])) sample_out) =
       (sample_world (AnyPg p) sample_out, Inr x) \<and>
     pg_counter_of p ''c'' = Some 15 \<and> table_ok (db_table p)"
proof -
  let ?db = "pg_db [] [Delivered, FailAfter (OpError EPIPE), FailAfter (OpError EPIPE)]"
  let ?w0 = "sample_world (AnyPg (pg_db [] [FailAfter (OpError EPIPE), FailAfter (OpError EPIPE)])) sample_out"
  let ?p = "pg_db [(''c'', \<lparr>row_mtype = Counter, row_value = None, row_delta = Some 15\<rparr>)] []"
  have st: "server_start pg_env (sample_cfg ''dsn'' False) ?db sample_out = Inr (pg_server, ?w0)"
    by (simp add: server_start_def buildRepoAndPersister_def open_postgres_def ping_and_migrate_def Migrate_def pg_run_defs
          buildAuditor_def svc_New_def initAuditDispatcher_def)
  have add: "pg_AddCounter Background ''c'' 5 (pg_db [] [FailAfter (OpError EPIPE), FailAfter (OpError EPIPE)]) = (?p, None)"
    by (simp add: pg_AddCounter_def pg_run_defs fits_bigint_def)
  have get: "pg_GetCounter Background ''c'' ?p = (?p, Inr 15)"
    by (simp add: pg_GetCounter_def pg_scan_def pg_query_def pg_run_defs)
  have up: "svc_Upsert (sv_svc pg_server) Background (counter_metric ''c'' 5) ?w0 =
      (sample_world (AnyPg ?p) sample_out, Inr (counter_metric ''c'' 15))"
    using add get by (simp add: svc_Upsert_def upsert_finish_def svc_Get_def Let_def counter_metric_def dyn_def notifyAudit_off)
  from stored_metrics_typed [OF st server_reach.update [OF server_reach.start up]] have "table_ok (db_table ?p)"
    by (simp add: table_ok_def)
  with up show ?thesis by (auto simp: pg_counter_of_def table_counter_def)
qed

text \<open>
  how the server chooses its storage: Postgres exactly if a DSN is configured, the driver accepts it and
  ping and migration succeed within the retries, and then nothing is persisted to a file; otherwise memory,
  persisted to the configured file, and empty unless \<open>Restore\<close> is set.
\<close>

theorem storage_choice:
  "case buildRepoAndPersister env cfg db out of (repo, p, out') \<Rightarrow>
     ((\<exists>db'. repo = AnyPg db') \<longleftrightarrow>
        sc_DSN cfg \<noteq> '''' \<and> se_sqlOpen env (sc_DSN cfg) = None \<and>
        snd (Retry live (\<lambda>d. live) DefaultBackoff isRetryablePG (ping_and_migrate env) db) = None) \<and>
     p = (case repo of AnyPg db' \<Rightarrow> None | AnyMem m \<Rightarrow> Some (sc_File cfg)) \<and>
     (case repo of AnyPg db' \<Rightarrow> out' = out \<and> (\<exists>db0. se_gooseUp env ''migrations'' db0 = (db', None))
      | AnyMem m \<Rightarrow> sc_Restore cfg \<or> m = mem_New \<and> so_fs out' = so_fs out)"
proof -
  obtain db1 x where r: "Retry live (\<lambda>d. live) DefaultBackoff isRetryablePG (ping_and_migrate env) db = (db1, x)" by fastforce
  have "\<exists>db0. se_gooseUp env ''migrations'' db0 = (db1, None)" if "x = None"
  proof -
    from Retry_from_success [OF r [unfolded Retry_def] that] obtain db0 where "ping_and_migrate env db0 = (db1, None)" by blast
    then show ?thesis
      by (cases "pg_exec Inr db0") (auto simp: ping_and_migrate_def Migrate_def split: option.splits)
  qed
  with r show ?thesis
    by (auto simp: buildRepoAndPersister_def open_postgres_def Let_def warn_if_def warn_def split: option.splits prod.splits)
qed

text \<open>
  a server that fell back to memory does not persist single updates: although it has a file to save to and
  a positive store interval, the periodic save is only started without a DSN, and an update through
  \<open>Upsert\<close> leaves the disk as it was in every reachable state.
\<close>

theorem fallback_never_saves_updates:
  assumes "server_start env cfg db out = Inr (sv, w0)" and "sc_DSN cfg \<noteq> ''''" and "open_postgres env cfg db = Inl failed"
    and "server_reach env sv w0 w ms" and "svc_Upsert (sv_svc sv) c m w = (w', x)"
  shows "sv_persister sv = Some (sc_File cfg) \<and> \<not> sv_periodic sv \<and> so_fs (w_out w') = so_fs (w_out w)"
proof -
  note w = server_start_wired [OF assms(1)]
  have "sv_persister sv = Some (sc_File cfg)"
    using w(2) assms(3) by (auto simp: buildRepoAndPersister_def Let_def split: if_splits prod.splits)
  moreover have "audit_on (sv_svc sv) w" using reach_audit_on [OF assms(4)] w(3) by (simp add: audit_on_def)
  ultimately show ?thesis using w(4) assms(2) Upsert_on [OF assms(5)] by simp
qed

theorem fallback_never_saves_updates_witness:
  "\<exists>sv w0. server_start sample_env (sample_cfg ''postgres:'' False) (pg_db [] []) sample_out = Inr (sv, w0) \<and>
     0 < sint (sc_Interval (sample_cfg ''postgres:'' False)) \<and> sv_persister sv = Some ''m'' \<and> \<not> sv_periodic sv \<and>
     so_fs (w_out (fst (svc_Upsert (sv_svc sv) Background (counter_metric ''c'' 5) w0))) = so_fs (w_out w0)"
proof -
  obtain sv w0 where st: "server_start sample_env (sample_cfg ''postgres:'' False) (pg_db [] []) sample_out = Inr (sv, w0)"
    by (simp add: server_start_def buildRepoAndPersister_def open_postgres_def buildAuditor_def svc_New_def Let_def)
  have f: "open_postgres sample_env (sample_cfg ''postgres:'' False) (pg_db [] []) = Inl (Some (ErrNew ''bad dsn''))"
    by (simp add: open_postgres_def)
  obtain w' x where up: "svc_Upsert (sv_svc sv) Background (counter_metric ''c'' 5) w0 = (w', x)" by fastforce
  from fallback_never_saves_updates [OF st _ f server_reach.start up] st up show ?thesis by simp
qed

end
