(* ===== verification/Concurrent_Updates.thy ===== *)
theory Concurrent_Updates
  imports Server "HOL-Library.Multiset"
begin

text \<open>
  Requests that run at the same time. The HTTP server gives every request a goroutine of its own; the
  repository's mutex (or the database) makes one call of a repository method atomic, but \<open>Upsert\<close> and
  \<open>UpsertBatch\<close> (\<open>internal/services/metrics/metrics.go\<close>) make several such calls. Here a request is a thread
  whose steps are those calls: the write, the read back, the send on the audit channel, and for a batch the
  snapshot and the hook. The hook counts as one step, which is what
  \<open>Concurrent_Saves\<close> shows of saves whose system calls interleave: they take effect at their rename.

  Run without interruption, the steps are the sequential operations (\<open>thread_runs_Upsert\<close>,
  \<open>thread_runs_UpsertBatch\<close>); \<open>conc_reach\<close> interleaves them with each other, with the audit dispatcher, and with
  anything that happens outside the service: the periodic save, which only reads the repository, and other processes.
\<close>

section \<open>Threads\<close>

datatype request = Update Metrics | Batch "Metrics list"

datatype answer = OneMetric Metrics | Count nat

datatype thread =
    Waiting go_context request
  | Reading go_context Metrics
  | Auditing go_context "string list" answer
  | BatchAuditing go_context "string list" nat
  | Snapshotting go_context nat
  | Hooking go_context nat Snapshot
  | Answered "go_error + answer"

text \<open>What \<open>Upsert\<close> does before it reads back: the checks and the repository write.\<close>

definition upsert_write :: "('r, 'w) Service \<Rightarrow> go_context \<Rightarrow> Metrics \<Rightarrow> ('r, 'w) svc_world \<Rightarrow> ('r, 'w) svc_world \<times> thread" where
  "upsert_write s c m0 w =
     (let m = m0\<lparr>ID := TrimSpace (ID m0)\<rparr>;
          wrote = (\<lambda>(r, e). (w\<lparr>w_repo := r\<rparr>, case e of Some err \<Rightarrow> Answered (Inl err) | None \<Rightarrow> Reading c m))
      in if ID m = '''' then (w, Answered (Inl ErrNotFound))
         else if MType m = Gauge then
           (case Value m of
              None \<Rightarrow> (w, Answered (Inl ErrInvalidType))
            | Some v \<Rightarrow> wrote (repo_SetGauge (svc_repo s) c (ID m) v (w_repo w)))
         else if MType m = Counter then
           (case Delta m of
              None \<Rightarrow> (w, Answered (Inl ErrInvalidType))
            | Some d \<Rightarrow> wrote (repo_AddCounter (svc_repo s) c (ID m) d (w_repo w)))
         else (w, Answered (Inl ErrInvalidType)))"

text \<open>What \<open>UpsertBatch\<close> does first: the filter and the repository write.\<close>

definition batch_write :: "('r, 'w) Service \<Rightarrow> go_context \<Rightarrow> Metrics list \<Rightarrow> ('r, 'w) svc_world \<Rightarrow> ('r, 'w) svc_world \<times> thread" where
  "batch_write s c items w =
     (let (valid, names) = batch_loop items [] [] in
      if valid = [] then (w, Answered (Inl ErrInvalidType))
      else case repo_UpdateMany (svc_repo s) c valid (w_repo w) of
             (r, Some err) \<Rightarrow> (w\<lparr>w_repo := r\<rparr>, Answered (Inl err))
           | (r, None) \<Rightarrow> (w\<lparr>w_repo := r\<rparr>, BatchAuditing c names (length valid)))"

fun thread_step :: "('r, 'w) Service \<Rightarrow> ('r, 'w) svc_world \<times> thread \<Rightarrow> ('r, 'w) svc_world \<times> thread" where
  "thread_step s (w, Waiting c (Update m)) = upsert_write s c m w"
| "thread_step s (w, Waiting c (Batch items)) = batch_write s c items w"
| "thread_step s (w, Reading c m) =
     (case svc_Get s c (MType m) (ID m) w of
        (w', Inl err) \<Rightarrow> (w', Answered (Inl err))
      | (w', Inr x) \<Rightarrow> (w', Auditing c [ID m] (OneMetric x)))"
| "thread_step s (w, Auditing c names ans) = (notifyAudit s c names w, Answered (Inr ans))"
| "thread_step s (w, BatchAuditing c names n) = (notifyAudit s c names w, Snapshotting c n)"
| "thread_step s (w, Snapshotting c n) =
     (case svc_onChanged s of
        None \<Rightarrow> (w, Answered (Inr (Count n)))
      | Some hook \<Rightarrow>
          (case repo_Snapshot (svc_repo s) c (w_repo w) of
             (r, Inl e) \<Rightarrow> (w\<lparr>w_repo := r\<rparr>, Answered (Inr (Count n)))
           | (r, Inr snap) \<Rightarrow> (w\<lparr>w_repo := r\<rparr>, Hooking c n snap)))"
| "thread_step s (w, Hooking c n snap) =
     (case svc_onChanged s of
        None \<Rightarrow> (w, Answered (Inr (Count n)))
      | Some hook \<Rightarrow> (w\<lparr>w_out := hook c snap (w_out w)\<rparr>, Answered (Inr (Count n))))"
| "thread_step s (w, Answered a) = (w, Answered a)"

section \<open>The steps of one thread are the operation\<close>

lemma thread_runs_Upsert:
  "(thread_step s ^^ 3) (w, Waiting c (Update m)) =
     (fst (svc_Upsert s c m w), Answered (map_sum id OneMetric (snd (svc_Upsert s c m w))))"
  by (auto simp: numeral_3_eq_3 upsert_write_def svc_Upsert_def upsert_finish_def Let_def split: prod.splits option.splits sum.splits)

lemma thread_runs_UpsertBatch:
  "(thread_step s ^^ 4) (w, Waiting c (Batch items)) =
     (fst (svc_UpsertBatch s c items w), Answered (map_sum id Count (snd (svc_UpsertBatch s c items w))))"
  by (auto simp: eval_nat_numeral batch_write_def svc_UpsertBatch_def Let_def split: prod.splits option.splits sum.splits)

section \<open>Interleaving\<close>

text \<open>
  The shared state, the threads, and the writes so far, in the order in which they took effect: the number of the
  request and the metrics of its one call of the repository.
\<close>

record ('r, 'w) conc =
  cn_world :: "('r, 'w) svc_world"
  cn_threads :: "thread list"
  cn_log :: "(nat \<times> Metrics list) list"

fun written :: "thread \<Rightarrow> thread \<Rightarrow> Metrics list" where
  "written (Waiting c (Update m)) (Reading c' m') = [m']"
| "written (Waiting c (Batch items)) (BatchAuditing c' names n) = valid_items items"
| "written t t' = []"

definition log_entry_of :: "nat \<Rightarrow> Metrics list \<Rightarrow> (nat \<times> Metrics list) list" where
  "log_entry_of i ms = (if ms = [] then [] else [(i, ms)])"

definition flat :: "(nat \<times> Metrics list) list \<Rightarrow> Metrics list" where
  "flat log = concat (map snd log)"

inductive conc_reach ::
  "('r, 'w) Service \<Rightarrow> ('r, 'w) svc_world \<Rightarrow> (go_context \<times> request) list \<Rightarrow> ('r, 'w) conc \<Rightarrow> bool"
  for s :: "('r, 'w) Service" and w0 :: "('r, 'w) svc_world" and reqs :: "(go_context \<times> request) list" where
  start: "conc_reach s w0 reqs \<lparr>cn_world = w0, cn_threads = map (\<lambda>(c, q). Waiting c q) reqs, cn_log = []\<rparr>"
| step: "conc_reach s w0 reqs a \<Longrightarrow> i < length (cn_threads a) \<Longrightarrow> thread_step s (cn_world a, cn_threads a ! i) = (w', t') \<Longrightarrow>
     conc_reach s w0 reqs \<lparr>cn_world = w', cn_threads = (cn_threads a)[i := t'], cn_log = cn_log a @ log_entry_of i (written (cn_threads a ! i) t')\<rparr>"
| audit: "conc_reach s w0 reqs a \<Longrightarrow> dispatch s (cn_world a) = Some w' \<Longrightarrow> conc_reach s w0 reqs (a\<lparr>cn_world := w'\<rparr>)"
| elsewhere: "conc_reach s w0 reqs a \<Longrightarrow> conc_reach s w0 reqs (a\<lparr>cn_world := (cn_world a)\<lparr>w_out := out\<rparr>\<rparr>)"

text \<open>What a request writes if it writes, and what its thread has written.\<close>

fun items_of :: "request \<Rightarrow> Metrics list" where
  "items_of (Update m) = valid_items [m]"
| "items_of (Batch items) = valid_items items"

fun contribution :: "request \<Rightarrow> thread \<Rightarrow> Metrics list" where
  "contribution q (Waiting c q') = []"
| "contribution q t = items_of q"

text \<open>The answer a read of the metric gives in a state with these gauges and counters.\<close>

definition read_at :: "Metrics \<Rightarrow> (string \<rightharpoonup> float64) \<Rightarrow> (string \<rightharpoonup> int64) \<Rightarrow> Metrics" where
  "read_at m g c =
     (if MType m = Gauge then \<lparr>Delta = None, Value = g (ID m), ID = ID m, MType = Gauge\<rparr>
      else \<lparr>Delta = c (ID m), Value = None, ID = ID m, MType = MType m\<rparr>)"

text \<open>An answer shows the state after some of the first writes, the request's own among them.\<close>

definition answer_ok ::
  "(string \<rightharpoonup> float64) \<Rightarrow> (string \<rightharpoonup> int64) \<Rightarrow> (nat \<times> Metrics list) list \<Rightarrow> nat \<Rightarrow> Metrics \<Rightarrow> Metrics \<Rightarrow> bool" where
  "answer_ok g0 c0 log i m x \<longleftrightarrow>
     (\<exists>p. prefix p log \<and> (i, [m]) \<in> set p \<and> x = read_at m (spec_gauges (flat p) g0) (spec_counters (flat p) c0))"

text \<open>A request that has written has one entry in the log, with all its metrics.\<close>

definition logged_once :: "(nat \<times> Metrics list) list \<Rightarrow> nat \<Rightarrow> request \<Rightarrow> bool" where
  "logged_once log i q \<longleftrightarrow> filter (\<lambda>e. fst e = i) log = [(i, items_of q)]"

fun thread_ok ::
  "(string \<rightharpoonup> float64) \<Rightarrow> (string \<rightharpoonup> int64) \<Rightarrow> (nat \<times> Metrics list) list \<Rightarrow> nat \<Rightarrow> request \<Rightarrow> thread \<Rightarrow> bool" where
  "thread_ok g0 c0 log i q (Waiting c q') = (q' = q \<and> filter (\<lambda>e. fst e = i) log = [])"
| "thread_ok g0 c0 log i (Update m) (Reading c m') = (valid_item m = Some m' \<and> logged_once log i (Update m))"
| "thread_ok g0 c0 log i (Update m) (Auditing c names (OneMetric x)) =
     (\<exists>m'. valid_item m = Some m' \<and> logged_once log i (Update m) \<and> answer_ok g0 c0 log i m' x)"
| "thread_ok g0 c0 log i (Update m) (Answered (Inr (OneMetric x))) =
     (\<exists>m'. valid_item m = Some m' \<and> logged_once log i (Update m) \<and> answer_ok g0 c0 log i m' x)"
| "thread_ok g0 c0 log i q (Answered (Inl e)) = (items_of q = [] \<and> filter (\<lambda>e. fst e = i) log = [])"
| "thread_ok g0 c0 log i (Batch items) (BatchAuditing c names n) = (n = length (valid_items items) \<and> logged_once log i (Batch items))"
| "thread_ok g0 c0 log i (Batch items) (Snapshotting c n) = (n = length (valid_items items) \<and> logged_once log i (Batch items))"
| "thread_ok g0 c0 log i (Batch items) (Hooking c n snap) = (n = length (valid_items items) \<and> logged_once log i (Batch items))"
| "thread_ok g0 c0 log i (Batch items) (Answered (Inr (Count n))) = (n = length (valid_items items) \<and> logged_once log i (Batch items))"
| "thread_ok g0 c0 log i q t = False"

section \<open>Facts\<close>

lemma spec_dom:
  "g k \<noteq> None \<Longrightarrow> spec_gauges ms g k \<noteq> None" "c k \<noteq> None \<Longrightarrow> spec_counters ms c k \<noteq> None"
  by (simp_all add: spec_gauges_last spec_counters_sum)

lemma spec_has_written:
  assumes "m \<in> set ms" and "valid_item m0 = Some m"
  shows "MType m = Gauge \<and> spec_gauges ms g (ID m) \<noteq> None \<or> MType m = Counter \<and> spec_counters ms c (ID m) \<noteq> None"
proof -
  obtain xs ys where ms: "ms = xs @ [m] @ ys" using assms(1) by (metis append_Cons append_Nil split_list)
  from assms(2) have "MType m = Gauge \<and> Value m \<noteq> None \<or> MType m = Counter \<and> Delta m \<noteq> None"
    by (auto simp: valid_item_def split: if_splits)
  then show ?thesis
    using spec_dom by (auto simp: ms spec_gauges_append spec_counters_append)
qed

lemma flat_simps [simp]: "flat [] = []" "flat (log @ log') = flat log @ flat log'" "flat (log_entry_of i ms) = ms" "log_entry_of i [] = []"
  by (simp_all add: flat_def log_entry_of_def)

lemma flat_member: "(i, ms) \<in> set log \<Longrightarrow> m \<in> set ms \<Longrightarrow> m \<in> set (flat log)"
  by (force simp: flat_def)

lemma filter_entry [simp]: "filter (\<lambda>e. fst e = i) (log_entry_of j ms) = (if i = j then log_entry_of j ms else [])"
  by (simp add: log_entry_of_def)

lemma logged_once_own:
  assumes "filter (\<lambda>e. fst e = i) log = []" and "items_of q \<noteq> []"
  shows "logged_once (log @ log_entry_of i (items_of q)) i q"
  using assms by (simp add: logged_once_def) (simp add: log_entry_of_def)

lemma logged_once_member:
  assumes "logged_once log i q"
  shows "(i, items_of q) \<in> set log"
proof -
  have "set (filter (\<lambda>e. fst e = i) log) = {(i, items_of q)}" using assms by (simp add: logged_once_def)
  then show ?thesis by auto
qed

lemma answer_ok_mono: "answer_ok g0 c0 log i m x \<Longrightarrow> answer_ok g0 c0 (log @ ms) i m x"
  unfolding answer_ok_def by (blast intro: prefix_prefix)

text \<open>The writes of another request leave the condition of a thread as it is.\<close>

lemma thread_ok_mono: "thread_ok g0 c0 log i q t \<Longrightarrow> j \<noteq> i \<Longrightarrow> thread_ok g0 c0 (log @ log_entry_of j ms) i q t"
  by (cases "(g0, c0, log, i, q, t)" rule: thread_ok.cases) (auto simp: logged_once_def intro: answer_ok_mono)

lemma sum_contrib_update:
  assumes "i < length ts" and "length ts = n"
    and "mset (contribution (q i) t) = mset (contribution (q i) (ts ! i)) + mset ms"
  shows "(\<Sum>j < n. mset (contribution (q j) (ts[i := t] ! j))) = (\<Sum>j < n. mset (contribution (q j) (ts ! j))) + mset ms"
proof -
  have split: "(\<Sum>j < n. f j) = f i + (\<Sum>j \<in> {..< n} - {i}. f j)" for f :: "nat \<Rightarrow> Metrics multiset"
    using assms(1,2) by (intro sum.remove) auto
  have "(\<Sum>j \<in> {..< n} - {i}. mset (contribution (q j) (ts[i := t] ! j))) = (\<Sum>j \<in> {..< n} - {i}. mset (contribution (q j) (ts ! j)))"
    by (intro sum.cong) auto
  with split [of "\<lambda>j. mset (contribution (q j) (ts[i := t] ! j))"] split [of "\<lambda>j. mset (contribution (q j) (ts ! j))"] assms
  show ?thesis by (simp add: ac_simps)
qed

text \<open>In every condition of a thread the log has its entry or none.\<close>

lemma thread_ok_entries:
  "thread_ok g0 c0 log i q t \<Longrightarrow> filter (\<lambda>e. fst e = i) log \<in> {[], [(i, items_of q)]}"
  by (cases "(g0, c0, log, i, q, t)" rule: thread_ok.cases) (auto simp: logged_once_def)

lemma distinct_keys: "(\<And>k. length (filter (\<lambda>e. fst e = k) log) \<le> 1) \<Longrightarrow> distinct (map fst log)"
proof (induction log)
  case (Cons e log)
  have "filter (\<lambda>x. fst x = fst e) log = []" using Cons.prems [of "fst e"] by simp
  moreover have "length (filter (\<lambda>x. fst x = k) log) \<le> 1" for k using Cons.prems [of k] by (auto split: if_splits)
  ultimately show ?case using Cons.IH by (auto simp: filter_empty_conv)
qed simp

section \<open>The invariant of an interleaved run\<close>

context separate_repo
begin

lemma upsert_write_facts:
  assumes s: "svc_repo s = R" and i: "inv (w_repo w)" and run: "upsert_write s c m w = (w', t)"
  shows "(valid_item m = None \<and> w' = w \<and> (\<exists>e. t = Answered (Inl e))) \<or>
    (\<exists>m'. valid_item m = Some m' \<and> t = Reading c m' \<and> inv (w_repo w') \<and>
       gauge_of (w_repo w') = spec_gauges [m'] (gauge_of (w_repo w)) \<and> counter_of (w_repo w') = spec_counters [m'] (counter_of (w_repo w)))"
proof (cases "valid_item m")
  case None
  with run show ?thesis by (auto simp: upsert_write_def valid_item_def Let_def split: if_splits option.splits)
next
  case (Some m')
  let ?i = "TrimSpace (ID m)"
  from Some have m': "m' = m\<lparr>ID := ?i\<rparr>" "?i \<noteq> ''''"
      "MType m = Gauge \<and> Value m \<noteq> None \<or> MType m = Counter \<and> Delta m \<noteq> None"
    by (auto simp: valid_item_def split: if_splits)
  from m'(3) show ?thesis
  proof (elim disjE conjE)
    assume g: "MType m = Gauge" "Value m \<noteq> None"
    then obtain v where v: "Value m = Some v" by blast
    obtain r where r: "repo_SetGauge R c ?i v (w_repo w) = (r, None)"
      using set_gauge_total [OF i, of c ?i v] by (metis prod.collapse)
    with run s g v m' have "w' = w\<lparr>w_repo := r\<rparr>" "t = Reading c m'" by (auto simp: upsert_write_def)
    with Some g v m' set_gauge_inv [OF i r] set_gauge_ok [OF i r] set_gauge_separate [OF i, of c ?i v] r show ?thesis by simp
  next
    assume c: "MType m = Counter" "Delta m \<noteq> None"
    then obtain d where d: "Delta m = Some d" by blast
    obtain r where r: "repo_AddCounter R c ?i d (w_repo w) = (r, None)"
      using add_counter_total [OF i, of c ?i d] by (metis prod.collapse)
    with run s c d m' have "w' = w\<lparr>w_repo := r\<rparr>" "t = Reading c m'" by (auto simp: upsert_write_def)
    with Some c d m' add_counter_inv [OF i r] add_counter_ok [OF i r] add_counter_separate [OF i, of c ?i d] r show ?thesis by simp
  qed
qed

lemma batch_write_facts:
  assumes s: "svc_repo s = R" and i: "inv (w_repo w)" and run: "batch_write s c items w = (w', t)"
  shows "(valid_items items = [] \<and> w' = w \<and> (\<exists>e. t = Answered (Inl e))) \<or>
    (valid_items items \<noteq> [] \<and> (\<exists>names. t = BatchAuditing c names (length (valid_items items))) \<and> inv (w_repo w') \<and>
       gauge_of (w_repo w') = spec_gauges (valid_items items) (gauge_of (w_repo w)) \<and>
       counter_of (w_repo w') = spec_counters (valid_items items) (counter_of (w_repo w)))"
  using run s update_many_run [OF i, of c "valid_items items"]
  by (auto simp: batch_write_def batch_loop_valid split: if_splits)

lemma Get_stored:
  assumes s: "svc_repo s = R" and i: "inv (w_repo w)" and v: "valid_item m0 = Some m"
    and stored: "MType m = Gauge \<and> gauge_of (w_repo w) (ID m) \<noteq> None \<or> MType m = Counter \<and> counter_of (w_repo w) (ID m) \<noteq> None"
    and run: "svc_Get s c (MType m) (ID m) w = (w', x)"
  shows "x = Inr (read_at m (gauge_of (w_repo w)) (counter_of (w_repo w)))"
proof -
  have n: "ID m \<noteq> ''''" "TrimSpace (ID m) = ID m" using v by (auto simp: valid_item_def split: if_splits)
  from upsert_finish_total [OF s i n stored, of c] run obtain y where y: "x = Inr y"
    by (cases x) (auto simp: upsert_finish_def)
  from Get_facts(6) [OF s i run y] n show ?thesis by (cases y) (auto simp: y read_at_def)
qed

definition conc_inv :: "('a, 'w) svc_world \<Rightarrow> (go_context \<times> request) list \<Rightarrow> ('a, 'w) conc \<Rightarrow> bool" where
  "conc_inv w0 reqs a \<longleftrightarrow>
     inv (w_repo (cn_world a)) \<and>
     gauge_of (w_repo (cn_world a)) = spec_gauges (flat (cn_log a)) (gauge_of (w_repo w0)) \<and>
     counter_of (w_repo (cn_world a)) = spec_counters (flat (cn_log a)) (counter_of (w_repo w0)) \<and>
     length (cn_threads a) = length reqs \<and>
     fst ` set (cn_log a) \<subseteq> {..< length reqs} \<and>
     mset (flat (cn_log a)) = (\<Sum>j < length reqs. mset (contribution (snd (reqs ! j)) (cn_threads a ! j))) \<and>
     (\<forall>j < length reqs. thread_ok (gauge_of (w_repo w0)) (counter_of (w_repo w0)) (cn_log a) j (snd (reqs ! j)) (cn_threads a ! j))"

text \<open>The read back shows what the writes so far have stored.\<close>

lemma Reading_facts:
  assumes s: "svc_repo s = R" and i: "inv (w_repo w)" and run: "thread_step s (w, Reading cx m') = (w', t')"
    and g: "gauge_of (w_repo w) = spec_gauges (flat log) g0" and c: "counter_of (w_repo w) = spec_counters (flat log) c0"
    and q: "valid_item m = Some m'" "(j, [m']) \<in> set log"
  shows "inv (w_repo w')" and "gauge_of (w_repo w') = gauge_of (w_repo w)" and "counter_of (w_repo w') = counter_of (w_repo w)"
    and "\<exists>x. t' = Auditing cx [ID m'] (OneMetric x) \<and> answer_ok g0 c0 log j m' x"
proof -
  obtain x where get: "svc_Get s cx (MType m') (ID m') w = (w', x)"
    using run by (auto split: prod.splits sum.splits)
  show "inv (w_repo w')" "gauge_of (w_repo w') = gauge_of (w_repo w)" "counter_of (w_repo w') = counter_of (w_repo w)"
    using Get_facts(1-3) [OF s i get] by auto
  have "MType m' = Gauge \<and> gauge_of (w_repo w) (ID m') \<noteq> None \<or> MType m' = Counter \<and> counter_of (w_repo w) (ID m') \<noteq> None"
    unfolding g c by (rule spec_has_written [OF flat_member [OF q(2)] q(1)]) simp
  from Get_stored [OF s i q(1) this get] have x: "x = Inr (read_at m' (spec_gauges (flat log) g0) (spec_counters (flat log) c0))" by (simp add: g c)
  have "answer_ok g0 c0 log j m' (read_at m' (spec_gauges (flat log) g0) (spec_counters (flat log) c0))"
    using q(2) by (auto simp: answer_ok_def)
  with run get x show "\<exists>x. t' = Auditing cx [ID m'] (OneMetric x) \<and> answer_ok g0 c0 log j m' x" by auto
qed

text \<open>One step of a thread: what it does to the metrics, to its contribution and to its own condition.\<close>

lemma thread_step_facts:
  assumes s: "svc_repo s = R" and i: "inv (w_repo w)" and run: "thread_step s (w, t) = (w', t')"
    and g: "gauge_of (w_repo w) = spec_gauges (flat log) g0" and c: "counter_of (w_repo w) = spec_counters (flat log) c0"
    and ok: "thread_ok g0 c0 log j q t"
  shows "inv (w_repo w') \<and> gauge_of (w_repo w') = spec_gauges (flat log @ written t t') g0 \<and>
    counter_of (w_repo w') = spec_counters (flat log @ written t t') c0 \<and>
    mset (contribution q t') = mset (contribution q t) + mset (written t t') \<and> thread_ok g0 c0 (log @ log_entry_of j (written t t')) j q t'"
proof (cases t)
  case (Waiting cx q')
  with ok have q: "q' = q" by simp
  show ?thesis
  proof (cases q)
    case (Update m)
    with Waiting q run have "upsert_write s cx m w = (w', t')" by simp
    from upsert_write_facts [OF s i this] Waiting q Update i g c show ?thesis
      using logged_once_own [of j log q] ok by (auto simp: spec_gauges_append spec_counters_append)
  next
    case (Batch items)
    with Waiting q run have "batch_write s cx items w = (w', t')" by simp
    from batch_write_facts [OF s i this] Waiting q Batch i g c show ?thesis
      using logged_once_own [of j log q] ok by (auto simp: spec_gauges_append spec_counters_append)
  qed
next
  case (Reading cx m')
  with ok obtain m where q: "q = Update m" "valid_item m = Some m'" "logged_once log j (Update m)" by (cases q) auto
  from q(2) logged_once_member [OF q(3)] have "(j, [m']) \<in> set log" by simp
  from Reading_facts [OF s i run [unfolded Reading] g c q(2) this] Reading q g c show ?thesis by auto
next
  case (Snapshotting cx n)
  with ok obtain items where q: "q = Batch items" by (cases q) auto
  obtain r z where "repo_Snapshot R cx (w_repo w) = (r, z)" by fastforce
  with snapshot_frame [OF i this] Snapshotting q run s i g c ok show ?thesis
    by (auto split: option.splits sum.splits)
next
  case (Auditing cx names ans)
  with ok obtain m x where "q = Update m" "ans = OneMetric x" by (cases q; cases ans) auto
  with Auditing run ok i g c show ?thesis by auto
next
  case (BatchAuditing cx names n)
  with ok obtain items where q: "q = Batch items" by (cases q) auto
  with BatchAuditing run ok i g c show ?thesis by auto
next
  case (Hooking cx n snap)
  with ok obtain items where q: "q = Batch items" by (cases q) auto
  with Hooking run ok i g c show ?thesis by (auto split: option.splits)
next
  case (Answered a)
  with run ok i g c show ?thesis by auto
qed

lemma conc_reach_inv:
  assumes "conc_reach s w0 reqs a" and s: "svc_repo s = R" and "inv (w_repo w0)"
  shows "conc_inv w0 reqs a"
  using assms(1)
proof (induction rule: conc_reach.induct)
  case start
  have "thread_ok g c [] j (snd (reqs ! j)) (map (\<lambda>(c, q). Waiting c q) reqs ! j)" if "j < length reqs" for g c j
    using that by (simp add: split_beta)
  moreover have "contribution (snd (reqs ! j)) (map (\<lambda>(c, q). Waiting c q) reqs ! j) = []" if "j < length reqs" for j
    using that by (simp add: split_beta)
  ultimately show ?case using assms(3) by (simp add: conc_inv_def)
next
  case (step a i w' t')
  let ?g = "gauge_of (w_repo w0)" and ?c = "counter_of (w_repo w0)" and ?t = "cn_threads a ! i"
  note I = step.IH [unfolded conc_inv_def]
  from I step.hyps(2) have i: "i < length reqs" "thread_ok ?g ?c (cn_log a) i (snd (reqs ! i)) ?t" by auto
  have f: "inv (w_repo w') \<and> gauge_of (w_repo w') = spec_gauges (flat (cn_log a) @ written ?t t') ?g \<and>
      counter_of (w_repo w') = spec_counters (flat (cn_log a) @ written ?t t') ?c \<and>
      mset (contribution (snd (reqs ! i)) t') = mset (contribution (snd (reqs ! i)) ?t) + mset (written ?t t') \<and>
      thread_ok ?g ?c (cn_log a @ log_entry_of i (written ?t t')) i (snd (reqs ! i)) t'"
    by (rule thread_step_facts [OF s _ step.hyps(3) _ _ i(2)]) (use I in auto)
  have "thread_ok ?g ?c (cn_log a @ log_entry_of i (written ?t t')) j (snd (reqs ! j)) ((cn_threads a)[i := t'] ! j)" if "j < length reqs" for j
    using f that I thread_ok_mono step.hyps(2) by (cases "j = i") auto
  moreover have "mset (flat (cn_log a) @ written ?t t') = (\<Sum>j < length reqs. mset (contribution (snd (reqs ! j)) ((cn_threads a)[i := t'] ! j)))"
    using sum_contrib_update [OF step.hyps(2), of "length reqs" "\<lambda>j. snd (reqs ! j)" t' "written ?t t'"] f I by simp
  moreover have "fst ` set (cn_log a @ log_entry_of i (written ?t t')) \<subseteq> {..< length reqs}"
    using I i(1) by (auto simp: log_entry_of_def)
  ultimately show ?case using f I by (simp add: conc_inv_def)
next
  case (audit a w')
  then have "w_repo w' = w_repo (cn_world a)" by (auto simp: dispatch_def split: if_splits option.splits list.splits)
  with audit.IH show ?case by (simp add: conc_inv_def)
next
  case (elsewhere a out)
  then show ?case by (simp add: conc_inv_def)
qed

text \<open>The log of a run: one entry at most for a request, with all its metrics, and one for each request that was acknowledged.\<close>

lemma conc_log_ok:
  assumes "conc_inv w0 reqs a"
  shows "distinct (map fst (cn_log a)) \<and> (\<forall>(i, ms) \<in> set (cn_log a). i < length reqs \<and> ms = items_of (snd (reqs ! i)))"
proof -
  have own: "filter (\<lambda>e. fst e = i) (cn_log a) \<in> {[], [(i, items_of (snd (reqs ! i)))]}" if "i < length reqs" for i
    using assms that thread_ok_entries by (fastforce simp: conc_inv_def)
  have inside: "i < length reqs" if "(i, ms) \<in> set (cn_log a)" for i ms
    using assms that by (force simp: conc_inv_def)
  have one: "length (filter (\<lambda>e. fst e = i) (cn_log a)) \<le> 1" for i
  proof (cases "i < length reqs")
    case False
    then have "filter (\<lambda>e. fst e = i) (cn_log a) = []" using inside by (auto simp: filter_empty_conv)
    then show ?thesis by simp
  qed (use own in fastforce)
  have "ms = items_of (snd (reqs ! i))" if "(i, ms) \<in> set (cn_log a)" for i ms
  proof -
    have "(i, ms) \<in> set (filter (\<lambda>e. fst e = i) (cn_log a))" using that by simp
    moreover have "set (filter (\<lambda>e. fst e = i) (cn_log a)) \<subseteq> {(i, items_of (snd (reqs ! i)))}"
      using own [OF inside [OF that]] by (metis empty_subsetI insertE list.set singletonD subset_refl)
    ultimately show ?thesis by blast
  qed
  with inside distinct_keys [OF one] show ?thesis by blast
qed

lemma conc_acknowledged:
  assumes "conc_inv w0 reqs a"
  shows "\<forall>i x. i < length reqs \<and> cn_threads a ! i = Answered (Inr x) \<longrightarrow> (i, items_of (snd (reqs ! i))) \<in> set (cn_log a)"
proof (intro allI impI)
  fix i x assume i: "i < length reqs \<and> cn_threads a ! i = Answered (Inr x)"
  with assms have "thread_ok (gauge_of (w_repo w0)) (counter_of (w_repo w0)) (cn_log a) i (snd (reqs ! i)) (Answered (Inr x))"
    by (metis conc_inv_def)
  then have "logged_once (cn_log a) i (snd (reqs ! i))" by (cases "snd (reqs ! i)"; cases x) auto
  then show "(i, items_of (snd (reqs ! i))) \<in> set (cn_log a)" by (rule logged_once_member)
qed

end

section \<open>The audit channel\<close>

lemma thread_step_on:
  assumes "thread_step s (w, t) = (w', t')" and "audit_on s w"
  shows "audit_on s w'"
proof (cases "(s, w, t)" rule: thread_step.cases)
  case (3 s' w1 c m)
  with assms Get_on [of s c "MType m" "ID m" w] show ?thesis by (auto split: prod.splits sum.splits)
qed (use assms notifyAudit_on in \<open>auto simp: upsert_write_def batch_write_def Let_def split: if_splits option.splits prod.splits sum.splits\<close>)

lemma conc_audit_on:
  assumes "conc_reach s w0 reqs a" and "audit_on s w0"
  shows "audit_on s (cn_world a)"
  using assms
proof (induction rule: conc_reach.induct)
  case (step a i w' t')
  with thread_step_on show ?case by simp
next
  case (audit a w')
  then show ?case by (auto simp: dispatch_def audit_on_def split: if_splits option.splits list.splits)
qed simp_all

section \<open>Sums over the threads\<close>

definition delta_for :: "string \<Rightarrow> Metrics \<Rightarrow> int64" where
  "delta_for k m = (if MType m = Counter \<and> ID m = k then counter_or_zero (Delta m) else 0)"

lemma sum_deltas_for: "sum_list (deltas_for k ms) = (\<Sum>m \<in># mset ms. delta_for k m)"
  by (induction ms) (auto simp: delta_for_def split: option.split)

lemma sum_mset_sum: "(\<Sum>m \<in># (\<Sum>j < n. M j). f m) = (\<Sum>j < n. \<Sum>m \<in># M j. f m)" for f :: "'a \<Rightarrow> int64" and n :: nat
  by (induction n) simp_all

section \<open>Properties\<close>

text \<open>Runs that follow a schedule, for concrete interleavings.\<close>

definition conc_exec :: "('r, 'w) Service \<Rightarrow> nat \<Rightarrow> ('r, 'w) conc \<Rightarrow> ('r, 'w) conc" where
  "conc_exec s i a =
     (case thread_step s (cn_world a, cn_threads a ! i) of
        (w', t') \<Rightarrow> \<lparr>cn_world = w', cn_threads = (cn_threads a)[i := t'], cn_log = cn_log a @ log_entry_of i (written (cn_threads a ! i) t')\<rparr>)"

fun run_schedule :: "('r, 'w) Service \<Rightarrow> nat list \<Rightarrow> ('r, 'w) conc \<Rightarrow> ('r, 'w) conc" where
  "run_schedule s [] a = a"
| "run_schedule s (i # is) a = run_schedule s is (conc_exec s i a)"

definition conc_start :: "('r, 'w) svc_world \<Rightarrow> (go_context \<times> request) list \<Rightarrow> ('r, 'w) conc" where
  "conc_start w reqs = \<lparr>cn_world = w, cn_threads = map (\<lambda>(c, q). Waiting c q) reqs, cn_log = []\<rparr>"

lemma run_schedule_from:
  "conc_reach s w0 reqs a \<Longrightarrow> list_all (\<lambda>i. i < length (cn_threads a)) is \<Longrightarrow> conc_reach s w0 reqs (run_schedule s is a)"
proof (induction "is" arbitrary: a)
  case (Cons i "is")
  then have "conc_reach s w0 reqs (conc_exec s i a)"
    by (auto simp: conc_exec_def intro: conc_reach.step split: prod.split)
  with Cons show ?case by (simp add: conc_exec_def split: prod.splits)
qed simp

lemma run_schedule_reach:
  "list_all (\<lambda>i. i < length reqs) is \<Longrightarrow> conc_reach s w reqs (run_schedule s is (conc_start w reqs))"
  using run_schedule_from [OF conc_reach.start] by (simp add: conc_start_def)

lemmas conc_eval = conc_exec_def conc_start_def upsert_write_def batch_write_def batch_loop_valid svc_Get_def notifyAudit_off
  mem_AddCounter_def mem_GetCounter_def mem_UpdateMany_def mem_Snapshot_def gm_add_def Let_def mem_New_def

abbreviation two_updates :: "(go_context \<times> request) list" where
  "two_updates \<equiv> [(Background, Update (counter_metric ''c'' 5)), (Background, Update (counter_metric ''c'' 5))]"

text \<open>Both write before either reads: both answers show the sum.\<close>

lemma two_updates_run:
  "\<exists>a. conc_reach (sv_svc sample_server) (sample_world (AnyMem mem_New) sample_out) two_updates a \<and>
     cn_threads a = replicate 2 (Answered (Inr (OneMetric (counter_metric ''c'' 10))))"
proof -
  let ?s = "sv_svc sample_server" and ?w = "sample_world (AnyMem mem_New) sample_out"
  have "cn_threads (run_schedule ?s [0, 1, 0, 0, 1, 1] (conc_start ?w two_updates)) =
      replicate 2 (Answered (Inr (OneMetric (counter_metric ''c'' 10))))"
    by (simp add: conc_eval counter_metric_def numeral_2_eq_2)
  moreover have "conc_reach ?s ?w two_updates (run_schedule ?s [0, 1, 0, 0, 1, 1] (conc_start ?w two_updates))"
    by (rule run_schedule_reach) simp
  ultimately show ?thesis by blast
qed

text \<open>
  C6: Concurrent requests on a server in memory lose no update: in every state any interleaving can reach, each
  counter has grown by the sum of the deltas of all requests that have written, however their steps were mixed
  with the others', and the gauges are those of the writes in some order, in which the metrics of each such
  request occur exactly once.
\<close>

theorem concurrent_no_lost_update:
  assumes "svc_repo s = server_repo" and "mem_backed (w_repo w0)" and "conc_reach s w0 reqs a"
  shows "(\<forall>k. counter_or_zero (any_counter_of (w_repo (cn_world a)) k) =
      counter_or_zero (any_counter_of (w_repo w0) k) +
      (\<Sum>j < length reqs. sum_list (deltas_for k (contribution (snd (reqs ! j)) (cn_threads a ! j))))) \<and>
    (\<exists>log. any_gauge_of (w_repo (cn_world a)) = spec_gauges log (any_gauge_of (w_repo w0)) \<and>
       mset log = (\<Sum>j < length reqs. mset (contribution (snd (reqs ! j)) (cn_threads a ! j))))"
proof -
  note i = srvm.conc_reach_inv [OF assms(3,1,2), unfolded srvm.conc_inv_def]
  have "counter_or_zero (any_counter_of (w_repo (cn_world a)) k) =
      counter_or_zero (any_counter_of (w_repo w0) k) + sum_list (deltas_for k (flat (cn_log a)))" for k
    using i by (auto simp: spec_counters_sum)
  moreover have "sum_list (deltas_for k (flat (cn_log a))) =
      (\<Sum>j < length reqs. sum_list (deltas_for k (contribution (snd (reqs ! j)) (cn_threads a ! j))))" for k
    using i by (simp add: sum_deltas_for sum_mset_sum)
  ultimately show ?thesis using i by auto
qed

theorem concurrent_no_lost_update_witness:
  "\<exists>a. conc_reach (sv_svc sample_server) (sample_world (AnyMem mem_New) sample_out) two_updates a \<and>
     counter_or_zero (any_counter_of (w_repo (cn_world a)) ''c'') = 10"
proof -
  obtain a where a: "conc_reach (sv_svc sample_server) (sample_world (AnyMem mem_New) sample_out) two_updates a"
      "cn_threads a = replicate 2 (Answered (Inr (OneMetric (counter_metric ''c'' 10))))"
    using two_updates_run by blast
  have "mem_backed (w_repo (sample_world (AnyMem mem_New) sample_out))" by (simp add: mem_backed_def)
  from concurrent_no_lost_update [OF _ this a(1)] a show ?thesis
    by (auto simp: lessThan_Suc numeral_2_eq_2 sample_valid intro!: exI [of _ a])
qed

text \<open>
  C19: Every answer shows a state that was really reached: the writes to the repository are those of the requests, each
  request has at most one and it is whole (all the valid metrics of a batch at once), and the metric returned to
  an update is what a read gives after some number of these writes, in the order in which they took effect, the
  request's own write among them. An update is refused exactly when it is malformed.
\<close>

theorem concurrent_answers:
  assumes "svc_repo s = server_repo" and "mem_backed (w_repo w0)" and "conc_reach s w0 reqs a"
    and "j < length reqs" and "snd (reqs ! j) = Update m" and "cn_threads a ! j = Answered ans"
  shows "distinct (map fst (cn_log a)) \<and> (\<forall>(i, ms) \<in> set (cn_log a). i < length reqs \<and> ms = items_of (snd (reqs ! i))) \<and>
    (case ans of
       Inl e \<Rightarrow> valid_item m = None
     | Inr x \<Rightarrow> \<exists>m' p rest. valid_item m = Some m' \<and> cn_log a = p @ rest \<and> (j, [m']) \<in> set p \<and>
         x = OneMetric (read_at m' (spec_gauges (flat p) (any_gauge_of (w_repo w0))) (spec_counters (flat p) (any_counter_of (w_repo w0)))))"
proof -
  note inv = srvm.conc_reach_inv [OF assms(3,1,2)]
  have ok: "thread_ok (any_gauge_of (w_repo w0)) (any_counter_of (w_repo w0)) (cn_log a) j (Update m) (Answered ans)"
    using inv [unfolded srvm.conc_inv_def] assms(4-6) by metis
  have "case ans of
       Inl e \<Rightarrow> valid_item m = None
     | Inr x \<Rightarrow> \<exists>m' p rest. valid_item m = Some m' \<and> cn_log a = p @ rest \<and> (j, [m']) \<in> set p \<and>
         x = OneMetric (read_at m' (spec_gauges (flat p) (any_gauge_of (w_repo w0))) (spec_counters (flat p) (any_counter_of (w_repo w0))))"
  proof (cases ans)
    case (Inl e)
    with ok show ?thesis by (simp split: option.splits)
  next
    case (Inr x)
    with ok show ?thesis by (cases x) (auto simp: answer_ok_def prefix_def)
  qed
  with srvm.conc_log_ok [OF inv] show ?thesis by blast
qed

abbreviation unequal_updates :: "(go_context \<times> request) list" where
  "unequal_updates \<equiv> [(Background, Update (counter_metric ''c'' 5)), (Background, Update (counter_metric ''c'' 3))]"

theorem concurrent_answers_witness:
  "\<exists>a. conc_reach (sv_svc sample_server) (sample_world (AnyMem mem_New) sample_out) unequal_updates a \<and>
     cn_threads a ! 1 = Answered (Inr (OneMetric (counter_metric ''c'' 8))) \<and>
     (\<exists>p rest. cn_log a = p @ rest \<and> (1, [counter_metric ''c'' 3]) \<in> set p)"
proof -
  let ?s = "sv_svc sample_server" and ?w = "sample_world (AnyMem mem_New) sample_out"
  let ?a = "run_schedule ?s [0, 1, 0, 0, 1, 1] (conc_start ?w unequal_updates)"
  have a: "cn_threads ?a ! 1 = Answered (Inr (OneMetric (counter_metric ''c'' 8)))"
    by (simp add: conc_eval counter_metric_def)
  have r: "conc_reach ?s ?w unequal_updates ?a" by (rule run_schedule_reach) simp
  have "mem_backed (w_repo ?w)" by (simp add: mem_backed_def)
  moreover have "valid_item (counter_metric ''c'' 3) = Some (counter_metric ''c'' 3)" by (simp add: valid_item_def counter_metric_def)
  ultimately have "\<exists>p rest. cn_log ?a = p @ rest \<and> (1, [counter_metric ''c'' 3]) \<in> set p"
    using concurrent_answers [OF _ _ r _ _ a, of "counter_metric ''c'' 3"] by auto
  with a r show ?thesis by blast
qed

text \<open>
  C2: nothing acknowledged is lost over a restart that follows an undisturbed save: take a server that keeps its metrics in
  memory, any number of overlapping requests, interleaved in any way with each other, with audit deliveries and with
  anything that happens to the disk and the log meanwhile (failing or stale saves of other batches and of the periodic
  save among them), some of them answered and some not yet, and then a batch that runs without another step between its
  own and whose save logged no warning. A server started on that disk with \<open>Restore\<close> set holds exactly the
  effect of all writes up to then, in the order in which they took effect, on what the first server started with; the
  writes are whole requests, no request has two, and every request that was acknowledged has one. Without the
  undisturbed last batch this fails: \<open>overlapping_batches_lose_a_save\<close>.
\<close>

theorem restart_restores_history:
  assumes started: "server_start env cfg db out = Inr (sv, w0)" "mem_backed (w_repo w0)"
    and history: "conc_reach (sv_svc sv) w0 reqs a" "svc_UpsertBatch (sv_svc sv) c items (cn_world a) = (w', Inr n)"
    and saved: "so_warn (w_out w') = so_warn (w_out (cn_world a))"
    and json: "repo_Snapshot server_repo Background (w_repo w') = (r', Inr snap)"
      "se_decode env (se_text env (flattenSnapshot snap)) = Inr (flattenSnapshot snap)"
    and disk: "sc_File cfg \<notin> tmp_names (sc_File cfg) (so_fs (w_out (cn_world a)))" "fs_faults (so_fs (w_out w')) = []"
    and again: "sc_DSN cfg' = ''''" "sc_Restore cfg'" "sc_File cfg' = sc_File cfg"
  shows "(case buildRepoAndPersister env cfg' db' (w_out w') of (repo, p, out') \<Rightarrow>
      p = Some (sc_File cfg) \<and> mem_backed repo \<and> so_warn out' = so_warn (w_out w') \<and>
      any_gauge_of repo = spec_gauges (flat (cn_log a) @ valid_items items) (any_gauge_of (w_repo w0)) \<and>
      any_counter_of repo = spec_counters (flat (cn_log a) @ valid_items items) (any_counter_of (w_repo w0))) \<and>
    distinct (map fst (cn_log a)) \<and> (\<forall>(i, ms) \<in> set (cn_log a). i < length reqs \<and> ms = items_of (snd (reqs ! i))) \<and>
    (\<forall>i x. i < length reqs \<and> cn_threads a ! i = Answered (Inr x) \<longrightarrow> (i, items_of (snd (reqs ! i))) \<in> set (cn_log a))"
proof -
  note w = server_start_wired [OF started(1)]
  have repo: "svc_repo (sv_svc sv) = server_repo" using w(1) by (simp add: wired_def)
  note inv = srvm.conc_reach_inv [OF history(1) repo started(2)]
  have on: "audit_on (sv_svc sv) (cn_world a)" by (rule conc_audit_on [OF history(1)]) (use w(3) in \<open>simp add: audit_on_def\<close>)
  have mem: "mem_backed (w_repo (cn_world a))" "any_gauge_of (w_repo (cn_world a)) = spec_gauges (flat (cn_log a)) (any_gauge_of (w_repo w0))"
      "any_counter_of (w_repo (cn_world a)) = spec_counters (flat (cn_log a)) (any_counter_of (w_repo w0))"
    using inv by (simp_all add: srvm.conc_inv_def)
  from restart_after_batch [OF started mem(1) on history(2) saved json disk again, of db']
  have "case buildRepoAndPersister env cfg' db' (w_out w') of (repo, p, out') \<Rightarrow>
      p = Some (sc_File cfg) \<and> mem_backed repo \<and> so_warn out' = so_warn (w_out w') \<and>
      any_gauge_of repo = spec_gauges (flat (cn_log a) @ valid_items items) (any_gauge_of (w_repo w0)) \<and>
      any_counter_of repo = spec_counters (flat (cn_log a) @ valid_items items) (any_counter_of (w_repo w0))"
    by (simp add: mem(2,3) spec_gauges_append spec_counters_append)
  with srvm.conc_log_ok [OF inv] srvm.conc_acknowledged [OF inv] show ?thesis by blast
qed

text \<open>One update has been acknowledged; a batch follows.\<close>

lemma sample_update:
  "\<exists>a. conc_reach (sv_svc sample_server) (sample_world (AnyMem mem_New) sample_out) [(Background, Update (counter_metric ''c'' 2))] a \<and>
     cn_world a = sample_world (AnyMem \<lparr>gauges = [], counters = [(''c'', 2)]\<rparr>) sample_out \<and>
     cn_log a = [(0, [counter_metric ''c'' 2])]"
proof -
  let ?a = "run_schedule (sv_svc sample_server) [0, 0, 0] (conc_start (sample_world (AnyMem mem_New) sample_out)
      [(Background, Update (counter_metric ''c'' 2))])"
  have "cn_world ?a = sample_world (AnyMem \<lparr>gauges = [], counters = [(''c'', 2)]\<rparr>) sample_out \<and> cn_log ?a = [(0, [counter_metric ''c'' 2])]"
    by (simp add: conc_eval counter_metric_def log_entry_of_def)
  moreover have "conc_reach (sv_svc sample_server) (sample_world (AnyMem mem_New) sample_out) [(Background, Update (counter_metric ''c'' 2))] ?a"
    by (rule run_schedule_reach) simp
  ultimately show ?thesis by blast
qed

lemma sample_last_batch:
  "svc_UpsertBatch (sv_svc sample_server) Background [counter_metric ''c'' 3] (sample_world (AnyMem \<lparr>gauges = [], counters = [(''c'', 2)]\<rparr>) sample_out) =
     (sample_world (AnyMem \<lparr>gauges = [], counters = [(''c'', 5)]\<rparr>) saved_out, Inr 1)"
proof -
  have "valid_item (counter_metric ''c'' 3) = Some (counter_metric ''c'' 3)" by (simp add: valid_item_def counter_metric_def)
  with sample_save show ?thesis
    by (simp add: svc_UpsertBatch_def batch_loop_valid mem_UpdateMany_def notifyAudit_off mem_Snapshot_def gm_add_def onChanged_def warn_if_def)
qed

theorem restart_restores_history_witness:
  "case buildRepoAndPersister sample_env (sample_cfg '''' True) (pg_db [] []) saved_out of
     (repo, p, out') \<Rightarrow> p = Some ''m'' \<and> any_counter_of repo ''c'' = Some 5"
proof -
  obtain a where a: "conc_reach (sv_svc sample_server) (sample_world (AnyMem mem_New) sample_out) [(Background, Update (counter_metric ''c'' 2))] a"
      "cn_world a = sample_world (AnyMem \<lparr>gauges = [], counters = [(''c'', 2)]\<rparr>) sample_out" "cn_log a = [(0, [counter_metric ''c'' 2])]"
    using sample_update by blast
  have ne: "''m'' \<notin> tmp_names ''m'' (so_fs sample_out)"
    by (simp add: tmp_path_def filepath_Dir_def last_slash_prefix_def filepath_Clean_def slash_def HasPrefix_def)
  have v: "valid_items [counter_metric ''c'' 3] = [counter_metric ''c'' 3]" by (simp add: valid_item_def counter_metric_def)
  from restart_restores_history [OF sample_start _ a(1) sample_last_batch [folded a(2)], of "AnyMem \<lparr>gauges = [], counters = [(''c'', 5)]\<rparr>"
      "\<lparr>Gauges = [], Counters = [(''c'', 5)]\<rparr>" "sample_cfg '''' True" "pg_db [] []"] ne
  show ?thesis
    unfolding v a(3) a(2) by (auto simp: mem_backed_def mem_Snapshot_def flattenSnapshot_def flat_def split: prod.splits)
qed

text \<open>
  Two batches that overlap can leave an old snapshot in the file: the first takes its snapshot, the second
  writes, snapshots and saves, then the first saves. Both are acknowledged and both saves succeed, but the file
  lacks the second batch, which a restart then loses.
\<close>

abbreviation names_env :: server_env where
  "names_env \<equiv> sample_env\<lparr>se_text := (\<lambda>ms. concat (map ID ms))\<rparr>"

abbreviation names_svc :: "(any_repo, srv_out) Service" where
  "names_svc \<equiv> \<lparr>svc_repo = server_repo, svc_onChanged = Some (onChanged names_env (Some ''m'')), svc_auditor = None, svc_now = Some (\<lambda>out. 0)\<rparr>"

abbreviation disk_out :: "string gomap \<Rightarrow> string list \<Rightarrow> srv_out" where
  "disk_out files names \<equiv> \<lparr>so_fs = \<lparr>fs_files = files, fs_faults = [], fs_rand = names\<rparr>, so_warn = []\<rparr>"

lemma save_names:
  assumes "files = [] \<or> files = [(''m'', old)]"
  shows "Persister_Save (\<lambda>ms. concat (map ID ms)) ''m'' \<lparr>Gauges = [], Counters = cs\<rparr> \<lparr>fs_files = files, fs_faults = [], fs_rand = ''1'' # names\<rparr> =
    (\<lparr>fs_files = [(''m'', concat (map fst cs))], fs_faults = [], fs_rand = names\<rparr>, None)"
proof -
  have ids: "concat (map (ID \<circ> (\<lambda>(x, y). counter_metric x y)) cs) = concat (map fst cs)"
    by (rule arg_cong [of _ _ concat]) auto
  have ok: "\<not> list_ex json_refuses (map (\<lambda>(k, d). counter_metric k d) cs)" by (auto simp: list_ex_iff)
  show ?thesis
    using assms ok
    by (auto simp: Persister_Save_def writeJSONAtomic_def Let_def fs_call_def fs_next_def os_CreateTemp_def write_tmp_def
        write_deferred_def os_Write_def os_Rename_def flattenSnapshot_def json_Encode_def fs_put_def fs_content_def fs_del_def
        tmp_path_def filepath_Dir_def last_slash_prefix_def filepath_Clean_def slash_def HasPrefix_def ids)
qed

lemma hook_names:
  assumes "files = [] \<or> files = [(''m'', old)]"
  shows "onChanged names_env (Some ''m'') c \<lparr>Gauges = [], Counters = cs\<rparr> (disk_out files (''1'' # names)) =
    disk_out [(''m'', concat (map fst cs))] names"
  using save_names [OF assms, of cs names] by (simp add: onChanged_def warn_if_def)

theorem overlapping_batches_lose_a_save:
  "\<exists>schedule a. a = run_schedule names_svc schedule (conc_start (sample_world (AnyMem mem_New) (disk_out [] [''1'', ''1'']))
       [(Background, Batch [counter_metric ''a'' 1]), (Background, Batch [counter_metric ''b'' 1])]) \<and>
     cn_threads a = [Answered (Inr (Count 1)), Answered (Inr (Count 1))] \<and>
     any_counter_of (w_repo (cn_world a)) ''b'' = Some 1 \<and> so_warn (w_out (cn_world a)) = [] \<and>
     fs_content ''m'' (so_fs (w_out (cn_world a))) = Some ''a''"
proof -
  let ?w = "sample_world (AnyMem mem_New) (disk_out [] [''1'', ''1''])"
  let ?reqs = "[(Background, Batch [counter_metric ''a'' 1]), (Background, Batch [counter_metric ''b'' 1])]"
  let ?a = "run_schedule names_svc [0, 0, 0, 1, 1, 1, 1, 0] (conc_start ?w ?reqs)"
  have v: "TrimSpace ''a'' = ''a''" "TrimSpace ''b'' = ''b''" by (rule TrimSpace_visible, simp add: visible_def)+
  have v': "valid_item (counter_metric n 1) = Some (counter_metric n 1)" if "n = ''a'' \<or> n = ''b''" for n
    using that by (auto simp: valid_item_def v counter_metric_def)
  have "cn_threads ?a = [Answered (Inr (Count 1)), Answered (Inr (Count 1))] \<and>
      w_repo (cn_world ?a) = AnyMem \<lparr>gauges = [], counters = [(''a'', 1), (''b'', 1)]\<rparr> \<and>
      w_out (cn_world ?a) = disk_out [(''m'', ''a'')] []"
    using hook_names [of "[]" "''''" Background "[(''a'', 1), (''b'', 1)]" "[''1'']"]
      hook_names [of "[(''m'', ''ab'')]" "''ab''" Background "[(''a'', 1)]" "[]"]
    by (simp add: conc_eval v')
  then show ?thesis by (intro exI [of _ "[0, 0, 0, 1, 1, 1, 1, 0]"] exI [of _ ?a]) (simp add: mem_counter_of_def fs_content_def)
qed

end
