(* ===== verification/Concurrent_Saves.thy ===== *)
theory Concurrent_Saves
  imports Persister "HOL-Library.Multiset"
begin

text \<open>
  Snapshot saves that run at the same time, and saves that are cut off. \<open>UpsertBatch\<close> saves on the
  goroutine of its request, the ticker of \<open>cmd/server/main.go\<close> saves on another one, and nothing orders
  their calls of \<open>Persister.Save\<close> (\<open>internal/adapters/persistence/file/file.go\<close>) but the file system. Here
  \<open>writeJSONAtomic\<close> is a thread that makes one system call per step. Run without interruption its steps are
  the sequential definition of \<open>Persister\<close> (\<open>save_thread_runs\<close>); \<open>saves_reach\<close> interleaves any number
  of such threads, where a \<open>write\<close> may also take several system calls. A process that is killed leaves the
  disk of a reachable state, so what holds of all of them holds after a crash.
\<close>

section \<open>The threads\<close>

datatype save_pc =
    Mkdir
  | CreateTmp
  | Encode string
  | Writing string string
  | CloseTmp string
  | Renaming string
  | DeferClose string "go_error option"
  | DeferRemove string "go_error option"
  | Returned "go_error option"

fun save_step :: "(Metrics list \<Rightarrow> string) \<Rightarrow> string \<Rightarrow> Metrics list \<Rightarrow> fs \<times> save_pc \<Rightarrow> fs \<times> save_pc" where
  "save_step text path items (s, Mkdir) =
     (let dir = filepath_Dir path in
      if dir \<noteq> '''' \<and> dir \<noteq> ''.''
      then (case fs_call s of
              (s1, Some e) \<Rightarrow> (s1, Returned (Some (Wrapf ''mkdir'' e)))
            | (s1, None) \<Rightarrow> (s1, CreateTmp))
      else (s, CreateTmp))"
| "save_step text path items (s, CreateTmp) =
     (case os_CreateTemp (filepath_Dir path) s of
        (s1, Inl e) \<Rightarrow> (s1, Returned (Some (Wrapf ''create tmp'' e)))
      | (s1, Inr tmpName) \<Rightarrow> (s1, Encode tmpName))"
| "save_step text path items (s, Encode tmpName) =
     (case json_Encode text items of
        Inl e \<Rightarrow> (s, DeferClose tmpName (Some (Wrapf ''encode'' e)))
      | Inr bytes \<Rightarrow> (s, Writing tmpName bytes))"
| "save_step text path items (s, Writing tmpName bytes) =
     (case os_Write tmpName bytes s of
        (s1, Some e) \<Rightarrow> (s1, DeferClose tmpName (Some (Wrapf ''encode'' e)))
      | (s1, None) \<Rightarrow> (s1, CloseTmp tmpName))"
| "save_step text path items (s, CloseTmp tmpName) =
     (case fs_call s of
        (s1, Some e) \<Rightarrow> (s1, DeferClose tmpName (Some (Wrapf ''close tmp'' e)))
      | (s1, None) \<Rightarrow> (s1, Renaming tmpName))"
| "save_step text path items (s, Renaming tmpName) =
     (case os_Rename tmpName path s of
        (s1, Some e) \<Rightarrow> (s1, DeferRemove tmpName (Some (Wrapf ''rename'' e)))
      | (s1, None) \<Rightarrow> (s1, Returned None))"
| "save_step text path items (s, DeferClose tmpName retErr) =
     (case fs_call s of
        (s1, Some e) \<Rightarrow> (s1, DeferRemove tmpName (if retErr = None then Some (Wrapf ''close tmp'' e) else retErr))
      | (s1, None) \<Rightarrow> (s1, DeferRemove tmpName retErr))"
| "save_step text path items (s, DeferRemove tmpName retErr) =
     (case os_Remove tmpName s of
        (s1, Some e) \<Rightarrow> (s1, Returned (if retErr = None then Some (Wrapf ''remove tmp'' e) else retErr))
      | (s1, None) \<Rightarrow> (s1, Returned retErr))"
| "save_step text path items (s, Returned retErr) = (s, Returned retErr)"

text \<open>One step of a thread, where the operating system may also take only the first \<open>k\<close> bytes of a write.\<close>

inductive save_moves ::
  "(Metrics list \<Rightarrow> string) \<Rightarrow> string \<Rightarrow> Metrics list \<Rightarrow> fs \<times> save_pc \<Rightarrow> fs \<times> save_pc \<Rightarrow> bool"
  for "text" :: "Metrics list \<Rightarrow> string" and path :: string and items :: "Metrics list" where
  call: "save_moves text path items c (save_step text path items c)"
| partial: "fs_content tmpName s = Some old \<Longrightarrow>
     save_moves text path items (s, Writing tmpName bytes)
       (fs_put tmpName (old @ take k bytes) s, Writing tmpName (drop k bytes))"

text \<open>The disk, the saves that were called, and the snapshots in the order in which they were renamed into place.\<close>

record saves =
  sv_fs :: fs
  sv_threads :: "(Snapshot \<times> save_pc) list"
  sv_log :: "Snapshot list"

inductive saves_reach :: "(Metrics list \<Rightarrow> string) \<Rightarrow> string \<Rightarrow> fs \<Rightarrow> saves \<Rightarrow> bool"
  for "text" :: "Metrics list \<Rightarrow> string" and path :: string and s0 :: fs where
  start: "saves_reach text path s0 \<lparr>sv_fs = s0, sv_threads = [], sv_log = []\<rparr>"
| save: "saves_reach text path s0 a \<Longrightarrow> saves_reach text path s0 (a\<lparr>sv_threads := sv_threads a @ [(snap, Mkdir)]\<rparr>)"
| step: "saves_reach text path s0 a \<Longrightarrow> i < length (sv_threads a) \<Longrightarrow> sv_threads a ! i = (snap, pc) \<Longrightarrow>
     save_moves text path (flattenSnapshot snap) (sv_fs a, pc) (s', pc') \<Longrightarrow>
     saves_reach text path s0
       \<lparr>sv_fs = s', sv_threads = (sv_threads a)[i := (snap, pc')],
        sv_log = sv_log a @ (if pc \<noteq> Returned None \<and> pc' = Returned None then [snap] else [])\<rparr>"

section \<open>The steps of one thread are the operation\<close>

lemma run_Returned [simp]: "(save_step text path items ^^ n) (s, Returned r) = (s, Returned r)"
  by (induction n) simp_all

lemma run_step: "(save_step text path items ^^ Suc n) c = (save_step text path items ^^ n) (save_step text path items c)"
  by (simp add: funpow_swap1)

lemma run_deferred:
  "(save_step text path items ^^ Suc n) (s, DeferRemove tmp r) = map_prod id Returned (write_deferred tmp (s, r, False, True))"
  "(save_step text path items ^^ Suc (Suc n)) (s, DeferClose tmp r) = map_prod id Returned (write_deferred tmp (s, r, True, True))"
  by (simp_all add: run_step write_deferred_def del: funpow.simps split: prod.split option.split)

lemma run_write_tmp:
  "(save_step text path items ^^ 5) (s, Encode tmp) =
     map_prod id Returned (write_deferred tmp (write_tmp text path tmp items s))"
proof -
  have "(save_step text path items ^^ Suc (Suc (Suc (Suc (Suc 0))))) (s, Encode tmp) =
     map_prod id Returned (write_deferred tmp (write_tmp text path tmp items s))"
    by (subst run_step)
       (simp add: run_step run_deferred write_tmp_def del: funpow.simps split: prod.split option.split sum.split;
        simp add: write_deferred_def)
  then show ?thesis by (simp add: eval_nat_numeral)
qed

lemma save_thread_runs:
  "(save_step text path items ^^ 7) (s, Mkdir) = map_prod id Returned (writeJSONAtomic text path items s)"
proof -
  have "(save_step text path items ^^ Suc (Suc 5)) (s, Mkdir) = map_prod id Returned (writeJSONAtomic text path items s)"
    unfolding run_step by (simp add: run_write_tmp writeJSONAtomic_def Let_def split: prod.split option.split sum.split)
  then show ?thesis by simp
qed

section \<open>One move\<close>

text \<open>The temporary file of a thread, and what the thread knows of it.\<close>

fun held :: "save_pc \<Rightarrow> string option" where
  "held (Encode tmp) = Some tmp"
| "held (Writing tmp bytes) = Some tmp"
| "held (CloseTmp tmp) = Some tmp"
| "held (Renaming tmp) = Some tmp"
| "held (DeferClose tmp r) = Some tmp"
| "held (DeferRemove tmp r) = Some tmp"
| "held _ = None"

fun save_ok :: "(Metrics list \<Rightarrow> string) \<Rightarrow> Metrics list \<Rightarrow> fs \<Rightarrow> save_pc \<Rightarrow> bool" where
  "save_ok text items s (Encode tmp) \<longleftrightarrow> fs_content tmp s = Some []"
| "save_ok text items s (Writing tmp bytes) \<longleftrightarrow> (\<exists>old. fs_content tmp s = Some old \<and> old @ bytes = text items)"
| "save_ok text items s (CloseTmp tmp) \<longleftrightarrow> fs_content tmp s = Some (text items)"
| "save_ok text items s (Renaming tmp) \<longleftrightarrow> fs_content tmp s = Some (text items)"
| "save_ok text items s (DeferClose tmp r) \<longleftrightarrow> fs_content tmp s \<noteq> None \<and> r \<noteq> None"
| "save_ok text items s (DeferRemove tmp r) \<longleftrightarrow> fs_content tmp s \<noteq> None \<and> r \<noteq> None"
| "save_ok text items s pc \<longleftrightarrow> True"

lemma save_ok_cong:
  "save_ok text items s pc \<Longrightarrow> (\<And>n. held pc = Some n \<Longrightarrow> fs_content n s' = fs_content n s) \<Longrightarrow> save_ok text items s' pc"
  by (cases pc) auto

lemma pick_tmp_rest: "pick_tmp dir rs s = Some (name, rest) \<Longrightarrow> set rest \<subseteq> set rs"
  by (induction dir rs s rule: pick_tmp.induct) (auto split: if_splits)

lemma os_calls_quiet:
  "os_CreateTemp dir s = (s', x) \<Longrightarrow> set (fs_rand s') \<subseteq> set (fs_rand s) \<and> (fs_faults s = [] \<longrightarrow> fs_faults s' = [])"
  "os_Write p b s = (s', y) \<Longrightarrow> fs_rand s' = fs_rand s \<and> (fs_faults s = [] \<longrightarrow> fs_faults s' = [] \<and> y = None)"
  "os_Rename p q s = (s', y) \<Longrightarrow> fs_rand s' = fs_rand s \<and> (fs_faults s = [] \<longrightarrow> fs_faults s' = [] \<and> (fs_content p s \<noteq> None \<longrightarrow> y = None))"
  "os_Remove p s = (s', y) \<Longrightarrow> fs_rand s' = fs_rand s \<and> (fs_faults s = [] \<longrightarrow> fs_faults s' = [] \<and> fs_content p s' = None)"
  using fs_call_facts [of s] fs_next_facts [of s]
  by (auto simp: os_CreateTemp_def os_Write_def os_Rename_def os_Remove_def Let_def
      split: prod.splits option.splits fs_fault.splits if_splits dest!: pick_tmp_rest)

lemma os_Write_result:
  assumes "os_Write tmp bytes s = (s', y)" and "fs_content tmp s = Some old"
  shows "if y = None then fs_content tmp s' = Some (old @ bytes) else fs_content tmp s' \<noteq> None"
  using assms fs_next_facts [of s]
  by (auto simp: os_Write_def Let_def split: prod.splits fs_fault.splits)

text \<open>
  A move touches its own temporary file and, in the successful rename, the target, which then holds the
  complete text.
\<close>

lemma save_moves_facts:
  assumes "save_moves text path items (s, pc) (s', pc')" and ok: "save_ok text items s pc"
    and ne: "held pc \<noteq> Some path" and fresh: "path \<notin> tmp_names path s"
  shows "save_ok text items s' pc' \<and>
    (\<forall>p. p \<noteq> path \<longrightarrow> held pc \<noteq> Some p \<longrightarrow> held pc' \<noteq> Some p \<longrightarrow> fs_content p s' = fs_content p s) \<and>
    (held pc' \<noteq> held pc \<longrightarrow> held pc' = None \<or>
       held pc = None \<and> (\<exists>n \<in> tmp_names path s. held pc' = Some n \<and> fs_content n s = None)) \<and>
    fs_content path s' = (if pc \<noteq> Returned None \<and> pc' = Returned None then Some (text items) else fs_content path s) \<and>
    (pc = Returned None \<longrightarrow> pc' = Returned None) \<and> set (fs_rand s') \<subseteq> set (fs_rand s) \<and>
    (fs_faults s = [] \<longrightarrow> fs_faults s' = [] \<and> (\<forall>n. held pc = Some n \<longrightarrow> held pc' = None \<longrightarrow> fs_content n s' = None))"
  using assms(1)
proof cases
  case call
  show ?thesis
  proof (cases pc)
    case Mkdir
    with call fs_call_facts [of s] show ?thesis by (auto simp: Let_def split: prod.splits option.splits if_splits)
  next
    case CreateTmp
    obtain s1 x where ct: "os_CreateTemp (filepath_Dir path) s = (s1, x)" by fastforce
    with CreateTmp call os_CreateTemp_facts [OF ct] os_calls_quiet(1) [OF ct] fresh show ?thesis
      by (cases x) auto
  next
    case (Encode tmp)
    with call ok show ?thesis by (auto simp: json_Encode_def split: if_splits)
  next
    case (Writing tmp bytes)
    obtain s1 y where w: "os_Write tmp bytes s = (s1, y)" by fastforce
    from Writing ok obtain old where "fs_content tmp s = Some old" "old @ bytes = text items" by auto
    with Writing call w ne os_Write_result [OF w] os_Write_other [OF w] os_calls_quiet(2) [OF w] show ?thesis
      by (cases y) auto
  next
    case (CloseTmp tmp)
    with call ok fs_call_facts [of s] show ?thesis by (auto split: prod.splits option.splits)
  next
    case (Renaming tmp)
    obtain s1 y where r: "os_Rename tmp path s = (s1, y)" by fastforce
    with Renaming call ok ne os_Rename_facts [OF r] os_calls_quiet(3) [OF r] show ?thesis
      by (cases y) auto
  next
    case (DeferClose tmp r)
    with call ok fs_call_facts [of s] show ?thesis by (auto split: prod.splits option.splits)
  next
    case (DeferRemove tmp r)
    obtain s1 y where m: "os_Remove tmp s = (s1, y)" by fastforce
    with DeferRemove call ok ne os_Remove_other [OF m] os_calls_quiet(4) [OF m] show ?thesis
      by (cases y) auto
  next
    case (Returned r)
    with call show ?thesis by auto
  qed
next
  case (partial tmp old bytes k)
  with ok ne show ?thesis by auto
qed

section \<open>The invariant\<close>

text \<open>
  Each thread knows its temporary file, which is new and no other thread's; the target is the snapshot
  renamed last; files that were there are untouched; without faults nothing else is left behind.
\<close>

definition apart :: "(Snapshot \<times> save_pc) list \<Rightarrow> bool" where
  "apart ts \<longleftrightarrow>
     (\<forall>i j n. i < length ts \<longrightarrow> j < length ts \<longrightarrow> i \<noteq> j \<longrightarrow> held (snd (ts ! i)) = Some n \<longrightarrow> held (snd (ts ! j)) \<noteq> Some n)"

definition threads_ok :: "(Metrics list \<Rightarrow> string) \<Rightarrow> string \<Rightarrow> fs \<Rightarrow> saves \<Rightarrow> bool" where
  "threads_ok text path s0 a \<longleftrightarrow>
     (\<forall>(snap, pc) \<in> set (sv_threads a). save_ok text (flattenSnapshot snap) (sv_fs a) pc \<and>
        (\<forall>n. held pc = Some n \<longrightarrow> n \<in> tmp_names path s0 \<and> fs_content n s0 = None)) \<and>
     apart (sv_threads a)"

definition disk_ok :: "(Metrics list \<Rightarrow> string) \<Rightarrow> string \<Rightarrow> fs \<Rightarrow> saves \<Rightarrow> bool" where
  "disk_ok text path s0 a \<longleftrightarrow>
     set (fs_rand (sv_fs a)) \<subseteq> set (fs_rand s0) \<and>
     (\<forall>p. p \<noteq> path \<longrightarrow> p \<notin> tmp_names path s0 \<or> fs_content p s0 \<noteq> None \<longrightarrow> fs_content p (sv_fs a) = fs_content p s0) \<and>
     fs_content path (sv_fs a) =
       (if sv_log a = [] then fs_content path s0 else Some (text (flattenSnapshot (last (sv_log a))))) \<and>
     (fs_faults s0 = [] \<longrightarrow> fs_faults (sv_fs a) = [] \<and>
        (\<forall>p. p \<noteq> path \<longrightarrow> (\<forall>t \<in> set (sv_threads a). held (snd t) \<noteq> Some p) \<longrightarrow> fs_content p (sv_fs a) = fs_content p s0))"

definition log_ok :: "saves \<Rightarrow> bool" where
  "log_ok a \<longleftrightarrow>
     mset (sv_log a) = image_mset fst (filter_mset (\<lambda>t. snd t = Returned None) (mset (sv_threads a)))"

definition saves_inv :: "(Metrics list \<Rightarrow> string) \<Rightarrow> string \<Rightarrow> fs \<Rightarrow> saves \<Rightarrow> bool" where
  "saves_inv text path s0 a \<longleftrightarrow> threads_ok text path s0 a \<and> disk_ok text path s0 a \<and> log_ok a"

lemma apartD:
  "apart ts \<Longrightarrow> i < length ts \<Longrightarrow> j < length ts \<Longrightarrow> i \<noteq> j \<Longrightarrow> held (snd (ts ! i)) = Some n \<Longrightarrow> held (snd (ts ! j)) \<noteq> Some n"
  unfolding apart_def by blast

lemma apart_snoc:
  assumes "apart ts" and "held (snd t) = None"
  shows "apart (ts @ [t])"
  unfolding apart_def
proof (intro allI impI)
  fix i j n
  assume "i < length (ts @ [t])" "j < length (ts @ [t])" "i \<noteq> j" "held (snd ((ts @ [t]) ! i)) = Some n"
  with assms(2) show "held (snd ((ts @ [t]) ! j)) \<noteq> Some n"
    using apartD [OF assms(1), of i j n] by (cases "i < length ts"; cases "j < length ts") (simp_all add: nth_append)
qed

lemma apart_update:
  assumes "apart ts" and "i < length ts"
    and new: "\<And>j n. j < length ts \<Longrightarrow> j \<noteq> i \<Longrightarrow> held (snd t) = Some n \<Longrightarrow> held (snd (ts ! j)) \<noteq> Some n"
  shows "apart (ts[i := t])"
  unfolding apart_def
proof (intro allI impI)
  fix k j n
  assume "k < length (ts[i := t])" "j < length (ts[i := t])" "k \<noteq> j" "held (snd (ts[i := t] ! k)) = Some n"
  then show "held (snd (ts[i := t] ! j)) \<noteq> Some n"
    using apartD [OF assms(1), of k j n] new [of j n] new [of k n] by (cases "k = i"; cases "j = i") auto
qed

lemma disk_okD:
  assumes "disk_ok text path s0 a"
  shows "tmp_names path (sv_fs a) \<subseteq> tmp_names path s0"
    and "p \<noteq> path \<Longrightarrow> p \<notin> tmp_names path s0 \<Longrightarrow> fs_content p (sv_fs a) = fs_content p s0"
    and "p \<noteq> path \<Longrightarrow> fs_content p s0 \<noteq> None \<Longrightarrow> fs_content p (sv_fs a) = fs_content p s0"
    and "fs_faults s0 = [] \<Longrightarrow> fs_faults (sv_fs a) = []"
    and "fs_faults s0 = [] \<Longrightarrow> p \<noteq> path \<Longrightarrow> (\<And>j. j < length (sv_threads a) \<Longrightarrow> held (snd (sv_threads a ! j)) \<noteq> Some p) \<Longrightarrow>
      fs_content p (sv_fs a) = fs_content p s0"
  using assms unfolding disk_ok_def by (blast, blast, blast, blast, metis in_set_conv_nth)

lemma saves_inv_start: "saves_inv text path s0 \<lparr>sv_fs = s0, sv_threads = [], sv_log = []\<rparr>"
  by (simp add: saves_inv_def threads_ok_def disk_ok_def log_ok_def apart_def)

lemma saves_inv_save:
  "saves_inv text path s0 a \<Longrightarrow> saves_inv text path s0 (a\<lparr>sv_threads := sv_threads a @ [(snap, Mkdir)]\<rparr>)"
  by (simp add: saves_inv_def threads_ok_def disk_ok_def log_ok_def apart_snoc)

text \<open>A move of one thread, as the others see it.\<close>

lemma move_held:
  assumes inv: "threads_ok text path s0 a" "disk_ok text path s0 a" and fresh: "path \<notin> tmp_names path s0"
    and i: "i < length (sv_threads a)" "sv_threads a ! i = (snap, pc)"
    and move: "save_moves text path (flattenSnapshot snap) (sv_fs a, pc) (s', pc')"
  shows "save_ok text (flattenSnapshot snap) (sv_fs a) pc" and "held pc \<noteq> Some path" and "path \<notin> tmp_names path (sv_fs a)"
    and "held pc' = Some n \<Longrightarrow> n \<in> tmp_names path s0 \<and> fs_content n s0 = None \<and> n \<noteq> path"
    and "held pc' = Some n \<Longrightarrow> j < length (sv_threads a) \<Longrightarrow> j \<noteq> i \<Longrightarrow> held (snd (sv_threads a ! j)) \<noteq> Some n"
    and "j < length (sv_threads a) \<Longrightarrow> j \<noteq> i \<Longrightarrow> held (snd (sv_threads a ! j)) = Some n \<Longrightarrow> fs_content n s' = fs_content n (sv_fs a)"
proof -
  have t: "save_ok text (flattenSnapshot sn) (sv_fs a) q \<and>
      (\<forall>n. held q = Some n \<longrightarrow> n \<in> tmp_names path s0 \<and> fs_content n s0 = None)"
    if "j < length (sv_threads a)" "fst (sv_threads a ! j) = sn" "snd (sv_threads a ! j) = q" for j sn q
    using inv(1) nth_mem [OF that(1)] that(2,3) by (auto simp: threads_ok_def)
  show ok: "save_ok text (flattenSnapshot snap) (sv_fs a) pc" and ne: "held pc \<noteq> Some path"
    using t [OF i(1), of snap pc] i(2) fresh by auto
  show fr: "path \<notin> tmp_names path (sv_fs a)" using disk_okD(1) [OF inv(2)] fresh by blast
  note m = save_moves_facts [OF move ok ne fr]
  have new: "n \<in> tmp_names path s0 \<and> fs_content n s0 = None \<and> (held pc = Some n \<or> fs_content n (sv_fs a) = None)"
    if n: "held pc' = Some n" for n
  proof (cases "held pc = Some n")
    case True
    with t [OF i(1), of snap pc] i(2) show ?thesis by auto
  next
    case False
    with m n have "n \<in> tmp_names path (sv_fs a)" and c: "fs_content n (sv_fs a) = None" by auto
    with disk_okD(1) [OF inv(2)] have "n \<in> tmp_names path s0" by blast
    moreover from this fresh have "n \<noteq> path" by metis
    ultimately show ?thesis using disk_okD(3) [OF inv(2)] c by metis
  qed
  then show "held pc' = Some n \<Longrightarrow> n \<in> tmp_names path s0 \<and> fs_content n s0 = None \<and> n \<noteq> path" using fresh by metis
  have exists: "fs_content n (sv_fs a) \<noteq> None" if "j < length (sv_threads a)" "held (snd (sv_threads a ! j)) = Some n" for j n
    using t [OF that(1) refl refl] that(2)
    by (cases "snd (sv_threads a ! j)") auto
  have apart: "held pc = Some n \<Longrightarrow> j < length (sv_threads a) \<Longrightarrow> j \<noteq> i \<Longrightarrow> held (snd (sv_threads a ! j)) \<noteq> Some n" for j n
    using apartD [of "sv_threads a" i j n] inv(1) i by (simp add: threads_ok_def)
  show other: "held pc' = Some n \<Longrightarrow> j < length (sv_threads a) \<Longrightarrow> j \<noteq> i \<Longrightarrow> held (snd (sv_threads a ! j)) \<noteq> Some n" for j n
    using new [of n] apart [of n j] exists [of j n] by auto
  have frame: "p \<noteq> path \<Longrightarrow> held pc \<noteq> Some p \<Longrightarrow> held pc' \<noteq> Some p \<Longrightarrow> fs_content p s' = fs_content p (sv_fs a)" for p
    using m by blast
  show "fs_content n s' = fs_content n (sv_fs a)"
    if j: "j < length (sv_threads a)" "j \<noteq> i" "held (snd (sv_threads a ! j)) = Some n"
  proof (rule frame)
    show "n \<noteq> path" using t [OF j(1) refl refl] j(3) fresh by metis
  qed (use apart [OF _ j(1,2)] other [OF _ j(1,2)] j(3) in blast)+
qed

text \<open>The state after a move.\<close>

abbreviation moved :: "saves \<Rightarrow> nat \<Rightarrow> Snapshot \<Rightarrow> save_pc \<Rightarrow> fs \<Rightarrow> save_pc \<Rightarrow> saves" where
  "moved a i snap pc s' pc' \<equiv>
     \<lparr>sv_fs = s', sv_threads = (sv_threads a)[i := (snap, pc')],
      sv_log = sv_log a @ (if pc \<noteq> Returned None \<and> pc' = Returned None then [snap] else [])\<rparr>"

lemma threads_ok_step:
  assumes th: "threads_ok text path s0 a" and dk: "disk_ok text path s0 a" and fresh: "path \<notin> tmp_names path s0"
    and i: "i < length (sv_threads a)" "sv_threads a ! i = (snap, pc)"
    and move: "save_moves text path (flattenSnapshot snap) (sv_fs a, pc) (s', pc')"
  shows "threads_ok text path s0 (moved a i snap pc s' pc')" (is "threads_ok _ _ _ ?b")
  unfolding threads_ok_def
proof (intro conjI ballI)
  let ?ts = "sv_threads a"
  note h = move_held [OF th dk fresh i move]
  note m = save_moves_facts [OF move h(1,2,3)]
  show "apart (sv_threads ?b)"
    using apart_update [OF _ i(1), of "(snap, pc')"] th h(5) by (auto simp: threads_ok_def)
  fix t assume "t \<in> set (sv_threads ?b)"
  then obtain j where j: "j < length ?ts" "t = ?ts[i := (snap, pc')] ! j" by (auto simp: in_set_conv_nth)
  obtain sn q where t: "t = (sn, q)" by fastforce
  show "case t of (snap, pc) \<Rightarrow> save_ok text (flattenSnapshot snap) (sv_fs ?b) pc \<and>
      (\<forall>n. held pc = Some n \<longrightarrow> n \<in> tmp_names path s0 \<and> fs_content n s0 = None)"
  proof (cases "j = i")
    case True
    with j i t m h(4) show ?thesis by auto
  next
    case False
    with j t have q: "?ts ! j = (sn, q)" by simp
    with th nth_mem [OF j(1)] have "save_ok text (flattenSnapshot sn) (sv_fs a) q \<and>
        (\<forall>n. held q = Some n \<longrightarrow> n \<in> tmp_names path s0 \<and> fs_content n s0 = None)"
      by (auto simp: threads_ok_def)
    with save_ok_cong [of "text" "flattenSnapshot sn" "sv_fs a" q s'] h(6) [OF j(1) False] q t show ?thesis by auto
  qed
qed

lemma disk_ok_step:
  assumes th: "threads_ok text path s0 a" and dk: "disk_ok text path s0 a" and fresh: "path \<notin> tmp_names path s0"
    and i: "i < length (sv_threads a)" "sv_threads a ! i = (snap, pc)"
    and move: "save_moves text path (flattenSnapshot snap) (sv_fs a, pc) (s', pc')"
  shows "disk_ok text path s0 (moved a i snap pc s' pc')" (is "disk_ok _ _ _ ?b")
  unfolding disk_ok_def
proof (intro conjI allI impI)
  let ?ts = "sv_threads a"
  note h = move_held [OF th dk fresh i move]
  note m = save_moves_facts [OF move h(1,2,3)]
  have own: "held pc = Some n \<Longrightarrow> n \<in> tmp_names path s0 \<and> fs_content n s0 = None" for n
    using th nth_mem [OF i(1)] i(2) by (auto simp: threads_ok_def)
  show "set (fs_rand (sv_fs ?b)) \<subseteq> set (fs_rand s0)" using m dk by (auto simp: disk_ok_def)
  show "fs_content path (sv_fs ?b) =
      (if sv_log ?b = [] then fs_content path s0 else Some (text (flattenSnapshot (last (sv_log ?b)))))"
    using m dk by (simp add: disk_ok_def)
  show "fs_content p (sv_fs ?b) = fs_content p s0" if p: "p \<noteq> path" "p \<notin> tmp_names path s0 \<or> fs_content p s0 \<noteq> None" for p
  proof -
    have "held pc \<noteq> Some p" "held pc' \<noteq> Some p" using own h(4) p by metis+
    then have "fs_content p s' = fs_content p (sv_fs a)" using m p(1) by blast
    then show ?thesis using disk_okD(2,3) [OF dk p(1)] p(2) by auto
  qed
  assume f: "fs_faults s0 = []"
  note quiet = disk_okD(4) [OF dk f]
  show "fs_faults (sv_fs ?b) = []" using m quiet by simp
  fix p assume p: "p \<noteq> path" and "\<forall>t \<in> set (sv_threads ?b). held (snd t) \<noteq> Some p"
  then have free: "held (snd (?ts[i := (snap, pc')] ! j)) \<noteq> Some p" if "j < length ?ts" for j
    using nth_mem [of j "?ts[i := (snap, pc')]"] that by simp
  from free [OF i(1)] i(1) have pc': "held pc' \<noteq> Some p" by simp
  show "fs_content p (sv_fs ?b) = fs_content p s0"
  proof (cases "held pc = Some p")
    case True
    with m pc' quiet own show ?thesis by auto
  next
    case False
    have "held (snd (?ts ! j)) \<noteq> Some p" if "j < length ?ts" for j
      using free [OF that] False i by (cases "j = i") auto
    from disk_okD(5) [OF dk f p this] p False pc' m show ?thesis by auto
  qed
qed

lemma saves_inv_step:
  assumes inv: "saves_inv text path s0 a" and fresh: "path \<notin> tmp_names path s0"
    and i: "i < length (sv_threads a)" "sv_threads a ! i = (snap, pc)"
    and move: "save_moves text path (flattenSnapshot snap) (sv_fs a, pc) (s', pc')"
  shows "saves_inv text path s0 (moved a i snap pc s' pc')"
proof -
  from inv have th: "threads_ok text path s0 a" and dk: "disk_ok text path s0 a" and lg: "log_ok a"
    by (simp_all add: saves_inv_def)
  note h = move_held [OF th dk fresh i move]
  have "log_ok (moved a i snap pc s' pc')"
  proof (cases "pc = Returned None")
    case True
    with save_moves_facts [OF move h(1,2,3)] i lg show ?thesis
      by (simp add: log_ok_def list_update_same_conv [THEN iffD2])
  next
    case False
    with lg i show ?thesis by (auto simp: log_ok_def mset_update)
  qed
  with threads_ok_step [OF th dk fresh i move] disk_ok_step [OF th dk fresh i move] show ?thesis
    by (simp add: saves_inv_def)
qed

lemma saves_reach_inv:
  assumes "saves_reach text path s0 a" and "path \<notin> tmp_names path s0"
  shows "saves_inv text path s0 a"
  using assms(1)
proof induction
  case (step a i snap pc s' pc')
  then show ?case using saves_inv_step [OF step.IH assms(2)] by blast
qed (auto intro: saves_inv_start saves_inv_save)

section \<open>Schedules\<close>

text \<open>The run that a list of thread numbers describes, each number one system call of that thread.\<close>

definition step_at :: "(Metrics list \<Rightarrow> string) \<Rightarrow> string \<Rightarrow> saves \<Rightarrow> nat \<Rightarrow> saves" where
  "step_at text path a i =
     (if i < length (sv_threads a) then
        (case sv_threads a ! i of (snap, pc) \<Rightarrow>
           case save_step text path (flattenSnapshot snap) (sv_fs a, pc) of (s', pc') \<Rightarrow> moved a i snap pc s' pc')
      else a)"

lemma step_at_reach: "saves_reach text path s0 a \<Longrightarrow> saves_reach text path s0 (step_at text path a i)"
proof (cases "i < length (sv_threads a)")
  case True
  assume reach: "saves_reach text path s0 a"
  obtain snap pc where t: "sv_threads a ! i = (snap, pc)" by fastforce
  obtain s' pc' where st: "save_step text path (flattenSnapshot snap) (sv_fs a, pc) = (s', pc')" by fastforce
  from save_moves.call [of "text" path "flattenSnapshot snap" "(sv_fs a, pc)"] st
  have "save_moves text path (flattenSnapshot snap) (sv_fs a, pc) (s', pc')" by simp
  from saves_reach.step [OF reach True t this] t st True show ?thesis by (simp add: step_at_def)
qed (simp add: step_at_def)

lemma schedule_reach: "saves_reach text path s0 a \<Longrightarrow> saves_reach text path s0 (foldl (step_at text path) a schedule)"
  by (induction schedule arbitrary: a) (simp_all add: step_at_reach)

lemma two_saves_reach:
  "saves_reach text path s0
     (foldl (step_at text path) \<lparr>sv_fs = s0, sv_threads = [(snap1, Mkdir), (snap2, Mkdir)], sv_log = []\<rparr> schedule)"
  using saves_reach.save [OF saves_reach.save [OF saves_reach.start], of "text" path s0 snap1 snap2]
  by (intro schedule_reach) simp

section \<open>Properties\<close>

text \<open>
  run alone, the system calls of a save thread are \<open>writeJSONAtomic\<close>: after seven steps the thread has
  returned, with its error and its effect on the disk.
\<close>

theorem save_thread_is_Save:
  "(save_step text path (flattenSnapshot snap) ^^ 7) (s, Mkdir) =
     (fst (Persister_Save text path snap s), Returned (snd (Persister_Save text path snap s)))"
  by (simp add: save_thread_runs Persister_Save_def map_prod_def split: prod.split)

text \<open>
  C8: saves are linearizable, at the rename: however the system calls of any number of saves of one file
  interleave, fail or are cut off, at every moment the file holds exactly what it held at first or the complete
  text of the snapshot renamed last; the snapshots renamed are those of the saves that returned no error,
  each once; no other file that was there is touched; and if no system call fails, then no temporary file is
  left when all saves have returned.
\<close>

theorem saves_linearizable:
  assumes "saves_reach text path s0 a" and "path \<notin> tmp_names path s0"
  shows "fs_content path (sv_fs a) =
      (if sv_log a = [] then fs_content path s0 else Some (text (flattenSnapshot (last (sv_log a))))) \<and>
    mset (sv_log a) = image_mset fst (filter_mset (\<lambda>t. snd t = Returned None) (mset (sv_threads a))) \<and>
    (\<forall>p. p \<noteq> path \<longrightarrow> fs_content p s0 \<noteq> None \<longrightarrow> fs_content p (sv_fs a) = fs_content p s0) \<and>
    (fs_faults s0 = [] \<longrightarrow> (\<forall>t \<in> set (sv_threads a). \<exists>r. snd t = Returned r) \<longrightarrow>
      (\<forall>p. p \<noteq> path \<longrightarrow> fs_content p (sv_fs a) = fs_content p s0))"
proof (intro conjI allI impI)
  have inv: "saves_inv text path s0 a" by (rule saves_reach_inv) fact+
  then have dk: "disk_ok text path s0 a" by (simp add: saves_inv_def)
  from inv show "fs_content path (sv_fs a) =
      (if sv_log a = [] then fs_content path s0 else Some (text (flattenSnapshot (last (sv_log a)))))"
    "mset (sv_log a) = image_mset fst (filter_mset (\<lambda>t. snd t = Returned None) (mset (sv_threads a)))"
    by (simp_all add: saves_inv_def disk_ok_def log_ok_def)
  show "p \<noteq> path \<Longrightarrow> fs_content p s0 \<noteq> None \<Longrightarrow> fs_content p (sv_fs a) = fs_content p s0" for p
    by (rule disk_okD(3) [OF dk])
  assume "fs_faults s0 = []" "\<forall>t \<in> set (sv_threads a). \<exists>r. snd t = Returned r"
  then show "p \<noteq> path \<Longrightarrow> fs_content p (sv_fs a) = fs_content p s0" for p
    by (intro disk_okD(5) [OF dk]) (metis held.simps(9) nth_mem option.distinct(1))+
qed

text \<open>Two saves overlap; the second one to start is renamed first, and the file ends as the other one wrote it.\<close>

abbreviation sample_text :: "Metrics list \<Rightarrow> string" where
  "sample_text items \<equiv> (if items = [counter_metric ''c'' 1] then ''one'' else ''two'')"

abbreviation sample_disk :: "fs_fault list \<Rightarrow> fs" where
  "sample_disk faults \<equiv> \<lparr>fs_files = [(''m'', ''old'')], fs_faults = faults, fs_rand = [''7'', ''7'', ''8'']\<rparr>"

abbreviation counter_snap :: "int64 \<Rightarrow> Snapshot" where
  "counter_snap d \<equiv> \<lparr>Gauges = [], Counters = [(''c'', d)]\<rparr>"

abbreviation sample_saves :: "fs_fault list \<Rightarrow> nat list \<Rightarrow> saves" where
  "sample_saves faults schedule \<equiv>
     foldl (step_at sample_text ''m'')
       \<lparr>sv_fs = sample_disk faults, sv_threads = [(counter_snap 1, Mkdir), (counter_snap 2, Mkdir)], sv_log = []\<rparr> schedule"

lemmas sample_run_defs =
  step_at_def Let_def fs_call_def fs_next_def os_CreateTemp_def os_Write_def os_Rename_def os_Remove_def flattenSnapshot_def
  json_Encode_def fs_put_def fs_content_def fs_del_def tmp_path_def filepath_Dir_def last_slash_prefix_def filepath_Clean_def
  slash_def HasPrefix_def

lemma counter_metric_inject [simp]: "counter_metric n d = counter_metric n' d' \<longleftrightarrow> n = n' \<and> d = d'"
  by (auto simp: counter_metric_def)

lemma sample_fresh: "''m'' \<notin> tmp_names ''m'' (sample_disk faults)"
  by (simp add: tmp_path_def filepath_Dir_def last_slash_prefix_def filepath_Clean_def slash_def HasPrefix_def)

theorem saves_linearizable_witness:
  "\<exists>a. sample_saves [] [0, 1, 0, 1, 0, 1, 1, 1, 1, 0, 0, 0] = a \<and> sv_log a = [counter_snap 2, counter_snap 1] \<and>
     fs_content ''m'' (sv_fs a) = Some ''one'' \<and> (\<forall>p. p \<noteq> ''m'' \<longrightarrow> fs_content p (sv_fs a) = None)"
proof -
  have run: "sample_saves [] [0, 1, 0, 1, 0, 1, 1, 1, 1, 0, 0, 0] =
      \<lparr>sv_fs = \<lparr>fs_files = [(''m'', ''one'')], fs_faults = [], fs_rand = []\<rparr>,
       sv_threads = [(counter_snap 1, Returned None), (counter_snap 2, Returned None)], sv_log = [counter_snap 2, counter_snap 1]\<rparr>"
    by (simp add: sample_run_defs)
  note reach = two_saves_reach [of sample_text "''m''" "sample_disk []" "counter_snap 1" "counter_snap 2" "[0, 1, 0, 1, 0, 1, 1, 1, 1, 0, 0, 0]"]
  from saves_linearizable [OF reach sample_fresh] show ?thesis
    unfolding run by (auto simp: fs_content_def flattenSnapshot_def)
qed

text \<open>
  C9: a process killed at any moment loses at most the saves that had not returned: a restart that reads the disk
  as it then is restores exactly the snapshot that was renamed last, whatever unfinished saves have left.
\<close>

theorem crash_restores_last_save:
  assumes reach: "saves_reach text path s0 a" and fresh: "path \<notin> tmp_names path s0" and some: "sv_log a \<noteq> []"
    and wf: "gm_wf (Gauges (last (sv_log a)))" "gm_wf (Counters (last (sv_log a)))"
    and json: "dec (text (flattenSnapshot (last (sv_log a)))) = Inr (flattenSnapshot (last (sv_log a)))"
  shows "case Persister_Restore dec path memory_repo c ((sv_fs a)\<lparr>fs_faults := []\<rparr>, mem_New) of
    ((s', r), e) \<Rightarrow> e = None \<and> mem_gauge_of r = map_of (Gauges (last (sv_log a))) \<and>
      mem_counter_of r = map_of (Counters (last (sv_log a))) \<and>
      (\<exists>t \<in> set (sv_threads a). t = (last (sv_log a), Returned None))"
proof -
  have inv: "disk_ok text path s0 a" "log_ok a" using saves_reach_inv [OF reach fresh] by (simp_all add: saves_inv_def)
  with some have "fs_content path ((sv_fs a)\<lparr>fs_faults := []\<rparr>) = Some (text (flattenSnapshot (last (sv_log a))))"
    by (simp add: disk_ok_def)
  note rest = Restore_content [of path _ "text" _ dec, OF this json wf]
  have "last (sv_log a) \<in># mset (sv_log a)" using some by simp
  with inv(2) have "(last (sv_log a), Returned None) \<in> set (sv_threads a)" by (auto simp: log_ok_def)
  with rest show ?thesis by (auto split: prod.split)
qed

text \<open>The first save is killed with half of its temporary file written, after the second one has returned.\<close>

theorem crash_restores_last_save_witness:
  "\<exists>a. sample_saves [FsOk, FsPartial 2 EPIPE] [0, 1, 0, 0, 0, 1, 1, 1, 1, 1] = a \<and>
     fs_content ''./.metrics-7'' (sv_fs a) = Some ''on'' \<and>
     mem_counter_of (snd (fst (Persister_Restore (\<lambda>b. Inr [counter_metric ''c'' 2]) ''m'' memory_repo Background
       ((sv_fs a)\<lparr>fs_faults := []\<rparr>, mem_New)))) ''c'' = Some 2"
proof -
  have run: "sample_saves [FsOk, FsPartial 2 EPIPE] [0, 1, 0, 0, 0, 1, 1, 1, 1, 1] =
      \<lparr>sv_fs = \<lparr>fs_files = [(''m'', ''two''), (''./.metrics-7'', ''on'')], fs_faults = [], fs_rand = []\<rparr>,
       sv_threads = [(counter_snap 1, DeferClose ''./.metrics-7'' (Some (Wrapf ''encode'' EPIPE))), (counter_snap 2, Returned None)],
       sv_log = [counter_snap 2]\<rparr>"
    by (simp add: sample_run_defs)
  note reach = two_saves_reach [of sample_text "''m''" "sample_disk [FsOk, FsPartial 2 EPIPE]" "counter_snap 1" "counter_snap 2"
      "[0, 1, 0, 0, 0, 1, 1, 1, 1, 1]"]
  from crash_restores_last_save [OF reach sample_fresh, of "\<lambda>b. Inr [counter_metric ''c'' 2]" Background] show ?thesis
    unfolding run by (auto simp: fs_content_def flattenSnapshot_def split_beta)
qed

end
