(* ===== verification/Collector.thy ===== *)
theory Collector
  imports Domain
begin

text \<open>
  The runtime collector (\<open>internal/adapters/collector/runtime\<close>): the locked store of \<open>state.go\<close>, the
  metric names of \<open>keys.go\<close>, and the two sampling goroutines of \<open>runtime.go\<close> as events. What a tick
  reads from outside is its argument: the memory statistics and the random number of a runtime tick,
  the memory and processor readings of a system tick (\<open>None\<close> where the call fails). \<open>to_f64\<close> is Go's
  conversion of an unsigned integer to \<open>float64\<close>.

  Here a tick is one step; \<open>Concurrent_Sampling\<close> splits it into the store operations, each atomic under its mutex.
\<close>

section \<open>state.go\<close>

record stats =
  st_gauges :: "float64 gomap"
  st_counters :: "int64 gomap"

definition newStats :: stats where
  "newStats = \<lparr>st_gauges = [], st_counters = []\<rparr>"

definition stats_SetGauge :: "string \<Rightarrow> float64 \<Rightarrow> stats \<Rightarrow> stats" where
  "stats_SetGauge name v s = s\<lparr>st_gauges := gm_set name v (st_gauges s)\<rparr>"

definition stats_AddCounter :: "string \<Rightarrow> int64 \<Rightarrow> stats \<Rightarrow> stats" where
  "stats_AddCounter name d s = s\<lparr>st_counters := gm_add name d (st_counters s)\<rparr>"

definition stats_Snapshot :: "stats \<Rightarrow> float64 gomap \<times> int64 gomap" where
  "stats_Snapshot s = (maps_Copy [] (st_gauges s), maps_Copy [] (st_counters s))"

section \<open>keys.go\<close>

definition MPollCount :: string where "MPollCount = ''PollCount''"
definition MRandomValue :: string where "MRandomValue = ''RandomValue''"
definition TotalMemory :: string where "TotalMemory = ''TotalMemory''"
definition FreeMemory :: string where "FreeMemory = ''FreeMemory''"
definition CPUutilization :: string where "CPUutilization = ''CPUutilization''"

text \<open>The names of the memory gauges, in the order of the source.\<close>

definition memstat_keys :: "string list" where
  "memstat_keys =
     [''Alloc'', ''BuckHashSys'', ''Frees'', ''GCCPUFraction'', ''GCSys'', ''HeapAlloc'', ''HeapIdle'',
      ''HeapInuse'', ''HeapObjects'', ''HeapReleased'', ''HeapSys'', ''LastGC'', ''Lookups'',
      ''MCacheInuse'', ''MCacheSys'', ''MSpanInuse'', ''MSpanSys'', ''Mallocs'', ''NextGC'',
      ''NumForcedGC'', ''NumGC'', ''OtherSys'', ''PauseTotalNs'', ''StackInuse'', ''StackSys'', ''Sys'',
      ''TotalAlloc'']"

section \<open>runtime.go\<close>

text \<open>
  The fields of \<open>runtime.MemStats\<close> that the collector publishes are named by the keys; every one is an
  unsigned integer but \<open>GCCPUFraction\<close>, a \<open>float64\<close>.
\<close>

record MemStats =
  ms_field :: "string \<Rightarrow> 64 word"
  ms_GCCPUFraction :: float64

definition memstat_value :: "(64 word \<Rightarrow> float64) \<Rightarrow> MemStats \<Rightarrow> string \<Rightarrow> float64" where
  "memstat_value to_f64 ms key =
     (if key = ''GCCPUFraction'' then ms_GCCPUFraction ms else to_f64 (ms_field ms key))"

fun set_gauges :: "(string \<times> float64) list \<Rightarrow> stats \<Rightarrow> stats" where
  "set_gauges [] s = s"
| "set_gauges ((k, v) # kvs) s = set_gauges kvs (stats_SetGauge k v s)"

definition runtime_tick :: "(64 word \<Rightarrow> float64) \<Rightarrow> MemStats \<Rightarrow> float64 \<Rightarrow> stats \<Rightarrow> stats" where
  "runtime_tick to_f64 ms rnd s =
     stats_AddCounter MPollCount 1
       (stats_SetGauge MRandomValue rnd
          (set_gauges (map (\<lambda>k. (k, memstat_value to_f64 ms k)) memstat_keys) s))"

fun cpu_gauges :: "nat \<Rightarrow> float64 list \<Rightarrow> (string \<times> float64) list" where
  "cpu_gauges i [] = []"
| "cpu_gauges i (p # ps) = (CPUutilization @ nat_digits (i + 1), p) # cpu_gauges (i + 1) ps"

definition system_tick ::
  "(64 word \<Rightarrow> float64) \<Rightarrow> (64 word \<times> 64 word) option \<Rightarrow> float64 list option \<Rightarrow> stats \<Rightarrow> stats" where
  "system_tick to_f64 vm pct s =
     (let s1 = (case vm of
                  Some (tot, free) \<Rightarrow>
                    stats_SetGauge FreeMemory (to_f64 free) (stats_SetGauge TotalMemory (to_f64 tot) s)
                | None \<Rightarrow> s)
      in case pct of Some ps \<Rightarrow> set_gauges (cpu_gauges 0 ps) s1 | None \<Rightarrow> s1)"

text \<open>
  The collector: its store, whether the goroutines run, and whether the channel \<open>stop\<close> is closed.
  \<open>Start\<close> launches goroutines, which leave at once on a closed channel; a \<open>Stop\<close> that has returned
  has closed the channel and waited for them, so no tick follows it.
\<close>

record Collector =
  col_st :: stats
  col_running :: bool
  col_stop :: bool

definition collector_New :: Collector where
  "collector_New = \<lparr>col_st = newStats, col_running = False, col_stop = False\<rparr>"

datatype col_event =
    CStart
  | CRuntime MemStats float64
  | CSystem "(64 word \<times> 64 word) option" "float64 list option"
  | CStop

fun col_step :: "(64 word \<Rightarrow> float64) \<Rightarrow> Collector \<Rightarrow> col_event \<Rightarrow> Collector" where
  "col_step f c CStart = c\<lparr>col_running := \<not> col_stop c\<rparr>"
| "col_step f c (CRuntime ms rnd) = (if col_running c then c\<lparr>col_st := runtime_tick f ms rnd (col_st c)\<rparr> else c)"
| "col_step f c (CSystem vm pct) = (if col_running c then c\<lparr>col_st := system_tick f vm pct (col_st c)\<rparr> else c)"
| "col_step f c CStop = c\<lparr>col_running := False, col_stop := True\<rparr>"

fun col_run :: "(64 word \<Rightarrow> float64) \<Rightarrow> Collector \<Rightarrow> col_event list \<Rightarrow> Collector" where
  "col_run f c [] = c"
| "col_run f c (e # es) = col_run f (col_step f c e) es"

definition collector_Snapshot :: "Collector \<Rightarrow> float64 gomap \<times> int64 gomap" where
  "collector_Snapshot c = stats_Snapshot (col_st c)"

text \<open>The runtime ticks of a run that a started collector processes.\<close>

fun runtime_ticks :: "bool \<Rightarrow> bool \<Rightarrow> col_event list \<Rightarrow> nat" where
  "runtime_ticks on closed [] = 0"
| "runtime_ticks on closed (CStart # es) = runtime_ticks (\<not> closed) closed es"
| "runtime_ticks on closed (CRuntime ms rnd # es) = (if on then 1 else 0) + runtime_ticks on closed es"
| "runtime_ticks on closed (CSystem vm pct # es) = runtime_ticks on closed es"
| "runtime_ticks on closed (CStop # es) = runtime_ticks False True es"

section \<open>Facts\<close>

lemma set_gauges_counters [simp]: "st_counters (set_gauges kvs s) = st_counters s"
  by (induction kvs s rule: set_gauges.induct) (auto simp: stats_SetGauge_def)

lemma set_gauges_lookup: "map_of (st_gauges (set_gauges kvs s)) k =
    (case map_of (rev kvs) k of Some v \<Rightarrow> Some v | None \<Rightarrow> map_of (st_gauges s) k)"
proof (induction kvs s rule: set_gauges.induct)
  case (1 s)
  show ?case by simp
next
  case (2 k' v kvs s)
  then show ?case by (auto simp: stats_SetGauge_def map_add_def split: option.split)
qed

lemma stats_SetGauge_counters [simp]: "st_counters (stats_SetGauge k v s) = st_counters s"
  by (simp add: stats_SetGauge_def)

lemma runtime_tick_counters: "st_counters (runtime_tick f ms rnd s) = gm_add MPollCount 1 (st_counters s)"
  by (simp add: runtime_tick_def stats_AddCounter_def)

lemma system_tick_counters [simp]: "st_counters (system_tick f vm pct s) = st_counters s"
  by (auto simp: system_tick_def Let_def split: option.split)

lemma col_run_append: "col_run f c (xs @ ys) = col_run f (col_run f c xs) ys"
  by (induction f c xs rule: col_run.induct) auto

lemma col_run_counters:
  "map_of (st_counters (col_st (col_run f c es))) k =
     (if k = MPollCount \<and> runtime_ticks (col_running c) (col_stop c) es \<noteq> 0
      then Some (counter_or_zero (map_of (st_counters (col_st c)) k) + of_nat (runtime_ticks (col_running c) (col_stop c) es))
      else map_of (st_counters (col_st c)) k)"
proof (induction es arbitrary: c)
  case Nil
  show ?case by simp
next
  case (Cons e es)
  show ?case
  proof (cases e)
    case (CRuntime ms rnd)
    then show ?thesis
      using Cons.IH by (auto simp: runtime_tick_counters counter_or_zero_def add.assoc split: option.split)
  next
    case (CSystem vm pct)
    then show ?thesis using Cons.IH by auto
  qed (use Cons.IH in auto)
qed

lemma distinct_memstat_keys: "distinct memstat_keys"
  by (simp add: memstat_keys_def)

lemma stats_wf_steps:
  "gm_wf (st_gauges s) \<Longrightarrow> gm_wf (st_gauges (stats_SetGauge k v s))"
  "gm_wf (st_counters s) \<Longrightarrow> gm_wf (st_counters (stats_AddCounter k d s))"
  "st_gauges (stats_AddCounter k d s) = st_gauges s"
  by (simp_all add: stats_SetGauge_def stats_AddCounter_def)

lemma set_gauges_wf: "gm_wf (st_gauges s) \<Longrightarrow> gm_wf (st_gauges (set_gauges kvs s))"
  by (induction kvs s rule: set_gauges.induct) (auto simp: stats_wf_steps)

definition stats_ok :: "stats \<Rightarrow> bool" where
  "stats_ok s \<longleftrightarrow> gm_wf (st_gauges s) \<and> gm_wf (st_counters s)"

lemma tick_ok:
  "stats_ok s \<Longrightarrow> stats_ok (runtime_tick f ms rnd s)"
  "stats_ok s \<Longrightarrow> stats_ok (system_tick f vm pct s)"
  by (auto simp: stats_ok_def runtime_tick_def system_tick_def Let_def set_gauges_wf stats_wf_steps split: option.split)

lemma col_run_ok: "stats_ok (col_st c) \<Longrightarrow> stats_ok (col_st (col_run f c es))"
proof (induction es arbitrary: c)
  case Nil
  then show ?case by simp
next
  case (Cons e es)
  then show ?case by (cases e) (auto simp: tick_ok)
qed

lemma New_ok: "stats_ok (col_st collector_New)"
  by (simp add: stats_ok_def collector_New_def newStats_def)

text \<open>Every name the collector uses is printable and without blanks.\<close>

definition plain_name :: "string \<Rightarrow> bool" where
  "plain_name k \<longleftrightarrow> k \<noteq> '''' \<and> (\<forall>c \<in> set k. visible c)"

definition plain_stats :: "stats \<Rightarrow> bool" where
  "plain_stats s \<longleftrightarrow> (\<forall>k \<in> dom (map_of (st_gauges s)) \<union> dom (map_of (st_counters s)). plain_name k)"

lemma plain_names:
  "plain_name MPollCount" "plain_name MRandomValue" "plain_name TotalMemory" "plain_name FreeMemory"
  "k \<in> set memstat_keys \<Longrightarrow> plain_name k" "plain_name (CPUutilization @ nat_digits n)"
proof -
  have "\<forall>c \<in> set (nat_digits n). visible c"
    by (induction n rule: nat_digits.induct) (subst nat_digits.simps, auto simp: visible_def of_char_digit_char)
  then show "plain_name (CPUutilization @ nat_digits n)" by (auto simp: plain_name_def CPUutilization_def visible_def)
qed (auto simp: plain_name_def visible_def MPollCount_def MRandomValue_def TotalMemory_def FreeMemory_def memstat_keys_def)

lemma plain_writes:
  "plain_stats s \<Longrightarrow> plain_name k \<Longrightarrow> plain_stats (stats_SetGauge k v s)"
  "plain_stats s \<Longrightarrow> plain_name k \<Longrightarrow> plain_stats (stats_AddCounter k d s)"
  by (auto simp: plain_stats_def stats_SetGauge_def stats_AddCounter_def gm_add_lookup split: if_splits)

lemma plain_set_gauges: "plain_stats s \<Longrightarrow> \<forall>(k, v) \<in> set kvs. plain_name k \<Longrightarrow> plain_stats (set_gauges kvs s)"
  by (induction kvs s rule: set_gauges.induct) (auto simp: plain_writes)

lemma plain_cpu_gauges: "(k, v) \<in> set (cpu_gauges i ps) \<Longrightarrow> plain_name k"
  by (induction i ps rule: cpu_gauges.induct) (auto simp: plain_names)

lemma plain_step: "plain_stats (col_st c) \<Longrightarrow> plain_stats (col_st (col_step f c e))"
  by (cases e) (auto simp: runtime_tick_def system_tick_def Let_def plain_names
      intro!: plain_writes plain_set_gauges dest: plain_cpu_gauges split: option.split)

section \<open>Properties\<close>

text \<open>
  the \<open>PollCount\<close> that the collector reports is the number of runtime samples taken since it was created
  (modulo \<open>2^64\<close>), for any sequence of starts, stops and ticks; it is the only counter, samples outside a
  started collector change nothing, and a report does not reset it.
\<close>

theorem collector_PollCount:
  "map_of (snd (collector_Snapshot (col_run f collector_New es))) k =
     (if k = MPollCount \<and> runtime_ticks False False es \<noteq> 0 then Some (of_nat (runtime_ticks False False es)) else None)"
proof -
  have "gm_wf (st_counters (col_st (col_run f collector_New es)))"
    using col_run_ok [OF New_ok] by (simp add: stats_ok_def)
  from maps_Copy_empty [OF this] col_run_counters [of f collector_New es k] show ?thesis
    by (simp add: collector_Snapshot_def stats_Snapshot_def collector_New_def newStats_def)
qed

lemma runtime_tick_gauges:
  "map_of (st_gauges (runtime_tick f ms rnd s)) k =
     (if k = MRandomValue then Some rnd
      else if k \<in> set memstat_keys then Some (memstat_value f ms k) else map_of (st_gauges s) k)"
proof -
  have "map_of (rev (map (\<lambda>k. (k, memstat_value f ms k)) memstat_keys)) =
      map_of (map (\<lambda>k. (k, memstat_value f ms k)) memstat_keys)"
    by (rule map_of_rev_distinct) (simp add: comp_def distinct_memstat_keys)
  then show ?thesis
    by (simp add: runtime_tick_def stats_AddCounter_def stats_SetGauge_def set_gauges_lookup map_of_map_restrict restrict_map_def)
qed

text \<open>
  right after a runtime sample the report shows all 27 memory gauges with the values sampled and
  \<open>RandomValue\<close>, and every other gauge as it was before.
\<close>

theorem collector_runtime_gauges:
  assumes "col_running (col_run f collector_New es)"
  shows "map_of (fst (collector_Snapshot (col_step f (col_run f collector_New es) (CRuntime ms rnd)))) k =
    (if k = MRandomValue then Some rnd
     else if k \<in> set memstat_keys then Some (memstat_value f ms k)
     else map_of (fst (collector_Snapshot (col_run f collector_New es))) k) \<and> length memstat_keys = 27"
proof -
  let ?c = "col_run f collector_New es"
  have ok: "stats_ok (col_st ?c)" by (rule col_run_ok [OF New_ok])
  then have wf: "gm_wf (st_gauges (col_st ?c))" "gm_wf (st_gauges (runtime_tick f ms rnd (col_st ?c)))"
    using tick_ok(1) by (auto simp: stats_ok_def)
  show ?thesis
    using assms by (simp add: collector_Snapshot_def stats_Snapshot_def maps_Copy_empty [OF wf(1)] maps_Copy_empty [OF wf(2)]
        runtime_tick_gauges) (simp add: memstat_keys_def)
qed

theorem collector_runtime_gauges_witness:
  "map_of (fst (collector_Snapshot (col_step (\<lambda>n. n) (col_run (\<lambda>n. n) collector_New [CStart])
      (CRuntime \<lparr>ms_field = (\<lambda>k. 5), ms_GCCPUFraction = 1\<rparr> 9)))) ''Alloc'' = Some 5"
  using collector_runtime_gauges [of "\<lambda>n. n" "[CStart]" "\<lparr>ms_field = (\<lambda>k. 5), ms_GCCPUFraction = 1\<rparr>" 9 "''Alloc''"]
  by (simp add: collector_New_def MRandomValue_def memstat_keys_def memstat_value_def)

end
