(* ===== verification/Concurrent_Sampling.thy ===== *)
theory Concurrent_Sampling
  imports Collector
begin

text \<open>
  The two sampling goroutines of \<open>internal/adapters/collector/runtime/runtime.go\<close> at the grain of their mutex.
  \<open>Collector\<close> takes a tick as one step; in the program each \<open>SetGauge\<close> and \<open>AddCounter\<close> of \<open>state.go\<close> locks on its
  own, so the writes of the two goroutines interleave and a snapshot can fall between two writes of a tick. Here a
  goroutine is the list of the writes it has still to make. The ticks are their writes (\<open>ticks_are_writes\<close>), and
  every interleaving is the run of \<open>Collector\<close> up to the writes that are still to come. A goroutine looks at the
  stop channel only between ticks, so a stopped collector is a state in which no tick begins any more.
\<close>

section \<open>Writes\<close>

datatype store_write = SetG string float64 | AddC string int64

fun do_write :: "store_write \<Rightarrow> stats \<Rightarrow> stats" where
  "do_write (SetG k v) s = stats_SetGauge k v s"
| "do_write (AddC k d) s = stats_AddCounter k d s"

definition runtime_writes :: "(64 word \<Rightarrow> float64) \<Rightarrow> MemStats \<Rightarrow> float64 \<Rightarrow> store_write list" where
  "runtime_writes f ms rnd =
     map (\<lambda>k. SetG k (memstat_value f ms k)) memstat_keys @ [SetG MRandomValue rnd, AddC MPollCount 1]"

definition system_writes :: "(64 word \<Rightarrow> float64) \<Rightarrow> (64 word \<times> 64 word) option \<Rightarrow> float64 list option \<Rightarrow> store_write list" where
  "system_writes f vm pct =
     (case vm of Some (tot, free) \<Rightarrow> [SetG TotalMemory (f tot), SetG FreeMemory (f free)] | None \<Rightarrow> []) @
     (case pct of Some ps \<Rightarrow> map (\<lambda>(k, v). SetG k v) (cpu_gauges 0 ps) | None \<Rightarrow> [])"

lemma fold_set_gauges: "fold do_write (map (\<lambda>(k, v). SetG k v) kvs) s = set_gauges kvs s"
  by (induction kvs s rule: set_gauges.induct) auto

lemma ticks_are_writes:
  "fold do_write (runtime_writes f ms rnd) s = runtime_tick f ms rnd s"
  "fold do_write (system_writes f vm pct) s = system_tick f vm pct s"
  using fold_set_gauges [of "map (\<lambda>k. (k, memstat_value f ms k)) memstat_keys" s]
  by (auto simp: runtime_writes_def system_writes_def runtime_tick_def system_tick_def fold_set_gauges comp_def split: option.split)

section \<open>Interleaving\<close>

text \<open>The store, what each goroutine has still to write, and the ticks begun so far.\<close>

record sampler =
  sa_store :: stats
  sa_runtime :: "store_write list"
  sa_system :: "store_write list"
  sa_ticks :: "col_event list"

inductive sampling :: "(64 word \<Rightarrow> float64) \<Rightarrow> sampler \<Rightarrow> bool" for f :: "64 word \<Rightarrow> float64" where
  start: "sampling f \<lparr>sa_store = newStats, sa_runtime = [], sa_system = [], sa_ticks = []\<rparr>"
| runtime_tick: "sampling f a \<Longrightarrow> sa_runtime a = [] \<Longrightarrow>
     sampling f (a\<lparr>sa_runtime := runtime_writes f ms rnd, sa_ticks := sa_ticks a @ [CRuntime ms rnd]\<rparr>)"
| system_tick: "sampling f a \<Longrightarrow> sa_system a = [] \<Longrightarrow>
     sampling f (a\<lparr>sa_system := system_writes f vm pct, sa_ticks := sa_ticks a @ [CSystem vm pct]\<rparr>)"
| runtime_write: "sampling f a \<Longrightarrow> sa_runtime a = w # ws \<Longrightarrow>
     sampling f (a\<lparr>sa_store := do_write w (sa_store a), sa_runtime := ws\<rparr>)"
| system_write: "sampling f a \<Longrightarrow> sa_system a = w # ws \<Longrightarrow>
     sampling f (a\<lparr>sa_store := do_write w (sa_store a), sa_system := ws\<rparr>)"

section \<open>Writes of the two goroutines commute\<close>

type_synonym store_maps = "(string \<rightharpoonup> float64) \<times> (string \<rightharpoonup> int64)"

definition store_maps :: "stats \<Rightarrow> store_maps" where
  "store_maps s = (map_of (st_gauges s), map_of (st_counters s))"

fun map_write :: "store_write \<Rightarrow> store_maps \<Rightarrow> store_maps" where
  "map_write (SetG k v) (g, c) = (g(k \<mapsto> v), c)"
| "map_write (AddC k d) (g, c) = (g, c(k \<mapsto> counter_or_zero (c k) + d))"

lemma store_maps_write: "store_maps (do_write w s) = map_write w (store_maps s)"
  by (cases w) (auto simp: store_maps_def stats_SetGauge_def stats_AddCounter_def counter_or_zero_def)

lemma store_maps_writes: "store_maps (fold do_write ws s) = fold map_write ws (store_maps s)"
  by (induction ws arbitrary: s) (simp_all add: store_maps_write)

fun gauge_name :: "store_write \<Rightarrow> string option" where
  "gauge_name (SetG k v) = Some k"
| "gauge_name (AddC k d) = None"

definition runtime_names :: "string option set" where
  "runtime_names = insert None (Some ` set (MRandomValue # memstat_keys))"

text \<open>The names of the system goroutine.\<close>

definition system_name :: "string option \<Rightarrow> bool" where
  "system_name n \<longleftrightarrow> n \<in> {Some TotalMemory, Some FreeMemory} \<or> (\<exists>ds. n = Some (CPUutilization @ ds))"

lemma names_disjoint: "system_name n \<Longrightarrow> n \<notin> runtime_names"
  by (auto simp: system_name_def runtime_names_def memstat_keys_def MRandomValue_def TotalMemory_def FreeMemory_def CPUutilization_def)

lemma runtime_writes_names: "w \<in> set (runtime_writes f ms rnd) \<Longrightarrow> gauge_name w \<in> runtime_names"
  by (auto simp: runtime_writes_def runtime_names_def)

lemma cpu_gauges_names: "(k, v) \<in> set (cpu_gauges i ps) \<Longrightarrow> \<exists>ds. k = CPUutilization @ ds"
  by (induction i ps rule: cpu_gauges.induct) auto

lemma system_writes_names: "w \<in> set (system_writes f vm pct) \<Longrightarrow> system_name (gauge_name w)"
  by (auto simp: system_writes_def system_name_def dest: cpu_gauges_names split: option.splits)

lemma map_write_commute: "gauge_name w \<noteq> gauge_name w' \<Longrightarrow> map_write w (map_write w' m) = map_write w' (map_write w m)"
  by (cases w; cases w'; cases m) (auto simp: fun_upd_twist)

lemma fold_write_commute:
  "(\<And>w'. w' \<in> set ws \<Longrightarrow> gauge_name w \<noteq> gauge_name w') \<Longrightarrow> fold map_write ws (map_write w m) = map_write w (fold map_write ws m)"
proof (induction ws arbitrary: m)
  case (Cons a ws)
  have "map_write a (map_write w m) = map_write w (map_write a m)"
    by (rule map_write_commute) (use Cons.prems in fastforce)
  with Cons show ?case by simp
qed simp

lemma folds_commute:
  "(\<And>w w'. w \<in> set ws \<Longrightarrow> w' \<in> set ws' \<Longrightarrow> gauge_name w \<noteq> gauge_name w') \<Longrightarrow>
     fold map_write ws' (fold map_write ws m) = fold map_write ws (fold map_write ws' m)"
  by (induction ws arbitrary: m) (simp_all add: fold_write_commute)

section \<open>The invariant\<close>

text \<open>What is still to come belongs to its goroutine; when it has come, the store is that of the ticks in the order of their beginning.\<close>

abbreviation coarse :: "(64 word \<Rightarrow> float64) \<Rightarrow> col_event list \<Rightarrow> stats" where
  "coarse f ticks \<equiv> col_st (col_run f (col_step f collector_New CStart) ticks)"

definition sampler_inv :: "(64 word \<Rightarrow> float64) \<Rightarrow> sampler \<Rightarrow> bool" where
  "sampler_inv f a \<longleftrightarrow>
     (\<forall>w \<in> set (sa_runtime a). gauge_name w \<in> runtime_names) \<and> (\<forall>w \<in> set (sa_system a). system_name (gauge_name w)) \<and>
     (\<forall>e \<in> set (sa_ticks a). e \<noteq> CStart \<and> e \<noteq> CStop) \<and>
     fold map_write (sa_runtime a) (fold map_write (sa_system a) (store_maps (sa_store a))) = store_maps (coarse f (sa_ticks a))"

lemma col_run_running:
  "\<forall>e \<in> set es. e \<noteq> CStart \<and> e \<noteq> CStop \<Longrightarrow> col_running c \<Longrightarrow> col_running (col_run f c es)"
proof (induction es arbitrary: c)
  case (Cons e es)
  then show ?case by (cases e) auto
qed simp

lemma coarse_snoc:
  assumes "\<forall>e \<in> set ticks. e \<noteq> CStart \<and> e \<noteq> CStop"
  shows "coarse f (ticks @ [CRuntime ms rnd]) = fold do_write (runtime_writes f ms rnd) (coarse f ticks)"
    and "coarse f (ticks @ [CSystem vm pct]) = fold do_write (system_writes f vm pct) (coarse f ticks)"
  using col_run_running [OF assms, of "col_step f collector_New CStart" f]
  by (simp_all add: col_run_append ticks_are_writes collector_New_def)

lemma goroutines_commute:
  assumes "\<forall>w \<in> set ws. gauge_name w \<in> runtime_names" and "\<forall>w \<in> set ws'. system_name (gauge_name w)"
  shows "fold map_write ws (fold map_write ws' m) = fold map_write ws' (fold map_write ws m)"
  by (rule folds_commute) (use assms names_disjoint in metis)

lemma sampling_inv: "sampling f a \<Longrightarrow> sampler_inv f a"
proof (induction rule: sampling.induct)
  case start
  show ?case by (simp add: sampler_inv_def collector_New_def)
next
  case (runtime_tick a ms rnd)
  then have inv: "\<forall>w \<in> set (sa_system a). system_name (gauge_name w)" "\<forall>e \<in> set (sa_ticks a). e \<noteq> CStart \<and> e \<noteq> CStop"
      "fold map_write (sa_system a) (store_maps (sa_store a)) = store_maps (coarse f (sa_ticks a))"
    by (simp_all add: sampler_inv_def)
  with runtime_writes_names show ?case by (auto simp: sampler_inv_def coarse_snoc(1) store_maps_writes simp del: col_step.simps)
next
  case (system_tick a vm pct)
  then have inv: "\<forall>w \<in> set (sa_runtime a). gauge_name w \<in> runtime_names" "\<forall>e \<in> set (sa_ticks a). e \<noteq> CStart \<and> e \<noteq> CStop"
      "fold map_write (sa_runtime a) (store_maps (sa_store a)) = store_maps (coarse f (sa_ticks a))"
    by (simp_all add: sampler_inv_def)
  have names: "\<forall>w \<in> set (system_writes f vm pct). system_name (gauge_name w)" using system_writes_names by blast
  from inv names goroutines_commute [OF inv(1) names] show ?case
    by (auto simp: sampler_inv_def coarse_snoc(2) store_maps_writes simp del: col_step.simps)
next
  case (runtime_write a w ws)
  then have "sampler_inv f a" "sa_runtime a = w # ws" by simp_all
  moreover from this have "fold map_write (sa_system a) (map_write w (store_maps (sa_store a))) =
      map_write w (fold map_write (sa_system a) (store_maps (sa_store a)))"
    using names_disjoint by (intro fold_write_commute) (auto simp: sampler_inv_def)
  ultimately show ?case by (simp add: sampler_inv_def store_maps_write)
next
  case (system_write a w ws)
  then show ?case by (simp add: sampler_inv_def store_maps_write)
qed

section \<open>Properties\<close>

lemma fold_write_gauge: "Some k \<notin> gauge_name ` set ws \<Longrightarrow> fst (fold map_write ws m) k = fst m k"
proof (induction ws arbitrary: m)
  case (Cons w ws)
  then show ?case by (cases w; cases m) auto
qed simp

lemma fold_write_counters: "None \<notin> gauge_name ` set ws \<Longrightarrow> snd (fold map_write ws m) = snd m"
proof (induction ws arbitrary: m)
  case (Cons w ws)
  then show ?case by (cases w; cases m) auto
qed simp

lemma system_name_gauge: "\<not> system_name None"
  by (simp add: system_name_def)

text \<open>
  C14: a snapshot in the middle of ticks: whatever the interleaving of the two goroutines' writes, the store shows at every
  moment, for each gauge that no tick in progress has still to write, the value that the ticks begun so far
  would leave if they ran one after the other; and whenever the runtime goroutine is between ticks, the counters
  (\<open>PollCount\<close> among them) are those of that sequential run. Between the ticks of both, the whole store is.
\<close>

theorem sampling_refines_ticks:
  assumes "sampling f a"
  shows "(Some k \<notin> gauge_name ` set (sa_runtime a @ sa_system a) \<longrightarrow>
      map_of (st_gauges (sa_store a)) k = map_of (st_gauges (coarse f (sa_ticks a))) k) \<and>
    (sa_runtime a = [] \<longrightarrow> map_of (st_counters (sa_store a)) = map_of (st_counters (coarse f (sa_ticks a))))"
proof -
  from sampling_inv [OF assms] have names: "\<forall>w \<in> set (sa_system a). system_name (gauge_name w)"
    and eq: "fold map_write (sa_runtime a) (fold map_write (sa_system a) (store_maps (sa_store a))) = store_maps (coarse f (sa_ticks a))"
    by (simp_all add: sampler_inv_def del: col_step.simps)
  from names system_name_gauge have "None \<notin> gauge_name ` set (sa_system a)" by (metis imageE)
  with arg_cong [OF eq, of snd]
  have "sa_runtime a = [] \<Longrightarrow> snd (store_maps (sa_store a)) = snd (store_maps (coarse f (sa_ticks a)))"
    by (simp add: fold_write_counters del: col_step.simps)
  moreover from arg_cong [OF eq, of "\<lambda>m. fst m k"]
  have "Some k \<notin> gauge_name ` set (sa_runtime a @ sa_system a) \<Longrightarrow>
      fst (store_maps (sa_store a)) k = fst (store_maps (coarse f (sa_ticks a))) k"
    by (simp add: fold_write_gauge image_Un del: col_step.simps)
  ultimately show ?thesis by (simp add: store_maps_def del: col_step.simps)
qed

text \<open>A runtime tick and a system tick have begun, and of their 31 writes only the first of the system tick is made.\<close>

definition half_sampled :: sampler where
  "half_sampled =
     \<lparr>sa_store = stats_SetGauge TotalMemory 7 newStats,
      sa_runtime = runtime_writes (\<lambda>n. n) \<lparr>ms_field = (\<lambda>k. 5), ms_GCCPUFraction = 1\<rparr> 9,
      sa_system = [SetG FreeMemory 3],
      sa_ticks = [CRuntime \<lparr>ms_field = (\<lambda>k. 5), ms_GCCPUFraction = 1\<rparr> 9, CSystem (Some (7, 3)) None]\<rparr>"

lemma half_sampled_reached: "sampling (\<lambda>n. n) half_sampled"
proof -
  let ?ms = "\<lparr>ms_field = (\<lambda>k. 5), ms_GCCPUFraction = 1\<rparr>"
  have "sampling (\<lambda>n. n) \<lparr>sa_store = newStats, sa_runtime = runtime_writes (\<lambda>n. n) ?ms 9, sa_system = [], sa_ticks = [CRuntime ?ms 9]\<rparr>"
    using sampling.runtime_tick [OF sampling.start, of "\<lambda>n. n" ?ms 9] by simp
  from sampling.system_tick [OF this, of "Some (7, 3)" None]
  have "sampling (\<lambda>n. n) (half_sampled\<lparr>sa_store := newStats, sa_system := [SetG TotalMemory 7, SetG FreeMemory 3]\<rparr>)"
    by (simp add: half_sampled_def system_writes_def)
  from sampling.system_write [OF this] show ?thesis by (simp add: half_sampled_def)
qed

theorem sampling_refines_ticks_witness:
  "map_of (st_gauges (sa_store half_sampled)) TotalMemory =
     map_of (st_gauges (coarse (\<lambda>n. n) (sa_ticks half_sampled))) TotalMemory"
proof -
  have "Some TotalMemory \<notin> gauge_name ` set (sa_runtime half_sampled @ sa_system half_sampled)"
    by (simp add: half_sampled_def runtime_writes_def memstat_keys_def MRandomValue_def TotalMemory_def FreeMemory_def)
  with sampling_refines_ticks [OF half_sampled_reached, of TotalMemory] show ?thesis by blast
qed

end
