(* ===== verification/Agent.thy ===== *)
theory Agent
  imports Config Collector "HOL-Library.Multiset"
begin

text \<open>
  The agent (\<open>internal/services/agent\<close>): building a batch from the collector's snapshot, sending it with
  fallback to single requests, and the worker pool of \<open>BatchPublisher\<close>.

  The publisher port (\<open>internal/ports/agent.go\<close>) is a record of functions over a world \<open>'w\<close>. The pool is
  a step relation \<open>sender_step\<close>: one step per channel operation and per publisher call of a worker, in
  any interleaving. Two history fields record the submitted and the finished batches.
\<close>

section \<open>The publisher port\<close>

record 'w Publisher =
  pub_SendBatch :: "go_context \<Rightarrow> Metrics list \<Rightarrow> 'w \<Rightarrow> 'w \<times> go_error option"
  pub_SendOne :: "go_context \<Rightarrow> Metrics \<Rightarrow> 'w \<Rightarrow> 'w \<times> go_error option"

section \<open>agent.go\<close>

text \<open>The loops over the two maps, appending to a batch.\<close>

definition snapshot_items :: "float64 gomap \<Rightarrow> int64 gomap \<Rightarrow> Metrics list" where
  "snapshot_items g c = map (\<lambda>(k, v). gauge_metric k v) g @ map (\<lambda>(k, d). counter_metric k d) c"

text \<open>\<open>enqueueSnapshot\<close> up to its \<open>Submit\<close>: nothing for an empty snapshot.\<close>

definition enqueueSnapshot :: "float64 gomap \<times> int64 gomap \<Rightarrow> Metrics list option" where
  "enqueueSnapshot snap =
     (let (g, c) = snap in if length g + length c = 0 then None else Some (snapshot_items g c))"

text \<open>
  \<open>Run\<close> until its context ends: the collector works in the background (\<open>ASample\<close> is one of its events), and every
  tick of the report interval (\<open>AReport\<close>) hands the current snapshot to the sender. The result is the list of
  the batches given to \<open>Submit\<close>.
\<close>

datatype agent_event = ASample col_event | AReport

fun agent_loop :: "(64 word \<Rightarrow> float64) \<Rightarrow> Collector \<Rightarrow> agent_event list \<Rightarrow> Metrics list list" where
  "agent_loop f col [] = []"
| "agent_loop f col (ASample e # es) = agent_loop f (col_step f col e) es"
| "agent_loop f col (AReport # es) =
     (case enqueueSnapshot (collector_Snapshot col) of
        None \<Rightarrow> agent_loop f col es
      | Some batch \<Rightarrow> batch # agent_loop f col es)"

definition agent_Run :: "(64 word \<Rightarrow> float64) \<Rightarrow> agent_event list \<Rightarrow> Metrics list list" where
  "agent_Run f es = agent_loop f (col_step f collector_New CStart) es"

text \<open>The reused buffer of the service: its elements and its capacity.\<close>

record agent_buf =
  buf_items :: "Metrics list"
  buf_cap :: nat

definition buildBatch :: "float64 gomap \<Rightarrow> int64 gomap \<Rightarrow> agent_buf \<Rightarrow> agent_buf \<times> Metrics list" where
  "buildBatch g c buf =
     (let total_len = length g + length c;
          cap = (if buf_cap buf < total_len then total_len else buf_cap buf);
          batch = snapshot_items g c
      in (\<lparr>buf_items = batch, buf_cap = cap\<rparr>, batch))"

definition recycleBatch :: "agent_buf \<Rightarrow> agent_buf" where
  "recycleBatch buf = buf\<lparr>buf_items := []\<rparr>"

fun send_singles :: "'w Publisher \<Rightarrow> go_context \<Rightarrow> Metrics list \<Rightarrow> 'w \<Rightarrow> 'w" where
  "send_singles pub c [] w = w"
| "send_singles pub c (m # ms) w = send_singles pub c ms (fst (pub_SendOne pub c m w))"

definition reportOnce ::
  "'w Publisher \<Rightarrow> go_context \<Rightarrow> float64 gomap \<times> int64 gomap \<Rightarrow> agent_buf \<times> 'w \<Rightarrow> agent_buf \<times> 'w" where
  "reportOnce pub c snap st =
     (let (g, cs) = snap; (buf, w) = st in
      if length g + length cs = 0 then (buf, w)
      else let (buf1, batch) = buildBatch g cs buf
           in case pub_SendBatch pub c batch w of
                (w1, None) \<Rightarrow> (recycleBatch buf1, w1)
              | (w1, Some e) \<Rightarrow> (recycleBatch buf1, send_singles pub c batch w1))"

section \<open>sender.go\<close>

datatype worker = Idle | Sending "Metrics list" | Fallback "Metrics list" "Metrics list" | Exited

record 'w sender =
  sn_cap :: nat
  sn_jobs :: "Metrics list list"
  sn_closed :: bool
  sn_workers :: "worker list"
  sn_w :: 'w
  sn_submitted :: "Metrics list list"
  sn_done :: "Metrics list list"

text \<open>
  \<open>workers * 2\<close> is an \<open>int\<close> product, which wraps; \<open>make(chan T, n)\<close> panics (\<open>None\<close>) for a negative \<open>n\<close>.
\<close>

definition NewBatchPublisher :: "int64 \<Rightarrow> 'w \<Rightarrow> 'w sender option" where
  "NewBatchPublisher workers0 w =
     (let workers = (if sint workers0 < 1 then 1 else workers0); buf = workers * 2
      in if sint buf < 0 then None
         else Some \<lparr>sn_cap = nat (sint buf), sn_jobs = [], sn_closed = False,
                    sn_workers = replicate (nat (sint workers)) Idle, sn_w = w, sn_submitted = [], sn_done = []\<rparr>)"

definition set_worker :: "nat \<Rightarrow> worker \<Rightarrow> 'w sender \<Rightarrow> 'w sender" where
  "set_worker i x s = s\<lparr>sn_workers := (sn_workers s)[i := x]\<rparr>"

definition finish_worker :: "nat \<Rightarrow> Metrics list \<Rightarrow> 'w sender \<Rightarrow> 'w sender" where
  "finish_worker i b s = (set_worker i Idle s)\<lparr>sn_done := sn_done s @ [b]\<rparr>"

inductive sender_step :: "'w Publisher \<Rightarrow> go_context \<Rightarrow> 'w sender \<Rightarrow> 'w sender \<Rightarrow> bool"
  for pub :: "'w Publisher" and c :: go_context where
  Submit: "\<not> sn_closed s \<Longrightarrow> length (sn_jobs s) < sn_cap s \<Longrightarrow>
     sender_step pub c s (s\<lparr>sn_jobs := sn_jobs s @ [b], sn_submitted := sn_submitted s @ [b]\<rparr>)"
| Receive: "i < length (sn_workers s) \<Longrightarrow> sn_workers s ! i = Idle \<Longrightarrow> sn_jobs s = b # bs \<Longrightarrow>
     sender_step pub c s ((set_worker i (Sending b) s)\<lparr>sn_jobs := bs\<rparr>)"
| Skip: "i < length (sn_workers s) \<Longrightarrow> sn_workers s ! i = Sending [] \<Longrightarrow>
     sender_step pub c s (finish_worker i [] s)"
| Batch_ok: "i < length (sn_workers s) \<Longrightarrow> sn_workers s ! i = Sending b \<Longrightarrow> b \<noteq> [] \<Longrightarrow>
     pub_SendBatch pub c b (sn_w s) = (w, None) \<Longrightarrow>
     sender_step pub c s ((finish_worker i b s)\<lparr>sn_w := w\<rparr>)"
| Batch_err: "i < length (sn_workers s) \<Longrightarrow> sn_workers s ! i = Sending b \<Longrightarrow> b \<noteq> [] \<Longrightarrow>
     pub_SendBatch pub c b (sn_w s) = (w, Some e) \<Longrightarrow>
     sender_step pub c s ((set_worker i (Fallback b b) s)\<lparr>sn_w := w\<rparr>)"
| Single: "i < length (sn_workers s) \<Longrightarrow> sn_workers s ! i = Fallback b (m # ms) \<Longrightarrow>
     pub_SendOne pub c m (sn_w s) = (w, x) \<Longrightarrow>
     sender_step pub c s ((set_worker i (Fallback b ms) s)\<lparr>sn_w := w\<rparr>)"
| Fallback_end: "i < length (sn_workers s) \<Longrightarrow> sn_workers s ! i = Fallback b [] \<Longrightarrow>
     sender_step pub c s (finish_worker i b s)"
| Close: "\<not> sn_closed s \<Longrightarrow> sender_step pub c s (s\<lparr>sn_closed := True\<rparr>)"
| Leave: "i < length (sn_workers s) \<Longrightarrow> sn_workers s ! i = Idle \<Longrightarrow> sn_closed s \<Longrightarrow> sn_jobs s = [] \<Longrightarrow>
     sender_step pub c s (set_worker i Exited s)"

inductive sender_reach :: "'w Publisher \<Rightarrow> go_context \<Rightarrow> int64 \<Rightarrow> 'w \<Rightarrow> 'w sender \<Rightarrow> bool"
  for pub :: "'w Publisher" and c :: go_context and n :: int64 and w0 :: 'w where
  start: "NewBatchPublisher n w0 = Some s \<Longrightarrow> sender_reach pub c n w0 s"
| step: "sender_reach pub c n w0 s \<Longrightarrow> sender_step pub c s t \<Longrightarrow> sender_reach pub c n w0 t"

section \<open>Invariants of the pool\<close>

fun in_progress :: "worker \<Rightarrow> Metrics list multiset" where
  "in_progress (Sending b) = {#b#}"
| "in_progress (Fallback b ms) = {#b#}"
| "in_progress _ = {#}"

definition workers_load :: "worker list \<Rightarrow> Metrics list multiset" where
  "workers_load ws = sum_list (map in_progress ws)"

definition sender_inv :: "'w sender \<Rightarrow> bool" where
  "sender_inv s \<longleftrightarrow>
     mset (sn_submitted s) = mset (sn_done s) + mset (sn_jobs s) + workers_load (sn_workers s) \<and>
     length (sn_jobs s) \<le> sn_cap s \<and> sn_workers s \<noteq> [] \<and>
     (Exited \<in> set (sn_workers s) \<longrightarrow> sn_closed s \<and> sn_jobs s = [])"

lemma workers_load_update:
  "i < length ws \<Longrightarrow> workers_load (ws[i := x]) + in_progress (ws ! i) = workers_load ws + in_progress x"
proof (induction ws arbitrary: i)
  case Nil
  then show ?case by simp
next
  case (Cons a ws)
  then show ?case
    by (cases i) (auto simp: workers_load_def ac_simps)
qed

lemma workers_load_set:
  "i < length ws \<Longrightarrow> ws ! i = y \<Longrightarrow> workers_load (ws[i := x]) + in_progress y = workers_load ws + in_progress x"
  using workers_load_update by blast

lemma Exited_update: "Exited \<in> set (ws[i := x]) \<Longrightarrow> x \<noteq> Exited \<Longrightarrow> Exited \<in> set ws"
  using set_update_subset_insert [of ws i x] by auto

lemma sender_start_inv: "NewBatchPublisher n w0 = Some s \<Longrightarrow> sender_inv s"
proof -
  assume a: "NewBatchPublisher n w0 = Some s"
  have "workers_load (replicate k Idle) = {#}" for k
    by (induction k) (auto simp: workers_load_def)
  from this [of 1] this a show ?thesis by (auto simp: sender_inv_def NewBatchPublisher_def Let_def split: if_splits)
qed

lemma sender_step_inv: "sender_step pub c s t \<Longrightarrow> sender_inv s \<Longrightarrow> sender_inv t"
proof (induction rule: sender_step.induct)
  case (Submit s b)
  then show ?case by (auto simp: sender_inv_def)
next
  case (Receive i s b bs)
  with workers_load_set [of i "sn_workers s" Idle "Sending b"] show ?case
    by (auto simp: sender_inv_def set_worker_def dest: Exited_update)
next
  case (Skip i s)
  with workers_load_set [of i "sn_workers s" "Sending []" Idle] show ?case
    by (auto simp: sender_inv_def set_worker_def finish_worker_def ac_simps dest: Exited_update)
next
  case (Batch_ok i s b w)
  with workers_load_set [of i "sn_workers s" "Sending b" Idle] show ?case
    by (auto simp: sender_inv_def set_worker_def finish_worker_def ac_simps dest: Exited_update)
next
  case (Batch_err i s b w e)
  with workers_load_set [of i "sn_workers s" "Sending b" "Fallback b b"] show ?case
    by (auto simp: sender_inv_def set_worker_def dest: Exited_update)
next
  case (Single i s b m ms w x)
  with workers_load_set [of i "sn_workers s" "Fallback b (m # ms)" "Fallback b ms"] show ?case
    by (auto simp: sender_inv_def set_worker_def dest: Exited_update)
next
  case (Fallback_end i s b)
  with workers_load_set [of i "sn_workers s" "Fallback b []" Idle] show ?case
    by (auto simp: sender_inv_def set_worker_def finish_worker_def ac_simps dest: Exited_update)
next
  case (Close s)
  then show ?case by (auto simp: sender_inv_def)
next
  case (Leave i s)
  with workers_load_set [of i "sn_workers s" Idle Exited] show ?case
    by (auto simp: sender_inv_def set_worker_def)
qed

lemma sender_reach_inv: "sender_reach pub c n w0 s \<Longrightarrow> sender_inv s"
  by (induction rule: sender_reach.induct) (auto intro: sender_start_inv sender_step_inv)

text \<open>When every worker has left, nothing is queued and nothing is in progress.\<close>

lemma workers_load_exited: "\<forall>x \<in> set ws. x = Exited \<Longrightarrow> workers_load ws = {#}"
  by (induction ws) (auto simp: workers_load_def)

lemma sender_all_exited:
  assumes "sender_inv s" and "\<forall>x \<in> set (sn_workers s). x = Exited"
  shows "mset (sn_done s) = mset (sn_submitted s) \<and> sn_jobs s = []"
proof -
  from assms have "Exited \<in> set (sn_workers s)" by (cases "sn_workers s") (auto simp: sender_inv_def)
  with assms workers_load_exited [OF assms(2)] show ?thesis by (simp add: sender_inv_def)
qed

section \<open>Draining\<close>

text \<open>The work left: it goes down with every step but \<open>Submit\<close> and \<open>Close\<close>.\<close>

fun worker_work :: "worker \<Rightarrow> nat" where
  "worker_work Idle = 1"
| "worker_work (Sending b) = length b + 3"
| "worker_work (Fallback b ms) = length ms + 2"
| "worker_work Exited = 0"

definition sender_work :: "'w sender \<Rightarrow> nat" where
  "sender_work s =
     sum_list (map (\<lambda>b. length b + 4) (sn_jobs s)) + sum_list (map worker_work (sn_workers s))"

lemma worker_work_set:
  "i < length ws \<Longrightarrow> ws ! i = y \<Longrightarrow>
     sum_list (map worker_work (ws[i := x])) + worker_work y = sum_list (map worker_work ws) + worker_work x"
proof (induction ws arbitrary: i)
  case Nil
  then show ?case by simp
next
  case (Cons a ws)
  then show ?case by (cases i) auto
qed

lemma sender_step_work:
  "sender_step pub c s t \<Longrightarrow> sn_closed s \<Longrightarrow> sn_closed t \<and> sender_work t < sender_work s"
proof (induction rule: sender_step.induct)
  case (Receive i s b bs)
  with worker_work_set [of i "sn_workers s" Idle "Sending b"] show ?case
    by (simp add: sender_work_def set_worker_def)
next
  case (Skip i s)
  with worker_work_set [of i "sn_workers s" "Sending []" Idle] show ?case
    by (simp add: sender_work_def set_worker_def finish_worker_def)
next
  case (Batch_ok i s b w)
  with worker_work_set [of i "sn_workers s" "Sending b" Idle] show ?case
    by (simp add: sender_work_def set_worker_def finish_worker_def)
next
  case (Batch_err i s b w e)
  with worker_work_set [of i "sn_workers s" "Sending b" "Fallback b b"] show ?case
    by (simp add: sender_work_def set_worker_def)
next
  case (Single i s b m ms w x)
  with worker_work_set [of i "sn_workers s" "Fallback b (m # ms)" "Fallback b ms"] show ?case
    by (simp add: sender_work_def set_worker_def)
next
  case (Fallback_end i s b)
  with worker_work_set [of i "sn_workers s" "Fallback b []" Idle] show ?case
    by (simp add: sender_work_def set_worker_def finish_worker_def)
next
  case (Leave i s)
  with worker_work_set [of i "sn_workers s" Idle Exited] show ?case
    by (simp add: sender_work_def set_worker_def)
qed simp_all

text \<open>After \<open>close\<close> no worker is ever stuck.\<close>

lemma sender_progress:
  assumes "sn_closed s" and "x \<in> set (sn_workers s)" and "x \<noteq> Exited"
  shows "\<exists>t. sender_step pub c s t"
proof -
  obtain i where i: "i < length (sn_workers s)" "sn_workers s ! i = x"
    using assms(2) by (metis in_set_conv_nth)
  show ?thesis
  proof (cases x)
    case Idle
    with i assms(1) show ?thesis by (cases "sn_jobs s") (blast intro: sender_step.intros)+
  next
    case (Sending b)
    obtain w e where "pub_SendBatch pub c b (sn_w s) = (w, e)" by fastforce
    with i Sending show ?thesis
      by (cases "b = []"; cases e) (blast intro: sender_step.intros)+
  next
    case (Fallback b ms)
    obtain w e where "pub_SendOne pub c (hd ms) (sn_w s) = (w, e)" by fastforce
    with i Fallback show ?thesis by (cases ms) (auto intro: sender_step.intros)
  next
    case Exited
    with assms(3) show ?thesis by simp
  qed
qed

section \<open>Facts about batches\<close>

lemma snapshot_items_length: "length (snapshot_items g c) = length g + length c"
  by (simp add: snapshot_items_def)

lemma enqueueSnapshot_None: "enqueueSnapshot (g, c) = None \<longleftrightarrow> g = [] \<and> c = []"
  by (auto simp: enqueueSnapshot_def)

section \<open>Properties\<close>

text \<open>
  no batch handed to the worker pool is lost or duplicated, in any interleaving of the workers, the
  submitter and \<open>Stop\<close>: at every moment the submitted batches are exactly those finished, those in the
  channel and those a worker is busy with; and once every worker has left (\<open>wg.Wait\<close> has returned) all of
  them are finished.
\<close>

theorem sender_no_loss:
  assumes "sender_reach pub c n w0 s"
  shows "mset (sn_submitted s) = mset (sn_done s) + mset (sn_jobs s) + workers_load (sn_workers s) \<and>
    length (sn_jobs s) \<le> sn_cap s \<and>
    ((\<forall>x \<in> set (sn_workers s). x = Exited) \<longrightarrow> mset (sn_done s) = mset (sn_submitted s))"
proof -
  from sender_reach_inv [OF assms] have i: "sender_inv s" .
  with sender_all_exited [OF i] show ?thesis unfolding sender_inv_def by blast
qed

abbreviation log_pub :: "Metrics list list Publisher" where
  "log_pub \<equiv> \<lparr>pub_SendBatch = (\<lambda>c b w. (w @ [b], None)), pub_SendOne = (\<lambda>c m w. (w @ [[m]], None))\<rparr>"

theorem sender_no_loss_witness:
  "\<exists>s. sender_reach log_pub Background 1 [] s \<and> sn_submitted s = [[counter_metric ''c'' 1]] \<and>
     mset (sn_jobs s) = {# [counter_metric ''c'' 1] #}"
proof -
  define s0 :: "Metrics list list sender" where "s0 = \<lparr>sn_cap = 2, sn_jobs = [], sn_closed = False, sn_workers = [Idle],
      sn_w = [], sn_submitted = [], sn_done = []\<rparr>"
  then have s0: "NewBatchPublisher 1 [] = Some s0"
    and i: "\<not> sn_closed s0" "sn_jobs s0 = []" "sn_cap s0 = 2" "sn_workers s0 = [Idle]" "sn_submitted s0 = []" "sn_done s0 = []"
    by (simp_all add: NewBatchPublisher_def)
  let ?s = "s0\<lparr>sn_jobs := sn_jobs s0 @ [[counter_metric ''c'' 1]], sn_submitted := sn_submitted s0 @ [[counter_metric ''c'' 1]]\<rparr>"
  have "sender_step log_pub Background s0 ?s" using i by (intro sender_step.Submit) auto
  then have "sender_reach log_pub Background 1 [] ?s" by (rule sender_reach.step [OF sender_reach.start [OF s0]])
  from this sender_no_loss [OF this] i show ?thesis by (intro exI [of _ ?s]) (simp add: workers_load_def)
qed

lemma sender_run_work:
  "(sender_step pub c ^^ k) s t \<Longrightarrow> sn_closed s \<Longrightarrow> sn_closed t \<and> sender_work t + k \<le> sender_work s"
proof (induction k arbitrary: t)
  case 0
  then show ?case by simp
next
  case (Suc k)
  then obtain u where u: "(sender_step pub c ^^ k) s u" "sender_step pub c u t" by auto
  with Suc have "sn_closed u \<and> sender_work u + k \<le> sender_work s" by blast
  with sender_step_work [OF u(2)] show ?case by auto
qed

lemma sender_run_inv: "(sender_step pub c ^^ k) s t \<Longrightarrow> sender_inv s \<Longrightarrow> sender_inv t"
  by (induction k arbitrary: t) (auto intro: sender_step_inv)

text \<open>
  C11: \<open>Stop\<close> returns, with everything sent: from a reachable state whose channel is closed no run is longer
  than the work left, and a run that cannot go on has ended with every worker gone and every submitted
  batch finished, however the sends turn out.
\<close>

theorem sender_Stop_drains:
  assumes "sender_reach pub c n w0 s" and "sn_closed s" and "(sender_step pub c ^^ k) s t"
  shows "k \<le> sender_work s \<and>
    ((\<nexists>u. sender_step pub c t u) \<longrightarrow>
       (\<forall>x \<in> set (sn_workers t). x = Exited) \<and> sn_jobs t = [] \<and> mset (sn_done t) = mset (sn_submitted t))"
proof -
  from sender_run_work [OF assms(3,2)] have k: "k \<le> sender_work s" and cl: "sn_closed t" by auto
  from sender_run_inv [OF assms(3) sender_reach_inv [OF assms(1)]] have inv: "sender_inv t" .
  show ?thesis
  proof (intro conjI impI)
    assume stuck: "\<nexists>u. sender_step pub c t u"
    then show all: "\<forall>x \<in> set (sn_workers t). x = Exited" using sender_progress [OF cl] by blast
    from sender_all_exited [OF inv all] show "sn_jobs t = []" "mset (sn_done t) = mset (sn_submitted t)" by auto
  qed (rule k)
qed

theorem sender_Stop_drains_witness:
  "\<exists>s t. sender_reach log_pub Background 1 [] s \<and> sn_closed s \<and> sender_step log_pub Background s t \<and> 1 \<le> sender_work s"
proof -
  define s0 :: "Metrics list list sender" where "s0 = \<lparr>sn_cap = 2, sn_jobs = [], sn_closed = False, sn_workers = [Idle],
      sn_w = [], sn_submitted = [], sn_done = []\<rparr>"
  then have s0: "NewBatchPublisher 1 [] = Some s0" and i: "\<not> sn_closed s0" "sn_jobs s0 = []" "sn_workers s0 = [Idle]"
    by (simp_all add: NewBatchPublisher_def)
  let ?s = "s0\<lparr>sn_closed := True\<rparr>"
  have r: "sender_reach log_pub Background 1 [] ?s"
    using sender_step.Close [OF i(1)] by (rule sender_reach.step [OF sender_reach.start [OF s0]])
  have st: "sender_step log_pub Background ?s (set_worker 0 Exited ?s)" using i by (intro sender_step.Leave) auto
  with sender_Stop_drains [OF r, of 1 "set_worker 0 Exited ?s"] r show ?thesis by fastforce
qed

lemma send_singles_fold: "send_singles pub c ms w = fold (\<lambda>m w. fst (pub_SendOne pub c m w)) ms w"
  by (induction pub c ms w rule: send_singles.induct) auto

text \<open>
  a report carries every metric of the collector's snapshot exactly once, gauges with their values and
  counters with their totals as deltas; it is one batch request, followed, only if that fails, by one
  single request per metric in the same order; an empty snapshot sends nothing.
\<close>

theorem reportOnce_sends:
  "reportOnce pub c (g, cs) (buf, w) =
     (if g = [] \<and> cs = [] then (buf, w)
      else case pub_SendBatch pub c (snapshot_items g cs) w of
        (w1, e) \<Rightarrow>
          (\<lparr>buf_items = [], buf_cap = max (buf_cap buf) (length g + length cs)\<rparr>,
           if e = None then w1 else fold (\<lambda>m w. fst (pub_SendOne pub c m w)) (snapshot_items g cs) w1))"
  by (auto simp: reportOnce_def buildBatch_def recycleBatch_def send_singles_fold Let_def max_def
        split: prod.split option.split)

end
