(* ===== verification/Http_Publisher.thy ===== *)
theory Http_Publisher
  imports Agent
begin

text \<open>
  The agent's HTTP client (\<open>internal/adapters/publisher/httpjson/client.go\<close>): gzipped JSON requests with
  an optional checksum header, sent through the retry loop.

  What the client calls outside its own code is the record \<open>httpjson_env\<close>: \<open>http.Client.Do\<close>,
  \<open>http.NewRequestWithContext\<close> (which fails on a bad URL), the context of the call, \<open>encoding/json\<close>'s text,
  \<open>compress/gzip\<close>, \<open>net/url\<close> and \<open>crypto/sha256\<close>. Here the buffers of
  \<open>bufferPool\<close> are their contents and gzip writers have no state; \<open>Payload_Buffers\<close> has both as shared objects. A nil response after
  a successful retry loop, which the source would dereference, is a branch of the model that
  \<open>sendWithRetry_response\<close> shows unreachable.
\<close>

section \<open>Requests and responses\<close>

record http_request =
  req_method :: string
  req_url :: string
  req_headers :: "string gomap"
  req_body :: string

text \<open>
  Of a response the client looks at the status, one header, and what reading and closing the body gives:
  \<open>rs_gzip\<close> is the error of \<open>gzip.NewReader\<close>, \<open>rs_copy z\<close> the error of copying the body, decompressed if \<open>z\<close>.
\<close>

record http_response =
  rs_status :: nat
  rs_status_text :: string
  rs_encoding :: string
  rs_gzip :: "go_error option"
  rs_copy :: "bool \<Rightarrow> go_error option"
  rs_close :: "go_error option"

record url =
  u_Path :: string
  u_rest :: string

datatype payload = One Metrics | Many "Metrics list"

record 'w httpjson_env =
  he_Do :: "http_request \<Rightarrow> 'w \<Rightarrow> 'w \<times> (go_error + http_response)"
  he_newRequest :: "string \<Rightarrow> go_error option"
  he_ctxErr :: "'w \<Rightarrow> 'w \<times> go_error option"
  he_wait :: "duration \<Rightarrow> 'w \<Rightarrow> 'w \<times> go_error option"
  he_json :: "payload \<Rightarrow> string"
  he_gzWrite :: "string \<Rightarrow> go_error option"
  he_gzClose :: "string \<Rightarrow> go_error + string"
  he_sha256 :: "string \<Rightarrow> string"
  he_urlString :: "url \<Rightarrow> string"

section \<open>Construction\<close>

record Client =
  cl_key :: string
  cl_base :: url

definition normalizeBase :: "string \<Rightarrow> string" where
  "normalizeBase s =
     (if HasPrefix s ''http://'' \<or> HasPrefix s ''https://'' then TrimRight s ''/''
      else ''http://'' @ TrimRight s ''/'')"

text \<open>\<open>New\<close>; a nil \<open>http.Client\<close> is replaced by one with a time-out, which \<open>he_Do\<close> stands for.\<close>

definition httpjson_New :: "(string \<Rightarrow> go_error + url) \<Rightarrow> string \<Rightarrow> string \<Rightarrow> go_error + Client" where
  "httpjson_New url_Parse serverAddr key =
     (case url_Parse (normalizeBase serverAddr) of
        Inl err \<Rightarrow> Inl err
      | Inr u \<Rightarrow> Inr \<lparr>cl_key = TrimSpace key, cl_base = u\<rparr>)"

definition endpoint :: "'w httpjson_env \<Rightarrow> Client \<Rightarrow> string \<Rightarrow> string" where
  "endpoint env cl path =
     he_urlString env ((cl_base cl)\<lparr>u_Path := TrimRight (u_Path (cl_base cl)) ''/'' @ path\<rparr>)"

section \<open>Which errors are retried\<close>

fun as_StatusError :: "go_error \<Rightarrow> nat option" where
  "as_StatusError (HttpStatusError code msg) = Some code"
| "as_StatusError _ = None"

fun as_NetOpError :: "go_error \<Rightarrow> unit option" where
  "as_NetOpError (OpError e) = Some ()"
| "as_NetOpError _ = None"

fun as_UrlTimeout :: "go_error \<Rightarrow> bool option" where
  "as_UrlTimeout (UrlError t e) = Some t"
| "as_UrlTimeout _ = None"

definition isRetryableHTTP :: "go_error \<Rightarrow> bool" where
  "isRetryableHTTP err =
     (case errors_As as_StatusError err of
        Some code \<Rightarrow> code \<in> set [502, 503, 504, 429]
      | None \<Rightarrow>
          if errors_As as_NetOpError err \<noteq> None then True
          else if errors_As as_UrlTimeout err = Some True then True
          else errors_Is err ECONNREFUSED \<or> errors_Is err ECONNRESET \<or> errors_Is err EPIPE)"

section \<open>Payloads\<close>

fun payload_items :: "payload \<Rightarrow> Metrics list" where
  "payload_items (One m) = [m]"
| "payload_items (Many ms) = ms"

definition marshalJSON :: "'w httpjson_env \<Rightarrow> payload \<Rightarrow> go_error + string" where
  "marshalJSON env p =
     (if list_ex json_refuses (payload_items p) then Inl (Wrapf ''marshal'' (ErrNew ''json: unsupported value''))
      else Inr (he_json env p))"

definition sync_Put :: "'t \<Rightarrow> 't Pool \<Rightarrow> 't Pool" where
  "sync_Put v pl = pl\<lparr>pool_objs := pool_objs pl @ [v]\<rparr>"

text \<open>
  \<open>gzipBytes\<close>: takes a buffer (position \<open>i\<close> of the pool, or a new one), resets it, and writes the compressed
  bytes behind what is in it; on an error the buffer is reset and goes back.
\<close>

definition gzipBytes :: "'w httpjson_env \<Rightarrow> nat \<Rightarrow> string \<Rightarrow> string Pool \<Rightarrow> string Pool \<times> (go_error + string)" where
  "gzipBytes env i src pl =
     (let (pl1, got) = Pool_Get i pl; buf = take 0 got in
      case he_gzWrite env src of
        Some e \<Rightarrow> (sync_Put [] pl1, Inl (Wrapf ''gzip write'' e))
      | None \<Rightarrow>
          (case he_gzClose env src of
             Inl e \<Rightarrow> (sync_Put [] pl1, Inl (Wrapf ''gzip close'' e))
           | Inr z \<Rightarrow> (pl1, Inr (buf @ z))))"

definition payload_Release :: "string \<Rightarrow> string Pool \<Rightarrow> string Pool" where
  "payload_Release buf pl = sync_Put (take 0 buf) pl"

section \<open>Sending\<close>

definition newGzJSONRequest ::
  "'w httpjson_env \<Rightarrow> Client \<Rightarrow> string \<Rightarrow> string \<Rightarrow> string \<Rightarrow> go_error + http_request" where
  "newGzJSONRequest env cl path body hashHeader =
     (case he_newRequest env (endpoint env cl path) of
        Some e \<Rightarrow> Inl (Wrapf ''new request'' e)
      | None \<Rightarrow>
          (let h = gm_set ''Accept-Encoding'' ''gzip'' (gm_set ''Accept'' ''application/json''
                     (gm_set ''Content-Encoding'' ''gzip'' (gm_set ''Content-Type'' ''application/json'' [])));
               h' = (if hashHeader \<noteq> '''' then gm_set ''HashSHA256'' hashHeader h else h)
           in Inr \<lparr>req_method = ''POST'', req_url = endpoint env cl path, req_headers = h', req_body = body\<rparr>))"

definition send_op ::
  "'w httpjson_env \<Rightarrow> (go_error + http_request) \<Rightarrow> 'w \<times> http_response option \<Rightarrow>
   ('w \<times> http_response option) \<times> go_error option" where
  "send_op env mkReq wr =
     (case mkReq of
        Inl err \<Rightarrow> (wr, Some err)
      | Inr req \<Rightarrow>
          (case he_Do env req (fst wr) of
             (w1, Inl err) \<Rightarrow> ((w1, None), Some err)
           | (w1, Inr r) \<Rightarrow> ((w1, Some r), None)))"

definition sendWithRetry ::
  "'w httpjson_env \<Rightarrow> (go_error + http_request) \<Rightarrow> 'w \<Rightarrow> 'w \<times> (go_error + http_response option)" where
  "sendWithRetry env mkReq w =
     (case Retry (with_local (he_ctxErr env)) (\<lambda>d. with_local (he_wait env d)) DefaultBackoff isRetryableHTTP
             (send_op env mkReq) (w, None) of
        ((w1, resp), Some err) \<Rightarrow> (w1, Inl (Wrapf ''http do'' err))
      | ((w1, resp), None) \<Rightarrow> (w1, Inr resp))"

definition drainAndDiscard :: "http_response \<Rightarrow> go_error option" where
  "drainAndDiscard resp =
     (if Contains (ToLower (rs_encoding resp)) ''gzip'' then
        (case rs_gzip resp of
           Some e \<Rightarrow> Some (Wrapf ''bad gzip'' e)
         | None \<Rightarrow> map_option (Wrapf ''drain body'') (rs_copy resp True))
      else map_option (Wrapf ''drain body'') (rs_copy resp False))"

definition checkHTTPStatus :: "http_response \<Rightarrow> go_error option" where
  "checkHTTPStatus resp =
     (if rs_status resp \<noteq> 200 then Some (HttpStatusError (rs_status resp) (''server status: '' @ rs_status_text resp))
      else None)"

definition doGzJSON ::
  "'w httpjson_env \<Rightarrow> Client \<Rightarrow> nat \<Rightarrow> string \<Rightarrow> payload \<Rightarrow> string Pool \<times> 'w \<Rightarrow> (string Pool \<times> 'w) \<times> go_error option" where
  "doGzJSON env cl i path p st =
     (let (pl, w) = st in
      case marshalJSON env p of
        Inl err \<Rightarrow> (st, Some err)
      | Inr plain \<Rightarrow>
          (let hashHeader = (if cl_key cl \<noteq> '''' then SumSHA256 (he_sha256 env) plain (cl_key cl) else '''') in
           case gzipBytes env i plain pl of
             (pl1, Inl err) \<Rightarrow> ((pl1, w), Some err)
           | (pl1, Inr gzBody) \<Rightarrow>
               (let pl2 = payload_Release gzBody pl1 in
                case sendWithRetry env (newGzJSONRequest env cl path gzBody hashHeader) w of
                  (w1, Inl err) \<Rightarrow> ((pl2, w1), Some err)
                | (w1, Inr None) \<Rightarrow> ((pl2, w1), Some (ErrNew ''nil response''))
                | (w1, Inr (Some resp)) \<Rightarrow>
                    (let retErr = (case drainAndDiscard resp of Some e \<Rightarrow> Some e | None \<Rightarrow> checkHTTPStatus resp)
                     in ((pl2, w1),
                         case rs_close resp of
                           Some e \<Rightarrow> if retErr = None then Some (Wrapf ''close response body'' e) else retErr
                         | None \<Rightarrow> retErr)))))"

definition SendOne ::
  "'w httpjson_env \<Rightarrow> Client \<Rightarrow> nat \<Rightarrow> Metrics \<Rightarrow> string Pool \<times> 'w \<Rightarrow> (string Pool \<times> 'w) \<times> go_error option" where
  "SendOne env cl i m st = doGzJSON env cl i ''/update'' (One m) st"

definition SendBatch ::
  "'w httpjson_env \<Rightarrow> Client \<Rightarrow> nat \<Rightarrow> Metrics list \<Rightarrow> string Pool \<times> 'w \<Rightarrow> (string Pool \<times> 'w) \<times> go_error option" where
  "SendBatch env cl i metrics st = (if metrics = [] then (st, None) else doGzJSON env cl i ''/updates'' (Many metrics) st)"

section \<open>Facts\<close>

text \<open>A successful retry loop has stored a response, so \<open>resp\<close> is not nil where it is used.\<close>

lemma send_op_None:
  assumes "send_op env mkReq wr = ((w', r), None)"
  shows "\<exists>resp req. r = Some resp \<and> mkReq = Inr req \<and> he_Do env req (fst wr) = (w', Inr resp)"
proof (cases mkReq)
  case (Inl e)
  with assms show ?thesis by (simp add: send_op_def)
next
  case (Inr req)
  obtain w1 y where "he_Do env req (fst wr) = (w1, y)" by fastforce
  with Inr assms show ?thesis by (cases y) (auto simp: send_op_def)
qed

lemma sendWithRetry_response:
  assumes "sendWithRetry env mkReq w = (w', Inr r)"
  shows "\<exists>resp req w0. r = Some resp \<and> mkReq = Inr req \<and> he_Do env req w0 = (w', Inr resp)"
proof -
  obtain w1 resp x where run: "Retry (with_local (he_ctxErr env)) (\<lambda>d. with_local (he_wait env d)) DefaultBackoff isRetryableHTTP
      (send_op env mkReq) (w, None) = ((w1, resp), x)"
    by (metis surj_pair)
  with assms have x: "x = None" "w1 = w'" "resp = r" by (auto simp: sendWithRetry_def split: option.splits)
  obtain w0 where "send_op env mkReq w0 = ((w', r), None)"
    using Retry_from_success [OF run [unfolded Retry_def] x(1)] x by auto
  from send_op_None [OF this] show ?thesis by blast
qed

lemma gzipBytes_ok:
  assumes "gzipBytes env i src pl = (pl', Inr z)"
  shows "he_gzClose env src = Inr z"
  using assms by (auto simp: gzipBytes_def Let_def split: prod.splits option.splits sum.splits)

lemma newGzJSONRequest_ok:
  assumes "newGzJSONRequest env cl path body h = Inr req"
  shows "req_method req = ''POST''" and "req_url req = endpoint env cl path" and "req_body req = body"
    and "map_of (req_headers req) ''Content-Encoding'' = Some ''gzip''"
    and "map_of (req_headers req) ''HashSHA256'' = (if h = '''' then None else Some h)"
    and "map_of (req_headers req) ''Accept-Encoding'' = Some ''gzip''"
  using assms by (auto simp: newGzJSONRequest_def Let_def split: option.splits)

section \<open>Properties\<close>

text \<open>The same environment with every request recorded.\<close>

definition logged :: "'w httpjson_env \<Rightarrow> ('w \<times> http_request list) httpjson_env" where
  "logged env =
     \<lparr>he_Do = (\<lambda>req wl. case he_Do env req (fst wl) of (w', r) \<Rightarrow> ((w', snd wl @ [req]), r)),
      he_newRequest = he_newRequest env, he_ctxErr = with_local (he_ctxErr env),
      he_wait = (\<lambda>d. with_local (he_wait env d)), he_json = he_json env, he_gzWrite = he_gzWrite env,
      he_gzClose = he_gzClose env, he_sha256 = he_sha256 env, he_urlString = he_urlString env\<rparr>"

lemma logged_sel [simp]:
  "he_json (logged env) = he_json env" "he_gzWrite (logged env) = he_gzWrite env" "he_gzClose (logged env) = he_gzClose env"
  "he_sha256 (logged env) = he_sha256 env" "he_newRequest (logged env) = he_newRequest env"
  by (simp_all add: logged_def)

definition log_of :: "('w \<times> http_request list) \<times> 'a \<Rightarrow> http_request list" where
  "log_of u = snd (fst u)"

lemma log_of_with_local: "with_local (with_local f) u = (u', x) \<Longrightarrow> log_of u' = log_of u"
  by (auto simp: with_local_def log_of_def split: prod.splits)

lemma send_op_logged:
  assumes "send_op (logged env) (Inr req) u = (u', x)"
  shows "log_of u' = log_of u @ [req]"
  using assms by (auto simp: send_op_def logged_def log_of_def split: prod.splits sum.splits)

lemma sendWithRetry_logged:
  assumes run: "sendWithRetry (logged env) mkReq (w, []) = ((w', log), x)"
  shows "length log \<le> 4 \<and> (\<forall>r \<in> set log. mkReq = Inr r)"
proof -
  obtain u resp y where r: "Retry (with_local (he_ctxErr (logged env))) (\<lambda>d. with_local (he_wait (logged env) d))
      DefaultBackoff isRetryableHTTP (send_op (logged env) mkReq) ((w, []), None) = ((u, resp), y)"
    by (metis surj_pair)
  with run have u: "u = (w', log)" by (auto simp: sendWithRetry_def split: option.splits)
  have quiet: "with_local (he_ctxErr (logged env)) v = (v', z) \<Longrightarrow> log_of v' = log_of v"
      "with_local (he_wait (logged env) d) v = (v', z) \<Longrightarrow> log_of v' = log_of v"
    for v v' :: "('a \<times> http_request list) \<times> http_response option" and z d
    by (auto simp: logged_def dest: log_of_with_local)
  show ?thesis
  proof (cases mkReq)
    case (Inl e)
    have "case y of None \<Rightarrow> log_of (u, resp) = [] | Some e \<Rightarrow> log_of (u, resp) = []"
      by (rule Retry_rule [OF _ _ _ _ r, where I = "\<lambda>v. log_of v = []" and Q = "\<lambda>v. log_of v = []"])
         (auto simp: send_op_def Inl log_of_def [of "((w, []), None)"] dest!: quiet)
    then show ?thesis by (cases y) (auto simp: u log_of_def)
  next
    case (Inr req)
    have steps: "send_op (logged env) mkReq v = (v', z) \<Longrightarrow> log_of v' = log_of v @ [req]" for v v' z
      using Inr send_op_logged by blast
    have "length (log_of (u, resp)) \<le> length (log_of ((w, []), None :: http_response option)) + (length DefaultBackoff - 0) + 1"
      by (rule conjunct2 [OF Retry_from_attempts [OF _ _ _ r [unfolded Retry_def], where calls = "\<lambda>v. length (log_of v)"]])
         (auto dest!: steps quiet)
    moreover have "case y of None \<Rightarrow> set (log_of (u, resp)) \<subseteq> {req} | Some e \<Rightarrow> set (log_of (u, resp)) \<subseteq> {req}"
      by (rule Retry_rule [OF _ _ _ _ r, where I = "\<lambda>v. set (log_of v) \<subseteq> {req}" and Q = "\<lambda>v. set (log_of v) \<subseteq> {req}"])
         (auto simp: log_of_def [of "((w, []), None)"] dest!: steps quiet)
    ultimately show ?thesis using Inr by (cases y) (auto simp: u log_of_def DefaultBackoff_def)
  qed
qed

lemma doGzJSON_log:
  assumes run: "doGzJSON (logged env) cl i path p (pl, (w, [])) = ((pl', (w', log)), x)"
  shows "length log \<le> 4 \<and> (x = None \<longrightarrow> log \<noteq> []) \<and>
    (\<forall>req \<in> set log.
       req_method req = ''POST'' \<and> req_url req = endpoint env cl path \<and>
       he_gzClose env (he_json env p) = Inr (req_body req) \<and>
       map_of (req_headers req) ''Content-Encoding'' = Some ''gzip'' \<and>
       (let h = (if cl_key cl = '''' then '''' else SumSHA256 (he_sha256 env) (he_json env p) (cl_key cl))
        in map_of (req_headers req) ''HashSHA256'' = (if h = '''' then None else Some h)))"
proof (cases "log = []")
  case True
  have "x \<noteq> None"
  proof
    assume "x = None"
    with run obtain mkReq w1 r where "sendWithRetry (logged env) mkReq (w, []) = ((w', log), Inr (Some r))"
      by (auto simp: doGzJSON_def Let_def split: sum.splits prod.splits option.splits)
    from sendWithRetry_response [OF this] True show False
      by (auto simp: logged_def split: prod.splits)
  qed
  with True show ?thesis by simp
next
  case False
  let ?h = "if cl_key cl \<noteq> '''' then SumSHA256 (he_sha256 env) (he_json env p) (cl_key cl) else ''''"
  from run False obtain pl1 z y where gz: "gzipBytes (logged env) i (he_json env p) pl = (pl1, Inr z)"
    and send: "sendWithRetry (logged env) (newGzJSONRequest (logged env) cl path z ?h) (w, []) = ((w', log), y)"
    by (auto simp: doGzJSON_def marshalJSON_def Let_def logged_def split: sum.splits prod.splits option.splits if_splits)
  have e: "endpoint (logged env) cl path = endpoint env cl path" by (simp add: endpoint_def logged_def)
  have "he_gzClose env (he_json env p) = Inr z" using gzipBytes_ok [OF gz] by (simp add: logged_def)
  with sendWithRetry_logged [OF send] newGzJSONRequest_ok [of "logged env" cl path z ?h] e False show ?thesis
    by (auto simp: Let_def)
qed

text \<open>
  C27: one call of the publisher puts at most four requests on the wire, and all of them are the same: a
  \<open>POST\<close> to the endpoint whose body is the compressed JSON text of the payload and whose \<open>HashSHA256\<close> header
  is the keyed checksum of the uncompressed text (absent without a key). It succeeds only after a request.
\<close>

theorem doGzJSON_requests:
  assumes run: "doGzJSON (logged env) cl i path p (pl, (w, [])) = ((pl', (w', log)), x)"
  shows "length log \<le> 4 \<and> (x = None \<longrightarrow> log \<noteq> []) \<and>
    (\<forall>req \<in> set log.
       req_method req = ''POST'' \<and> req_url req = endpoint env cl path \<and>
       he_gzClose env (he_json env p) = Inr (req_body req) \<and>
       map_of (req_headers req) ''Content-Encoding'' = Some ''gzip'' \<and>
       (let h = (if cl_key cl = '''' then '''' else SumSHA256 (he_sha256 env) (he_json env p) (cl_key cl))
        in map_of (req_headers req) ''HashSHA256'' = (if h = '''' then None else Some h)))"
  by (rule doGzJSON_log [OF run])

abbreviation plain_env :: "http_response \<Rightarrow> unit httpjson_env" where
  "plain_env resp \<equiv>
     \<lparr>he_Do = (\<lambda>req w. (w, Inr resp)), he_newRequest = (\<lambda>u. None), he_ctxErr = (\<lambda>w. (w, None)),
      he_wait = (\<lambda>d w. (w, None)), he_json = (\<lambda>p. ''[]''), he_gzWrite = (\<lambda>s. None), he_gzClose = Inr,
      he_sha256 = (\<lambda>s. s), he_urlString = u_Path\<rparr>"

abbreviation resp_of :: "nat \<Rightarrow> http_response" where
  "resp_of code \<equiv> \<lparr>rs_status = code, rs_status_text = '''', rs_encoding = '''', rs_gzip = None,
     rs_copy = (\<lambda>z. None), rs_close = None\<rparr>"

abbreviation plain_client :: Client where
  "plain_client \<equiv> \<lparr>cl_key = '''', cl_base = \<lparr>u_Path = '''', u_rest = ''''\<rparr>\<rparr>"

theorem doGzJSON_requests_witness:
  "\<exists>log pl'. doGzJSON (logged (plain_env (resp_of 200))) plain_client 0 ''/updates'' (Many [counter_metric ''c'' 1])
       (NewPool '''' None, ((), [])) = ((pl', ((), log)), None) \<and> log \<noteq> [] \<and> length log \<le> 4"
proof -
  obtain log pl' where run: "doGzJSON (logged (plain_env (resp_of 200))) plain_client 0 ''/updates'' (Many [counter_metric ''c'' 1])
       (NewPool '''' None, ((), [])) = ((pl', ((), log)), None)"
    by (simp add: doGzJSON_def marshalJSON_def logged_def gzipBytes_def Pool_Get_def NewPool_def sendWithRetry_def Retry_def
          Retry_from.simps send_op_def newGzJSONRequest_def drainAndDiscard_def checkHTTPStatus_def Let_def)
  with doGzJSON_requests [OF run] show ?thesis by blast
qed

text \<open>
  the status of an answer is looked at only after the retry loop: a 429, 502, 503 or 504, which
  \<open>isRetryableHTTP\<close> lists as retryable, is reported after a single request.
\<close>

theorem doGzJSON_status_not_retried:
  assumes "he_Do env = (\<lambda>req w. (w, Inr resp))" and "rs_status resp \<in> {429, 502, 503, 504}"
    and "rs_copy resp = (\<lambda>z. None)" and "rs_gzip resp = None" and "he_gzWrite env = (\<lambda>s. None)"
    and "he_gzClose env (he_json env p) = Inr z" and "he_newRequest env = (\<lambda>u. None)" and "\<not> list_ex json_refuses (payload_items p)"
  shows "\<exists>pl' req e. doGzJSON (logged env) cl i path p (pl, (w, [])) = ((pl', (w, [req])), Some e) \<and>
    e = HttpStatusError (rs_status resp) (''server status: '' @ rs_status_text resp) \<and> isRetryableHTTP e"
proof -
  obtain pl1 got where g: "Pool_Get i pl = (pl1, got)" by fastforce
  obtain h :: string where h: "h = (if cl_key cl \<noteq> '''' then SumSHA256 (he_sha256 env) (he_json env p) (cl_key cl) else '''')" by simp
  obtain req where req: "newGzJSONRequest (logged env) cl path z h = Inr req"
    using assms(7) by (simp add: newGzJSONRequest_def logged_def Let_def)
  have "send_op (logged env) (Inr req) ((w, []), None) = (((w, [req]), Some resp), None)"
    using assms(1) by (simp add: send_op_def logged_def)
  from Retry_ok_first [where operation = "send_op (logged env) (Inr req)", OF this] have send: "sendWithRetry (logged env) (Inr req) (w, []) = ((w, [req]), Inr (Some resp))"
    by (simp add: sendWithRetry_def)
  from assms(2) have ne: "rs_status resp \<noteq> 200" by auto
  have gz: "gzipBytes (logged env) i (he_json env p) pl = (pl1, Inr z)"
    using assms(5,6) g by (simp add: gzipBytes_def logged_def)
  have "doGzJSON (logged env) cl i path p (pl, (w, [])) =
      ((payload_Release z pl1, (w, [req])), Some (HttpStatusError (rs_status resp) (''server status: '' @ rs_status_text resp)))"
    using assms(3,4,8) gz req send ne h
    by (cases "cl_key cl = ''''") (simp_all add: doGzJSON_def marshalJSON_def drainAndDiscard_def checkHTTPStatus_def Let_def split: option.split)
  with assms(2) show ?thesis by (auto simp: isRetryableHTTP_def)
qed

theorem doGzJSON_status_not_retried_witness:
  "\<exists>pl' req e. doGzJSON (logged (plain_env (resp_of 503))) plain_client 0 ''/updates'' (Many [counter_metric ''c'' 1])
     (NewPool '''' None, ((), [])) = ((pl', ((), [req])), Some e) \<and> isRetryableHTTP e"
  using doGzJSON_status_not_retried [of "plain_env (resp_of 503)" "resp_of 503" "Many [counter_metric ''c'' 1]" "''[]''"
      plain_client 0 "''/updates''" "NewPool '''' None" "()"]
  by auto

end
