(* ===== verification/Payload_Buffers.thy ===== *)
theory Payload_Buffers
  imports Http_Publisher
begin

text \<open>
  The pools of \<open>internal/adapters/publisher/httpjson/client.go\<close> with their sharing. \<open>Http_Publisher\<close> takes a
  pooled buffer for its content; here buffers, their backing arrays and gzip writers are objects of a heap, the
  workers' calls of \<open>doGzJSON\<close> run concurrently, one step per operation on an object or a pool, and the body of a
  request is a slice: a reference to the array of a buffer.

  A pooled gzip writer still refers to the buffer it wrote to last. A buffer is written by its writer in as many
  pieces as \<open>compress/gzip\<close> likes, and \<open>bytes.Buffer\<close> moves to a new array when the old one is too small. The
  transport of \<open>net/http\<close> reads a body in pieces. Its documentation allows it to go on after \<open>Do\<close> has
  returned; the parameter \<open>late\<close> of \<open>pool_reach\<close> says whether it does.
\<close>

section \<open>Buffers, writers and pools\<close>

record buffer =
  bf_array :: nat
  bf_len :: nat

record gz_heap =
  gh_arrays :: "nat \<Rightarrow> string"
  gh_narrays :: nat
  gh_bufs :: "nat \<Rightarrow> buffer"
  gh_nbufs :: nat
  gh_dests :: "nat \<Rightarrow> nat option"
  gh_nwriters :: nat
  gh_bufferPool :: "nat list"
  gh_writerPool :: "nat list"

text \<open>A slice: an array and a length.\<close>

type_synonym slice = "nat \<times> nat"

definition slice_read :: "slice \<Rightarrow> gz_heap \<Rightarrow> string" where
  "slice_read sl h = take (snd sl) (gh_arrays h (fst sl))"

definition buffer_Bytes :: "nat \<Rightarrow> gz_heap \<Rightarrow> slice" where
  "buffer_Bytes b h = (bf_array (gh_bufs h b), bf_len (gh_bufs h b))"

definition buffer_Reset :: "nat \<Rightarrow> gz_heap \<Rightarrow> gz_heap" where
  "buffer_Reset b h = h\<lparr>gh_bufs := (gh_bufs h)(b := (gh_bufs h b)\<lparr>bf_len := 0\<rparr>)\<rparr>"

text \<open>\<open>spare\<close> is what a new array has behind the written bytes.\<close>

definition buffer_Write :: "string \<Rightarrow> string \<Rightarrow> nat \<Rightarrow> gz_heap \<Rightarrow> gz_heap" where
  "buffer_Write spare s b h =
     (let a = bf_array (gh_bufs h b); l = bf_len (gh_bufs h b); arr = gh_arrays h a in
      if l + length s \<le> length arr
      then h\<lparr>gh_arrays := (gh_arrays h)(a := take l arr @ s @ drop (l + length s) arr),
             gh_bufs := (gh_bufs h)(b := \<lparr>bf_array = a, bf_len = l + length s\<rparr>)\<rparr>
      else h\<lparr>gh_arrays := (gh_arrays h)(gh_narrays h := take l arr @ s @ spare), gh_narrays := Suc (gh_narrays h),
             gh_bufs := (gh_bufs h)(b := \<lparr>bf_array = gh_narrays h, bf_len = l + length s\<rparr>)\<rparr>)"

text \<open>\<open>sync.Pool\<close> gives any pooled object, or a new one.\<close>

definition bufferPool_Get :: "nat \<Rightarrow> gz_heap \<Rightarrow> nat \<times> gz_heap" where
  "bufferPool_Get i h =
     (if i < length (gh_bufferPool h)
      then (gh_bufferPool h ! i, h\<lparr>gh_bufferPool := take i (gh_bufferPool h) @ drop (Suc i) (gh_bufferPool h)\<rparr>)
      else (gh_nbufs h,
            h\<lparr>gh_arrays := (gh_arrays h)(gh_narrays h := ''''), gh_narrays := Suc (gh_narrays h),
              gh_bufs := (gh_bufs h)(gh_nbufs h := \<lparr>bf_array = gh_narrays h, bf_len = 0\<rparr>), gh_nbufs := Suc (gh_nbufs h)\<rparr>))"

definition bufferPool_Put :: "nat \<Rightarrow> gz_heap \<Rightarrow> gz_heap" where
  "bufferPool_Put b h = h\<lparr>gh_bufferPool := gh_bufferPool h @ [b]\<rparr>"

definition gzipWriterPool_Get :: "nat \<Rightarrow> gz_heap \<Rightarrow> nat \<times> gz_heap" where
  "gzipWriterPool_Get i h =
     (if i < length (gh_writerPool h)
      then (gh_writerPool h ! i, h\<lparr>gh_writerPool := take i (gh_writerPool h) @ drop (Suc i) (gh_writerPool h)\<rparr>)
      else (gh_nwriters h, h\<lparr>gh_dests := (gh_dests h)(gh_nwriters h := None), gh_nwriters := Suc (gh_nwriters h)\<rparr>))"

definition gzipWriterPool_Put :: "nat \<Rightarrow> gz_heap \<Rightarrow> gz_heap" where
  "gzipWriterPool_Put z h = h\<lparr>gh_writerPool := gh_writerPool h @ [z]\<rparr>"

definition writer_Reset :: "nat \<Rightarrow> nat \<Rightarrow> gz_heap \<Rightarrow> gz_heap" where
  "writer_Reset z b h = h\<lparr>gh_dests := (gh_dests h)(z := Some b)\<rparr>"

text \<open>Compressed bytes that a writer passes on; a new writer discards them.\<close>

definition writer_out :: "string \<Rightarrow> string \<Rightarrow> nat \<Rightarrow> gz_heap \<Rightarrow> gz_heap" where
  "writer_out spare s z h = (case gh_dests h z of None \<Rightarrow> h | Some b \<Rightarrow> buffer_Write spare s b h)"

section \<open>A call of doGzJSON\<close>

text \<open>
  Where a call stands, with the text to compress and the objects it holds: in \<open>gzipBytes\<close>, in its error paths,
  with a request under way, in \<open>Release\<close>, or done.
\<close>

datatype gz_pc =
    Calling string
  | GotBuffer string nat
  | CleanBuffer string nat
  | GotWriter string nat nat
  | Aimed string nat nat
  | Written string nat nat string
  | Closed string nat nat
  | ClosingFailed string nat nat go_error
  | PuttingWriter string nat nat go_error
  | ResettingBuffer string nat go_error
  | PuttingBuffer string nat go_error
  | InFlight string nat slice
  | Releasing string nat slice
  | Returned string "go_error + slice"

text \<open>
  What the libraries and the scheduler decide: the choice of a pool, how much \<open>Write\<close> passes on before \<open>Close\<close>,
  the bytes of a compressor that fails, the spare capacity of a new array.
\<close>

record gz_choice =
  ch_pick :: nat
  ch_flush :: nat
  ch_junk :: string
  ch_spare :: string

fun gz_move :: "'w httpjson_env \<Rightarrow> gz_choice \<Rightarrow> gz_pc \<Rightarrow> gz_heap \<Rightarrow> gz_pc \<times> gz_heap" where
  "gz_move env ch (Calling p) h = (case bufferPool_Get (ch_pick ch) h of (b, h1) \<Rightarrow> (GotBuffer p b, h1))"
| "gz_move env ch (GotBuffer p b) h = (CleanBuffer p b, buffer_Reset b h)"
| "gz_move env ch (CleanBuffer p b) h = (case gzipWriterPool_Get (ch_pick ch) h of (z, h1) \<Rightarrow> (GotWriter p b z, h1))"
| "gz_move env ch (GotWriter p b z) h = (Aimed p b z, writer_Reset z b h)"
| "gz_move env ch (Aimed p b z) h =
     (case he_gzWrite env p of
        Some e \<Rightarrow> (ClosingFailed p b z (Wrapf ''gzip write'' e), writer_out (ch_spare ch) (ch_junk ch) z h)
      | None \<Rightarrow>
          (case he_gzClose env p of
             Inl e \<Rightarrow> (Written p b z '''', writer_out (ch_spare ch) (ch_junk ch) z h)
           | Inr zs \<Rightarrow> (Written p b z (drop (ch_flush ch) zs), writer_out (ch_spare ch) (take (ch_flush ch) zs) z h)))"
| "gz_move env ch (Written p b z rest) h =
     (case he_gzClose env p of
        Inl e \<Rightarrow> (PuttingWriter p b z (Wrapf ''gzip close'' e), writer_out (ch_spare ch) (ch_junk ch) z h)
      | Inr zs \<Rightarrow> (Closed p b z, writer_out (ch_spare ch) rest z h))"
| "gz_move env ch (Closed p b z) h = (InFlight p b (buffer_Bytes b h), gzipWriterPool_Put z h)"
| "gz_move env ch (ClosingFailed p b z e) h = (PuttingWriter p b z e, writer_out (ch_spare ch) (ch_junk ch) z h)"
| "gz_move env ch (PuttingWriter p b z e) h = (ResettingBuffer p b e, gzipWriterPool_Put z h)"
| "gz_move env ch (ResettingBuffer p b e) h = (PuttingBuffer p b e, buffer_Reset b h)"
| "gz_move env ch (PuttingBuffer p b e) h = (Returned p (Inl e), bufferPool_Put b h)"
| "gz_move env ch (InFlight p b sl) h = (Releasing p b sl, buffer_Reset b h)"
| "gz_move env ch (Releasing p b sl) h = (Returned p (Inr sl), bufferPool_Put b h)"
| "gz_move env ch (Returned p s) h = (Returned p s, h)"

section \<open>Concurrent calls\<close>

text \<open>The pieces of bodies the transport has read: whose body, from which position, and the bytes.\<close>

record gz_sys =
  gs_heap :: gz_heap
  gs_calls :: "gz_pc list"
  gs_wire :: "(string \<times> nat \<times> string) list"

definition empty_heap :: gz_heap where
  "empty_heap =
     \<lparr>gh_arrays = (\<lambda>a. ''''), gh_narrays = 0, gh_bufs = (\<lambda>b. \<lparr>bf_array = 0, bf_len = 0\<rparr>), gh_nbufs = 0,
      gh_dests = (\<lambda>z. None), gh_nwriters = 0, gh_bufferPool = [], gh_writerPool = []\<rparr>"

text \<open>The slice a request of the call refers to, and whether the transport may read it.\<close>

fun readable :: "bool \<Rightarrow> gz_pc \<Rightarrow> (string \<times> slice) option" where
  "readable late (InFlight p b sl) = Some (p, sl)"
| "readable late (Releasing p b sl) = (if late then Some (p, sl) else None)"
| "readable late (Returned p (Inr sl)) = (if late then Some (p, sl) else None)"
| "readable late _ = None"

inductive pool_reach :: "bool \<Rightarrow> 'w httpjson_env \<Rightarrow> gz_sys \<Rightarrow> bool" for late :: bool and env :: "'w httpjson_env" where
  start: "pool_reach late env \<lparr>gs_heap = empty_heap, gs_calls = [], gs_wire = []\<rparr>"
| call: "pool_reach late env s \<Longrightarrow> pool_reach late env (s\<lparr>gs_calls := gs_calls s @ [Calling p]\<rparr>)"
| move: "pool_reach late env s \<Longrightarrow> i < length (gs_calls s) \<Longrightarrow> gz_move env ch (gs_calls s ! i) (gs_heap s) = (pc, h) \<Longrightarrow>
     pool_reach late env (s\<lparr>gs_heap := h, gs_calls := (gs_calls s)[i := pc]\<rparr>)"
| read: "pool_reach late env s \<Longrightarrow> i < length (gs_calls s) \<Longrightarrow> readable late (gs_calls s ! i) = Some (p, sl) \<Longrightarrow>
     pool_reach late env (s\<lparr>gs_wire := gs_wire s @ [(p, from, take n (drop from (slice_read sl (gs_heap s))))]\<rparr>)"
| collect_buffer: "pool_reach late env s \<Longrightarrow> i < length (gh_bufferPool (gs_heap s)) \<Longrightarrow>
     pool_reach late env (s\<lparr>gs_heap := snd (bufferPool_Get i (gs_heap s))\<rparr>)"
| collect_writer: "pool_reach late env s \<Longrightarrow> i < length (gh_writerPool (gs_heap s)) \<Longrightarrow>
     pool_reach late env (s\<lparr>gs_heap := snd (gzipWriterPool_Get i (gs_heap s))\<rparr>)"

section \<open>Ownership\<close>

datatype gz_obj = Buf nat | Zw nat

fun owned :: "gz_pc \<Rightarrow> gz_obj set" where
  "owned (GotBuffer p b) = {Buf b}"
| "owned (CleanBuffer p b) = {Buf b}"
| "owned (GotWriter p b z) = {Buf b, Zw z}"
| "owned (Aimed p b z) = {Buf b, Zw z}"
| "owned (Written p b z rest) = {Buf b, Zw z}"
| "owned (Closed p b z) = {Buf b, Zw z}"
| "owned (ClosingFailed p b z e) = {Buf b, Zw z}"
| "owned (PuttingWriter p b z e) = {Buf b, Zw z}"
| "owned (ResettingBuffer p b e) = {Buf b}"
| "owned (PuttingBuffer p b e) = {Buf b}"
| "owned (InFlight p b sl) = {Buf b}"
| "owned (Releasing p b sl) = {Buf b}"
| "owned _ = {}"

definition pooled :: "gz_heap \<Rightarrow> gz_obj set" where
  "pooled h = Buf ` set (gh_bufferPool h) \<union> Zw ` set (gh_writerPool h)"

fun alive :: "gz_heap \<Rightarrow> gz_obj \<Rightarrow> bool" where
  "alive h (Buf b) = (b < gh_nbufs h)"
| "alive h (Zw z) = (z < gh_nwriters h)"

text \<open>Every buffer has an array of its own, which holds what the buffer says it holds.\<close>

definition heap_ok :: "gz_heap \<Rightarrow> bool" where
  "heap_ok h \<longleftrightarrow>
     distinct (gh_bufferPool h) \<and> distinct (gh_writerPool h) \<and> (\<forall>x \<in> pooled h. alive h x) \<and>
     inj_on (\<lambda>b. bf_array (gh_bufs h b)) {..< gh_nbufs h} \<and>
     (\<forall>b < gh_nbufs h. bf_array (gh_bufs h b) < gh_narrays h \<and>
        bf_len (gh_bufs h b) \<le> length (gh_arrays h (bf_array (gh_bufs h b))))"

definition content :: "nat \<Rightarrow> gz_heap \<Rightarrow> string" where
  "content b h = slice_read (buffer_Bytes b h) h"

text \<open>What \<open>gzipBytes\<close> of \<open>Http_Publisher\<close> returns, whatever its pool.\<close>

definition gz_outcome :: "'w httpjson_env \<Rightarrow> string \<Rightarrow> go_error + string" where
  "gz_outcome env p =
     (case he_gzWrite env p of
        Some e \<Rightarrow> Inl (Wrapf ''gzip write'' e)
      | None \<Rightarrow> (case he_gzClose env p of Inl e \<Rightarrow> Inl (Wrapf ''gzip close'' e) | Inr z \<Rightarrow> Inr z))"

lemma gzipBytes_outcome: "snd (gzipBytes env k p pl) = gz_outcome env p"
  by (simp add: gzipBytes_def gz_outcome_def Let_def split: prod.split option.split sum.split)

text \<open>What a call has got so far.\<close>

fun call_ok :: "'w httpjson_env \<Rightarrow> gz_heap \<Rightarrow> gz_pc \<Rightarrow> bool" where
  "call_ok env h (CleanBuffer p b) = (content b h = '''')"
| "call_ok env h (GotWriter p b z) = (content b h = '''')"
| "call_ok env h (Aimed p b z) = (content b h = '''' \<and> gh_dests h z = Some b)"
| "call_ok env h (Written p b z rest) =
     (gh_dests h z = Some b \<and> he_gzWrite env p = None \<and>
      (case he_gzClose env p of Inl e \<Rightarrow> True | Inr zs \<Rightarrow> content b h @ rest = zs))"
| "call_ok env h (Closed p b z) = (gz_outcome env p = Inr (content b h))"
| "call_ok env h (ClosingFailed p b z e) = (gh_dests h z = Some b \<and> gz_outcome env p = Inl e)"
| "call_ok env h (PuttingWriter p b z e) = (gz_outcome env p = Inl e)"
| "call_ok env h (ResettingBuffer p b e) = (gz_outcome env p = Inl e)"
| "call_ok env h (PuttingBuffer p b e) = (gz_outcome env p = Inl e)"
| "call_ok env h (InFlight p b sl) = (sl = buffer_Bytes b h \<and> gz_outcome env p = Inr (content b h))"
| "call_ok env h (Returned p (Inl e)) = (gz_outcome env p = Inl e)"
| "call_ok env h _ = True"

text \<open>Two heaps that show the same of an object.\<close>

fun same_obj :: "gz_heap \<Rightarrow> gz_heap \<Rightarrow> gz_obj \<Rightarrow> bool" where
  "same_obj h h' (Buf b) = (buffer_Bytes b h' = buffer_Bytes b h \<and> content b h' = content b h)"
| "same_obj h h' (Zw z) = (gh_dests h' z = gh_dests h z)"

lemma call_ok_frame: "call_ok env h pc \<Longrightarrow> (\<And>x. x \<in> owned pc \<Longrightarrow> same_obj h h' x) \<Longrightarrow> call_ok env h' pc"
  by (cases "(env, h, pc)" rule: call_ok.cases) (force split: sum.splits)+

section \<open>What the operations keep\<close>

definition leaves_alone :: "gz_obj set \<Rightarrow> gz_heap \<Rightarrow> gz_heap \<Rightarrow> bool" where
  "leaves_alone own h h' \<longleftrightarrow> (\<forall>x. alive h x \<longrightarrow> alive h' x) \<and> (\<forall>x. alive h x \<and> x \<notin> own \<longrightarrow> same_obj h h' x)"

lemma heap_okD:
  assumes "heap_ok h" and "b < gh_nbufs h"
  shows "bf_array (gh_bufs h b) < gh_narrays h" and "bf_len (gh_bufs h b) \<le> length (gh_arrays h (bf_array (gh_bufs h b)))"
    and "b' < gh_nbufs h \<Longrightarrow> bf_array (gh_bufs h b') = bf_array (gh_bufs h b) \<longleftrightarrow> b' = b"
  using assms by (auto simp: heap_ok_def inj_on_def)

lemma pooled_alive: "heap_ok h \<Longrightarrow> x \<in> pooled h \<Longrightarrow> alive h x"
  by (simp add: heap_ok_def)

text \<open>A buffer that is given another content, in its own array or in a new one.\<close>

definition refilled :: "nat \<Rightarrow> nat \<Rightarrow> string \<Rightarrow> nat \<Rightarrow> gz_heap \<Rightarrow> gz_heap" where
  "refilled a n arr b h =
     h\<lparr>gh_arrays := (gh_arrays h)(a := arr), gh_narrays := max (gh_narrays h) (Suc a),
       gh_bufs := (gh_bufs h)(b := \<lparr>bf_array = a, bf_len = n\<rparr>)\<rparr>"

lemma refilled_ok:
  assumes ok: "heap_ok h" and b: "b < gh_nbufs h" and a: "a = bf_array (gh_bufs h b) \<or> a = gh_narrays h" and n: "n \<le> length arr"
  shows "heap_ok (refilled a n arr b h)" and "leaves_alone {Buf b} h (refilled a n arr b h)"
    and "content b (refilled a n arr b h) = take n arr" and "pooled (refilled a n arr b h) = pooled h"
    and "gh_dests (refilled a n arr b h) = gh_dests h"
proof -
  have other: "bf_array (gh_bufs h b') \<noteq> a" if "b' < gh_nbufs h" "b' \<noteq> b" for b'
    using heap_okD [OF ok b] heap_okD(1) [OF ok that(1)] a that by auto
  have alive [simp]: "alive (refilled a n arr b h) x = alive h x" for x by (cases x) (simp_all add: refilled_def)
  show pooled: "pooled (refilled a n arr b h) = pooled h" by (simp add: pooled_def refilled_def)
  have "inj_on (\<lambda>b'. bf_array (gh_bufs (refilled a n arr b h) b')) {..< gh_nbufs h}"
    using ok other by (auto simp: heap_ok_def inj_on_def refilled_def)
  moreover have "bf_array (gh_bufs (refilled a n arr b h) b') < gh_narrays (refilled a n arr b h) \<and>
      bf_len (gh_bufs (refilled a n arr b h) b') \<le> length (gh_arrays (refilled a n arr b h) (bf_array (gh_bufs (refilled a n arr b h) b')))"
    if "b' < gh_nbufs h" for b'
    using n other [OF that] heap_okD(1,2) [OF ok that] by (auto simp: refilled_def)
  moreover have "gh_bufferPool (refilled a n arr b h) = gh_bufferPool h" "gh_writerPool (refilled a n arr b h) = gh_writerPool h"
      "gh_nbufs (refilled a n arr b h) = gh_nbufs h"
    by (simp_all add: refilled_def)
  ultimately show "heap_ok (refilled a n arr b h)" using ok pooled by (simp add: heap_ok_def)
  have "same_obj h (refilled a n arr b h) x" if "alive h x" "x \<noteq> Buf b" for x
    using that other by (cases x) (auto simp: refilled_def buffer_Bytes_def content_def slice_read_def)
  then show "leaves_alone {Buf b} h (refilled a n arr b h)" by (simp add: leaves_alone_def)
qed (simp_all add: content_def slice_read_def buffer_Bytes_def refilled_def)

lemma buffer_Reset_refilled:
  assumes "heap_ok h" and "b < gh_nbufs h"
  shows "buffer_Reset b h = refilled (bf_array (gh_bufs h b)) 0 (gh_arrays h (bf_array (gh_bufs h b))) b h"
proof -
  have "max (gh_narrays h) (Suc (bf_array (gh_bufs h b))) = gh_narrays h" using heap_okD(1) [OF assms] by simp
  then show ?thesis by (cases h; cases "gh_bufs h b") (simp add: buffer_Reset_def refilled_def)
qed

lemma buffer_Write_refilled:
  assumes "heap_ok h" and "b < gh_nbufs h"
  obtains a n arr where "buffer_Write spare s b h = refilled a n arr b h" "a = bf_array (gh_bufs h b) \<or> a = gh_narrays h"
    "n \<le> length arr" "take n arr = content b h @ s"
proof -
  let ?a = "bf_array (gh_bufs h b)" and ?l = "bf_len (gh_bufs h b)"
  let ?arr = "gh_arrays h ?a"
  note d = heap_okD(1,2) [OF assms]
  show ?thesis
  proof (cases "?l + length s \<le> length ?arr")
    case True
    with d show ?thesis
      by (intro that [of ?a "?l + length s" "take ?l ?arr @ s @ drop (?l + length s) ?arr"])
        (auto simp: buffer_Write_def refilled_def content_def slice_read_def buffer_Bytes_def max_def Let_def)
  next
    case False
    with d show ?thesis
      by (intro that [of "gh_narrays h" "?l + length s" "take ?l ?arr @ s @ spare"])
        (auto simp: buffer_Write_def refilled_def content_def slice_read_def buffer_Bytes_def max_def Let_def)
  qed
qed

lemma buffer_Reset_ok:
  assumes "heap_ok h" and "b < gh_nbufs h"
  shows "heap_ok (buffer_Reset b h)" and "leaves_alone {Buf b} h (buffer_Reset b h)" and "content b (buffer_Reset b h) = ''''"
    and "pooled (buffer_Reset b h) = pooled h" and "gh_dests (buffer_Reset b h) = gh_dests h"
  using refilled_ok [OF assms, of "bf_array (gh_bufs h b)" 0] by (simp_all add: buffer_Reset_refilled [OF assms])

lemma buffer_Write_ok:
  assumes "heap_ok h" and "b < gh_nbufs h"
  shows "heap_ok (buffer_Write spare s b h) \<and> leaves_alone {Buf b} h (buffer_Write spare s b h) \<and>
    content b (buffer_Write spare s b h) = content b h @ s \<and> pooled (buffer_Write spare s b h) = pooled h \<and>
    gh_dests (buffer_Write spare s b h) = gh_dests h"
proof -
  obtain a n arr where w: "buffer_Write spare s b h = refilled a n arr b h" "a = bf_array (gh_bufs h b) \<or> a = gh_narrays h"
      "n \<le> length arr" "take n arr = content b h @ s"
    using buffer_Write_refilled [OF assms] by blast
  from refilled_ok [OF assms w(2,3)] w show ?thesis by simp
qed

lemma nth_removed:
  assumes "distinct xs" and "i < length xs"
  shows "set (take i xs @ drop (Suc i) xs) = set xs - {xs ! i}" and "distinct (take i xs @ drop (Suc i) xs)"
proof -
  obtain ys zs where xs: "xs = ys @ xs ! i # zs" "ys = take i xs" "zs = drop (Suc i) xs"
    using id_take_nth_drop [OF assms(2)] by blast
  from assms(1) have "distinct (ys @ xs ! i # zs)" using xs(1) by simp
  moreover have "set xs = set (ys @ xs ! i # zs)" using xs(1) by simp
  ultimately show "set (take i xs @ drop (Suc i) xs) = set xs - {xs ! i}" and "distinct (take i xs @ drop (Suc i) xs)"
    using xs(2,3) by auto
qed

text \<open>Taking an object out of its pool, and putting it back.\<close>

lemma bufferPool_Get_ok:
  assumes ok: "heap_ok h" and get: "bufferPool_Get i h = (b, h')"
  shows "heap_ok h'" and "leaves_alone {} h h'" and "Buf b \<in> pooled h \<or> \<not> alive h (Buf b)" and "alive h' (Buf b)"
    and "pooled h' \<subseteq> pooled h - {Buf b}"
proof -
  have "heap_ok h' \<and> leaves_alone {} h h' \<and> (Buf b \<in> pooled h \<or> \<not> alive h (Buf b)) \<and> alive h' (Buf b) \<and> pooled h' \<subseteq> pooled h - {Buf b}"
  proof (cases "i < length (gh_bufferPool h)")
    case True
    let ?h = "h\<lparr>gh_bufferPool := take i (gh_bufferPool h) @ drop (Suc i) (gh_bufferPool h)\<rparr>"
    from True get have b: "b = gh_bufferPool h ! i" "h' = ?h" by (auto simp: bufferPool_Get_def)
    have d: "distinct (gh_bufferPool h)" using ok by (simp add: heap_ok_def)
    have same: "alive ?h x = alive h x" "same_obj h ?h x" for x
      by (cases x; simp add: content_def slice_read_def buffer_Bytes_def)+
    have p: "pooled ?h = pooled h - {Buf b}" using nth_removed [OF d True] b by (auto simp: pooled_def)
    have "Buf b \<in> pooled h" using True b by (simp add: pooled_def)
    with pooled_alive [OF ok this] ok p b same nth_removed(2) [OF d True] show ?thesis by (simp add: heap_ok_def leaves_alone_def)
  next
    case False
    let ?n = "gh_nbufs h"
    from False get have b: "b = ?n" and h': "h' = h\<lparr>gh_arrays := (gh_arrays h)(gh_narrays h := ''''), gh_narrays := Suc (gh_narrays h),
        gh_bufs := (gh_bufs h)(?n := \<lparr>bf_array = gh_narrays h, bf_len = 0\<rparr>), gh_nbufs := Suc ?n\<rparr>"
      by (auto simp: bufferPool_Get_def)
    have p: "pooled h' = pooled h" by (simp add: pooled_def h')
    have al: "alive h x \<Longrightarrow> alive h' x" for x by (cases x) (simp_all add: h')
    have arr: "bf_array (gh_bufs h b') \<noteq> gh_narrays h" if "b' < ?n" for b' using heap_okD(1) [OF ok that] by simp
    have "same_obj h h' x" if "alive h x" for x
      using that arr by (cases x) (auto simp: h' content_def slice_read_def buffer_Bytes_def)
    moreover have "heap_ok h'"
      using ok p al arr by (auto simp: heap_ok_def) (auto simp: h' inj_on_def less_Suc_eq)
    moreover have "Buf b \<notin> pooled h" using ok b by (auto simp: heap_ok_def)
    ultimately show ?thesis using p al b by (auto simp: leaves_alone_def h')
  qed
  then show "heap_ok h'" and "leaves_alone {} h h'" and "Buf b \<in> pooled h \<or> \<not> alive h (Buf b)" and "alive h' (Buf b)"
    and "pooled h' \<subseteq> pooled h - {Buf b}" by blast+
qed

lemma gzipWriterPool_Get_ok:
  assumes ok: "heap_ok h" and get: "gzipWriterPool_Get i h = (z, h')"
  shows "heap_ok h'" and "leaves_alone {} h h'" and "Zw z \<in> pooled h \<or> \<not> alive h (Zw z)" and "alive h' (Zw z)"
    and "pooled h' \<subseteq> pooled h - {Zw z}"
proof -
  have same: "same_obj h h' x" "alive h x \<Longrightarrow> alive h' x" if "alive h x" for x
    using get that by (cases x; auto simp: gzipWriterPool_Get_def content_def slice_read_def buffer_Bytes_def split: if_splits)+
  then show "leaves_alone {} h h'" by (simp add: leaves_alone_def)
  have d: "distinct (gh_writerPool h)" and dead: "Zw (gh_nwriters h) \<notin> pooled h" using ok by (auto simp: heap_ok_def)
  show z: "Zw z \<in> pooled h \<or> \<not> alive h (Zw z)" "pooled h' \<subseteq> pooled h - {Zw z}"
    using get nth_removed [OF d, of i] dead by (auto simp: gzipWriterPool_Get_def pooled_def split: if_splits)
  show "alive h' (Zw z)"
    using get pooled_alive [OF ok, of "Zw z"] by (auto simp: gzipWriterPool_Get_def pooled_def split: if_splits)
  have "distinct (gh_writerPool h')" using get d nth_removed(2) [OF d] by (auto simp: gzipWriterPool_Get_def split: if_splits)
  moreover have "gh_bufs h' = gh_bufs h" "gh_nbufs h' = gh_nbufs h" "gh_arrays h' = gh_arrays h" "gh_narrays h' = gh_narrays h"
      "gh_bufferPool h' = gh_bufferPool h"
    using get by (auto simp: gzipWriterPool_Get_def split: if_splits)
  moreover have "\<forall>x \<in> pooled h'. alive h' x" using z(2) same(2) ok by (auto simp: heap_ok_def)
  ultimately show "heap_ok h'" using ok by (simp add: heap_ok_def)
qed

lemma bufferPool_Put_ok:
  assumes "heap_ok h" and "alive h (Buf b)" and "Buf b \<notin> pooled h"
  shows "heap_ok (bufferPool_Put b h)" and "leaves_alone {} h (bufferPool_Put b h)" and "pooled (bufferPool_Put b h) = insert (Buf b) (pooled h)"
proof -
  have same: "alive (bufferPool_Put b h) x = alive h x" "same_obj h (bufferPool_Put b h) x" for x
    by (cases x; simp add: bufferPool_Put_def content_def slice_read_def buffer_Bytes_def)+
  then show "leaves_alone {} h (bufferPool_Put b h)" by (simp add: leaves_alone_def)
  show p: "pooled (bufferPool_Put b h) = insert (Buf b) (pooled h)" by (auto simp: bufferPool_Put_def pooled_def)
  have "b \<notin> set (gh_bufferPool h)" using assms(3) by (auto simp: pooled_def)
  with assms p same show "heap_ok (bufferPool_Put b h)" by (auto simp: heap_ok_def) (auto simp: bufferPool_Put_def)
qed

lemma gzipWriterPool_Put_ok:
  assumes "heap_ok h" and "alive h (Zw z)" and "Zw z \<notin> pooled h"
  shows "heap_ok (gzipWriterPool_Put z h)" and "leaves_alone {} h (gzipWriterPool_Put z h)"
    and "pooled (gzipWriterPool_Put z h) = insert (Zw z) (pooled h)"
proof -
  have same: "alive (gzipWriterPool_Put z h) x = alive h x" "same_obj h (gzipWriterPool_Put z h) x" for x
    by (cases x; simp add: gzipWriterPool_Put_def content_def slice_read_def buffer_Bytes_def)+
  then show "leaves_alone {} h (gzipWriterPool_Put z h)" by (simp add: leaves_alone_def)
  show p: "pooled (gzipWriterPool_Put z h) = insert (Zw z) (pooled h)" by (auto simp: gzipWriterPool_Put_def pooled_def)
  have "z \<notin> set (gh_writerPool h)" using assms(3) by (auto simp: pooled_def)
  with assms p same show "heap_ok (gzipWriterPool_Put z h)" by (auto simp: heap_ok_def) (auto simp: gzipWriterPool_Put_def)
qed

lemma writer_Reset_ok:
  assumes "heap_ok h"
  shows "heap_ok (writer_Reset z b h)" and "leaves_alone {Zw z} h (writer_Reset z b h)" and "pooled (writer_Reset z b h) = pooled h"
proof -
  have "alive (writer_Reset z b h) x = alive h x" "x \<noteq> Zw z \<Longrightarrow> same_obj h (writer_Reset z b h) x" for x
    by (cases x; simp add: writer_Reset_def content_def slice_read_def buffer_Bytes_def)+
  then show "leaves_alone {Zw z} h (writer_Reset z b h)" by (simp add: leaves_alone_def)
  have "\<And>x. alive (writer_Reset z b h) x = alive h x" by (rule \<open>\<And>x. alive (writer_Reset z b h) x = alive h x\<close>)
  then show "heap_ok (writer_Reset z b h)" using assms by (simp add: heap_ok_def) (simp add: writer_Reset_def pooled_def)
qed (simp_all add: writer_Reset_def pooled_def content_def slice_read_def buffer_Bytes_def)

section \<open>A move of a call\<close>

definition moved :: "'w httpjson_env \<Rightarrow> gz_pc \<Rightarrow> gz_heap \<Rightarrow> gz_pc \<Rightarrow> gz_heap \<Rightarrow> bool" where
  "moved env pc h pc' h' \<longleftrightarrow>
     heap_ok h' \<and> call_ok env h' pc' \<and> leaves_alone (owned pc) h h' \<and>
     owned pc' \<subseteq> owned pc \<union> pooled h \<union> {x. \<not> alive h x} \<and> pooled h' \<subseteq> pooled h \<union> owned pc \<and>
     (\<forall>x \<in> owned pc'. alive h' x \<and> x \<notin> pooled h')"

lemma leaves_alone_mono: "leaves_alone own h h' \<Longrightarrow> own \<subseteq> own' \<Longrightarrow> leaves_alone own' h h'"
  by (auto simp: leaves_alone_def)

lemma leaves_alone_alive: "leaves_alone own h h' \<Longrightarrow> alive h x \<Longrightarrow> alive h' x"
  by (auto simp: leaves_alone_def)

lemma leaves_alone_same: "leaves_alone own h h' \<Longrightarrow> alive h x \<Longrightarrow> x \<notin> own \<Longrightarrow> same_obj h h' x"
  by (auto simp: leaves_alone_def)

lemma leaves_alone_bounds:
  "leaves_alone own h h' \<Longrightarrow> b < gh_nbufs h \<Longrightarrow> b < gh_nbufs h'"
  "leaves_alone own h h' \<Longrightarrow> z < gh_nwriters h \<Longrightarrow> z < gh_nwriters h'"
  using leaves_alone_alive [of own h h' "Buf b"] leaves_alone_alive [of own h h' "Zw z"] by simp_all

text \<open>A writer of the call passes bytes on, and nothing changes but the content of its buffer.\<close>

lemma writer_out_moved:
  assumes "heap_ok h" and own: "owned pc = {Buf b, Zw z}" "\<forall>x \<in> owned pc. alive h x \<and> x \<notin> pooled h" and "gh_dests h z = Some b"
    and "owned pc' = owned pc" and "h' = writer_out spare s z h"
    and "content b h' = content b h @ s \<Longrightarrow> gh_dests h' z = Some b \<Longrightarrow> call_ok env h' pc'"
  shows "moved env pc h pc' h'"
proof -
  have b: "b < gh_nbufs h" using own by auto
  have h': "h' = buffer_Write spare s b h" using assms(4,6) by (simp add: writer_out_def)
  note w = buffer_Write_ok [OF assms(1) b, of spare s, folded h']
  then have "leaves_alone (owned pc) h h'" using own(1) leaves_alone_mono by blast
  with w assms own show ?thesis by (auto simp: moved_def dest: leaves_alone_bounds)
qed

lemma buffer_Reset_moved:
  assumes "heap_ok h" and own: "owned pc = {Buf b}" "\<forall>x \<in> owned pc. alive h x \<and> x \<notin> pooled h"
    and "owned pc' = owned pc" and "content b (buffer_Reset b h) = '''' \<Longrightarrow> call_ok env (buffer_Reset b h) pc'"
  shows "moved env pc h pc' (buffer_Reset b h)"
proof -
  have b: "b < gh_nbufs h" using own by auto
  note w = buffer_Reset_ok [OF assms(1) b]
  with assms own show ?thesis by (auto simp: moved_def dest: leaves_alone_bounds)
qed

lemma bufferPool_Put_moved:
  assumes "heap_ok h" and own: "owned pc = {Buf b}" "\<forall>x \<in> owned pc. alive h x \<and> x \<notin> pooled h"
    and "owned pc' = {}" and "call_ok env (bufferPool_Put b h) pc'"
  shows "moved env pc h pc' (bufferPool_Put b h)"
proof -
  have "alive h (Buf b)" "Buf b \<notin> pooled h" using own by simp_all
  note p = bufferPool_Put_ok [OF assms(1) this]
  from p(2) have "leaves_alone (owned pc) h (bufferPool_Put b h)" by (rule leaves_alone_mono) simp
  with p assms show ?thesis by (simp add: moved_def)
qed

lemma gz_move_moved:
  assumes ok: "heap_ok h" and call: "call_ok env h pc" and own: "\<forall>x \<in> owned pc. alive h x \<and> x \<notin> pooled h"
    and run: "gz_move env ch pc h = (pc', h')"
  shows "moved env pc h pc' h'"
proof (cases pc)
  case (Calling p)
  with run obtain b where g: "bufferPool_Get (ch_pick ch) h = (b, h')" "pc' = GotBuffer p b" by (auto split: prod.splits)
  with bufferPool_Get_ok [OF ok g(1)] Calling show ?thesis by (auto simp: moved_def)
next
  case (GotBuffer p b)
  with run own show ?thesis by (auto intro!: buffer_Reset_moved [OF ok])
next
  case (CleanBuffer p b)
  with run obtain z where g: "gzipWriterPool_Get (ch_pick ch) h = (z, h')" "pc' = GotWriter p b z" by (auto split: prod.splits)
  note w = gzipWriterPool_Get_ok [OF ok g(1)]
  have "same_obj h h' (Buf b)" "alive h' (Buf b)" 
    using leaves_alone_same [OF w(2), of "Buf b"] leaves_alone_alive [OF w(2), of "Buf b"] own CleanBuffer by simp_all
  with w CleanBuffer call own g show ?thesis by (auto simp: moved_def intro: leaves_alone_mono)
next
  case (GotWriter p b z)
  with run have r: "pc' = Aimed p b z" "h' = writer_Reset z b h" by auto
  have "gh_dests h' z = Some b" "content b h' = content b h"
    by (simp_all add: r writer_Reset_def content_def slice_read_def buffer_Bytes_def)
  with writer_Reset_ok(1-3) [OF ok, of z b] r GotWriter call own show ?thesis
    by (auto simp: moved_def intro: leaves_alone_mono dest: leaves_alone_bounds)
next
  case (Aimed p b z)
  with run call own show ?thesis
    by (auto intro!: writer_out_moved [OF ok, of _ b z] simp: gz_outcome_def split: option.splits sum.splits)
next
  case (Written p b z rest)
  with run call own show ?thesis by (auto intro!: writer_out_moved [OF ok, of _ b z] simp: gz_outcome_def split: sum.splits)
next
  case (Closed p b z)
  with run have r: "pc' = InFlight p b (buffer_Bytes b h)" "h' = gzipWriterPool_Put z h" by auto
  have "alive h (Zw z)" "Zw z \<notin> pooled h" "alive h (Buf b)" using own Closed by auto
  note w = gzipWriterPool_Put_ok [OF ok this(1,2)] leaves_alone_same [OF gzipWriterPool_Put_ok(2) [OF ok this(1,2)] this(3)]
  with r Closed call own show ?thesis by (auto simp: moved_def intro: leaves_alone_mono dest: leaves_alone_bounds)
next
  case (ClosingFailed p b z e)
  with run call own show ?thesis by (auto intro!: writer_out_moved [OF ok, of _ b z])
next
  case (PuttingWriter p b z e)
  with run have r: "pc' = ResettingBuffer p b e" "h' = gzipWriterPool_Put z h" by auto
  have "alive h (Zw z)" "Zw z \<notin> pooled h" using own PuttingWriter by auto
  with gzipWriterPool_Put_ok [OF ok this] r PuttingWriter call own show ?thesis
    by (auto simp: moved_def intro: leaves_alone_mono dest: leaves_alone_bounds)
next
  case (ResettingBuffer p b e)
  with run call own show ?thesis by (auto intro!: buffer_Reset_moved [OF ok])
next
  case (PuttingBuffer p b e)
  with run call own show ?thesis by (auto intro!: bufferPool_Put_moved [OF ok])
next
  case (InFlight p b sl)
  with run own show ?thesis by (auto intro!: buffer_Reset_moved [OF ok])
next
  case (Releasing p b sl)
  with run own show ?thesis by (auto intro!: bufferPool_Put_moved [OF ok])
next
  case (Returned p s)
  moreover have "same_obj h h x" for x by (cases x) simp_all
  ultimately show ?thesis using run ok call by (auto simp: moved_def leaves_alone_def)
qed

section \<open>The invariant\<close>

definition calls_ok :: "'w httpjson_env \<Rightarrow> gz_heap \<Rightarrow> gz_pc list \<Rightarrow> bool" where
  "calls_ok env h calls \<longleftrightarrow>
     heap_ok h \<and>
     (\<forall>i < length calls. call_ok env h (calls ! i) \<and> (\<forall>x \<in> owned (calls ! i). alive h x \<and> x \<notin> pooled h)) \<and>
     (\<forall>i < length calls. \<forall>j < length calls. i \<noteq> j \<longrightarrow> owned (calls ! i) \<inter> owned (calls ! j) = {})"

text \<open>A heap in which more objects are free of owners.\<close>

lemma calls_okD:
  assumes "calls_ok env h calls" and "i < length calls"
  shows "heap_ok h" and "call_ok env h (calls ! i)" and "x \<in> owned (calls ! i) \<Longrightarrow> alive h x" and "owned (calls ! i) \<inter> pooled h = {}"
    and "j < length calls \<Longrightarrow> i \<noteq> j \<Longrightarrow> owned (calls ! i) \<inter> owned (calls ! j) = {}"
  using assms unfolding calls_ok_def by blast+

lemma calls_ok_frame:
  assumes inv: "calls_ok env h calls" and h': "heap_ok h'" "leaves_alone {} h h'" "pooled h' \<subseteq> pooled h"
  shows "calls_ok env h' calls"
  unfolding calls_ok_def
proof (intro conjI allI impI ballI)
  fix i assume i: "i < length calls"
  note d = calls_okD [OF inv i]
  show "call_ok env h' (calls ! i)" by (rule call_ok_frame [OF d(2)]) (use leaves_alone_same [OF h'(2)] d(3) in blast)
  fix x assume x: "x \<in> owned (calls ! i)"
  show "alive h' x" using leaves_alone_alive [OF h'(2)] d(3) x by blast
  show "x \<notin> pooled h'" using d(4) x h'(3) by blast
qed (use h' calls_okD(5) [OF inv] in blast)+

text \<open>What a move of one call leaves to another one.\<close>

lemma moved_other:
  assumes m: "moved env pc h pc' h'" and c: "call_ok env h c" "\<And>x. x \<in> owned c \<Longrightarrow> alive h x" "owned c \<inter> pooled h = {}" "owned c \<inter> owned pc = {}"
  shows "call_ok env h' c" and "x \<in> owned c \<Longrightarrow> alive h' x" and "owned c \<inter> pooled h' = {}" and "owned c \<inter> owned pc' = {}"
proof -
  from m have l: "leaves_alone (owned pc) h h'" "owned pc' \<subseteq> owned pc \<union> pooled h \<union> {x. \<not> alive h x}" "pooled h' \<subseteq> pooled h \<union> owned pc"
    by (simp_all add: moved_def)
  show "call_ok env h' c" by (rule call_ok_frame [OF c(1)]) (use leaves_alone_same [OF l(1)] c in blast)
  show "x \<in> owned c \<Longrightarrow> alive h' x" using leaves_alone_alive [OF l(1)] c(2) by blast
  show "owned c \<inter> pooled h' = {}" "owned c \<inter> owned pc' = {}" using l(2,3) c(2-4) by blast+
qed

lemma calls_ok_move:
  assumes inv: "calls_ok env h calls" and i: "i < length calls" and run: "gz_move env ch (calls ! i) h = (pc, h')"
  shows "calls_ok env h' (calls[i := pc])"
proof -
  note d = calls_okD [OF inv i]
  have m: "moved env (calls ! i) h pc h'" using gz_move_moved [OF d(1,2) _ run] d(3,4) by blast
  have other: "call_ok env h' (calls ! j)" "x \<in> owned (calls ! j) \<Longrightarrow> alive h' x" "owned (calls ! j) \<inter> pooled h' = {}"
      "owned (calls ! j) \<inter> owned pc = {}" if j: "j < length calls" "j \<noteq> i" for j x
  proof -
    note c = calls_okD [OF inv j(1)]
    show "call_ok env h' (calls ! j)" "x \<in> owned (calls ! j) \<Longrightarrow> alive h' x" "owned (calls ! j) \<inter> pooled h' = {}"
      "owned (calls ! j) \<inter> owned pc = {}"
      using moved_other [OF m c(2,3,4) c(5) [OF i j(2)]] by blast+
  qed
  have this_call: "heap_ok h'" "call_ok env h' pc" "x \<in> owned pc \<Longrightarrow> alive h' x \<and> x \<notin> pooled h'" for x
    using m by (simp_all add: moved_def)
  show ?thesis
    unfolding calls_ok_def
  proof (intro conjI allI impI ballI)
    fix j assume j: "j < length (calls[i := pc])"
    show "call_ok env h' (calls[i := pc] ! j)" using other(1) this_call(2) i j by (cases "j = i") simp_all
    fix x assume "x \<in> owned (calls[i := pc] ! j)"
    then show "alive h' x" "x \<notin> pooled h'" using other(2) [of j x] other(3) [of j] this_call(3) i j by (cases "j = i"; auto)+
  next
    fix j k assume "j < length (calls[i := pc])" "k < length (calls[i := pc])" "j \<noteq> k"
    then show "owned (calls[i := pc] ! j) \<inter> owned (calls[i := pc] ! k) = {}"
      using other(4) [of j] other(4) [of k] calls_okD(5) [OF inv, of j k] by (cases "j = i"; cases "k = i") auto
  qed (rule this_call(1))
qed

lemma pool_reach_ok: "pool_reach late env s \<Longrightarrow> calls_ok env (gs_heap s) (gs_calls s)"
proof (induction rule: pool_reach.induct)
  case start
  show ?case by (simp add: calls_ok_def heap_ok_def empty_heap_def pooled_def)
next
  case (call s p)
  then show ?case by (auto simp: calls_ok_def nth_append less_Suc_eq)
next
  case (move s i ch pc h)
  then show ?case by (simp add: calls_ok_move)
next
  case (read s i p sl "from" n)
  then show ?case by simp
next
  case (collect_buffer s i)
  then have "heap_ok (gs_heap s)" by (simp add: calls_ok_def)
  from bufferPool_Get_ok [OF this prod.collapse [symmetric], of i] collect_buffer show ?case
    by (auto intro: calls_ok_frame)
next
  case (collect_writer s i)
  then have "heap_ok (gs_heap s)" by (simp add: calls_ok_def)
  from gzipWriterPool_Get_ok [OF this prod.collapse [symmetric], of i] collect_writer show ?case
    by (auto intro: calls_ok_frame)
qed

lemma content_InFlight: "call_ok env h (InFlight p b sl) \<Longrightarrow> gz_outcome env p = Inr (slice_read sl h)"
  by (simp add: content_def)

lemma wire_ok:
  "pool_reach late env s \<Longrightarrow> \<not> late \<Longrightarrow> (p, from, bs) \<in> set (gs_wire s) \<Longrightarrow>
     \<exists>z n. gz_outcome env p = Inr z \<and> bs = take n (drop from z)"
proof (induction rule: pool_reach.induct)
  case (read s i q sl k n)
  from read.hyps(3) read.prems(1) obtain b where "gs_calls s ! i = InFlight q b sl"
    by (cases "(late, gs_calls s ! i)" rule: readable.cases) auto
  with pool_reach_ok [OF read.hyps(1)] read.hyps(2) have "gz_outcome env q = Inr (slice_read sl (gs_heap s))"
    using calls_okD(2) content_InFlight by metis
  moreover from read.prems(2) have "(p, from, bs) \<in> set (gs_wire s) \<or> (p, from, bs) = (q, k, take n (drop k (slice_read sl (gs_heap s))))"
    by auto
  ultimately show ?case using read.IH read.prems(1) by blast
qed simp_all

section \<open>Properties\<close>

text \<open>
  C10: the pools are safe under concurrency: however the operations of any number of concurrent calls interleave, and
  whatever the pools hand out, no two calls hold the same buffer or the same gzip writer, nor one that lies in a
  pool; a call with a request under way has exactly the body, and a call that failed exactly the error, that
  \<open>gzipBytes\<close> gives when it runs alone; and as long as the transport does not read a body after \<open>Do\<close> has
  returned, every piece it reads is a piece of the compressed text of its own payload.
\<close>

theorem pooled_payloads:
  assumes "pool_reach late env s" and "i < length (gs_calls s)"
  shows "(\<forall>j < length (gs_calls s). j \<noteq> i \<longrightarrow> owned (gs_calls s ! i) \<inter> owned (gs_calls s ! j) = {}) \<and>
    owned (gs_calls s ! i) \<inter> pooled (gs_heap s) = {} \<and>
    (\<forall>p b sl. gs_calls s ! i = InFlight p b sl \<longrightarrow> snd (gzipBytes env k p pl) = Inr (slice_read sl (gs_heap s))) \<and>
    (\<forall>p e. gs_calls s ! i = Returned p (Inl e) \<longrightarrow> snd (gzipBytes env k p pl) = Inl e) \<and>
    (\<not> late \<longrightarrow> (\<forall>(p, from, bs) \<in> set (gs_wire s). \<exists>z n. snd (gzipBytes env k p pl) = Inr z \<and> bs = take n (drop from z)))"
proof -
  note d = calls_okD [OF pool_reach_ok [OF assms(1)] assms(2)]
  have flight: "gz_outcome env p = Inr (slice_read sl (gs_heap s))" if "gs_calls s ! i = InFlight p b sl" for p b sl
    using d(2) content_InFlight that by metis
  have failed: "gz_outcome env p = Inl e" if "gs_calls s ! i = Returned p (Inl e)" for p e
    using d(2) that by simp
  show ?thesis
    unfolding gzipBytes_outcome using d(4,5) flight failed wire_ok [OF assms(1)] by blast
qed

text \<open>A schedule: which call moves, with which choices.\<close>

fun gz_run :: "'w httpjson_env \<Rightarrow> (nat \<times> gz_choice) list \<Rightarrow> gz_sys \<Rightarrow> gz_sys" where
  "gz_run env [] s = s"
| "gz_run env ((i, ch) # sched) s =
     (case gz_move env ch (gs_calls s ! i) (gs_heap s) of
        (pc, h) \<Rightarrow> gz_run env sched (s\<lparr>gs_heap := h, gs_calls := (gs_calls s)[i := pc]\<rparr>))"

lemma gz_run_reach: "pool_reach late env s \<Longrightarrow> list_all (\<lambda>(i, ch). i < length (gs_calls s)) sched \<Longrightarrow> pool_reach late env (gz_run env sched s)"
proof (induction env sched s rule: gz_run.induct)
  case (2 env i ch sched s)
  obtain pc h where m: "gz_move env ch (gs_calls s ! i) (gs_heap s) = (pc, h)" by fastforce
  from 2 have "pool_reach late env (s\<lparr>gs_heap := h, gs_calls := (gs_calls s)[i := pc]\<rparr>)" by (auto intro: pool_reach.move [OF _ _ m])
  with 2 m show ?case by simp
qed simp

abbreviation pick_first :: gz_choice where
  "pick_first \<equiv> \<lparr>ch_pick = 0, ch_flush = 1, ch_junk = '''', ch_spare = ''''\<rparr>"

text \<open>Two calls, of which the second begins when the first has returned; both get the same buffer.\<close>

definition two_calls :: gz_sys where
  "two_calls =
     gz_run (plain_env (resp_of 200)) (replicate 9 (0, pick_first) @ replicate 7 (1, pick_first))
       \<lparr>gs_heap = empty_heap, gs_calls = [Calling ''old'', Calling ''new''], gs_wire = []\<rparr>"

lemma two_calls_reached: "pool_reach late (plain_env (resp_of 200)) two_calls"
proof -
  have "pool_reach late (plain_env (resp_of 200)) \<lparr>gs_heap = empty_heap, gs_calls = [Calling ''old'', Calling ''new''], gs_wire = []\<rparr>"
    using pool_reach.call [OF pool_reach.call [OF pool_reach.start], of late "plain_env (resp_of 200)" "''old''" "''new''"] by simp
  then show ?thesis unfolding two_calls_def by (rule gz_run_reach) (simp add: list_all_iff)
qed

lemma two_calls_state:
  "gs_calls two_calls = [Returned ''old'' (Inr (2, 3)), InFlight ''new'' 0 (2, 3)] \<and> gh_arrays (gs_heap two_calls) 2 = ''new''"
  by code_simp

theorem pooled_payloads_witness:
  "snd (gzipBytes (plain_env (resp_of 200)) 0 ''new'' (NewPool '''' None)) = Inr (slice_read (2, 3) (gs_heap two_calls))"
  using pooled_payloads [OF two_calls_reached [of False], of 1 0 "NewPool '''' None"] by (simp add: two_calls_state)

text \<open>
  without the assumption about the transport a request can carry the bytes of another one: \<open>Release\<close> gives the
  buffer back when \<open>doGzJSON\<close> returns, and the documentation of \<open>http.RoundTripper\<close> allows the transport to read and
  close the body after that (it does so when the server answers before it has read the request). The
  body of the first request is then the text of the second.
\<close>

theorem late_read_leaks:
  "\<exists>s. pool_reach True (plain_env (resp_of 200)) s \<and> (''old'', 0, ''new'') \<in> set (gs_wire s) \<and>
     gz_outcome (plain_env (resp_of 200)) ''old'' = Inr ''old''"
proof -
  have "readable True (gs_calls two_calls ! 0) = Some (''old'', (2, 3))" "0 < length (gs_calls two_calls)"
    by (simp_all add: two_calls_state)
  from pool_reach.read [OF two_calls_reached this(2,1), of 0 3] show ?thesis
    by (intro exI conjI) (assumption, simp_all add: two_calls_state slice_read_def gz_outcome_def)
qed

end
