(* ===== verification/Http_Handler.thy ===== *)
theory Http_Handler
  imports Metrics_Service
begin

text \<open>
  The HTTP endpoints of the server (\<open>internal/adapters/http/ginserver/handler.go\<close> and \<open>router.go\<close>).

  A handler is a step of the service's world that ends in one reply: the gin call it makes
  (\<open>c.String\<close>, \<open>c.Data\<close> or \<open>c.JSON\<close> with its arguments). What gin takes from the request (path parameters,
  the client address, the body) are arguments, as are \<open>strconv.ParseFloat\<close> and \<open>strconv.FormatFloat\<close>.

  \<open>encoding/json\<close> decodes into existing values: a member that is absent, or \<open>null\<close> for a string, leaves the
  field as it was, and the elements between the length and the capacity of a slice are not cleared
  before they are decoded into. The decoder argument therefore yields, per array element, the members it
  found (\<open>patch\<close>), and the error if there was one; unknown members and type mismatches are reported after
  the rest has been decoded, a syntax error before anything has.
\<close>

section \<open>Replies\<close>

datatype json_val = JMetrics Metrics | JUpdated nat | JSnapshot Snapshot

datatype reply =
    ReplyString nat string
  | ReplyData nat string string
  | ReplyJSON nat json_val
  | NilDereference

fun reply_code :: "reply \<Rightarrow> nat option" where
  "reply_code (ReplyString n s) = Some n"
| "reply_code (ReplyData n t b) = Some n"
| "reply_code (ReplyJSON n v) = Some n"
| "reply_code NilDereference = None"

definition httpError :: "go_error \<Rightarrow> reply" where
  "httpError err =
     (if errors_Is err ErrNotFound then ReplyString 404 ''not found''
      else if errors_Is err ErrInvalidType then ReplyString 400 ''bad request''
      else ReplyString 500 ''internal error'')"

section \<open>Decoding JSON metrics\<close>

datatype 'a member = Absent | Null | Is 'a

record patch =
  p_id :: "string member"
  p_type :: "string member"
  p_delta :: "int64 member"
  p_value :: "float64 member"

definition zero_metric :: Metrics where
  "zero_metric = \<lparr>Delta = None, Value = None, ID = '''', MType = ''''\<rparr>"

definition set_string :: "string member \<Rightarrow> string \<Rightarrow> string" where
  "set_string m old = (case m of Is s \<Rightarrow> s | _ \<Rightarrow> old)"

definition set_pointer :: "'a member \<Rightarrow> 'a option \<Rightarrow> 'a option" where
  "set_pointer m old = (case m of Absent \<Rightarrow> old | Null \<Rightarrow> None | Is v \<Rightarrow> Some v)"

definition decode_into :: "patch \<Rightarrow> Metrics \<Rightarrow> Metrics" where
  "decode_into p m =
     \<lparr>Delta = set_pointer (p_delta p) (Delta m), Value = set_pointer (p_value p) (Value m),
      ID = set_string (p_id p) (ID m), MType = set_string (p_type p) (MType m)\<rparr>"

text \<open>
  Array elements decoded into the backing array of a slice: element by element into what is there, and
  into zero values beyond the capacity.
\<close>

fun decode_slice :: "patch list \<Rightarrow> Metrics list \<Rightarrow> Metrics list" where
  "decode_slice [] backing = []"
| "decode_slice (p # ps) [] = decode_into p zero_metric # decode_slice ps []"
| "decode_slice (p # ps) (m # backing) = decode_into p m # decode_slice ps backing"

type_synonym batch_decoder = "string \<Rightarrow> patch list \<times> go_error option"

text \<open>
  \<open>decodeMetricsBatch\<close>: the pooled object is a slice of length 0 over a backing array. Without an error the
  result is the items and the slice that \<open>cleanup\<close> puts back, whose backing array now holds them (an empty
  array or \<open>null\<close> replaces the slice by one without a backing array); with an
  error the old slice goes back, whose array has been decoded into as far as it reaches.
\<close>

definition metricsBatchPool :: "Metrics list Pool" where
  "metricsBatchPool = \<lparr>pool_new = (\<lambda>_. replicate 256 zero_metric), pool_objs = []\<rparr>"

definition decodeMetricsBatch ::
  "batch_decoder \<Rightarrow> nat \<Rightarrow> string \<Rightarrow> Metrics list Pool \<Rightarrow> Metrics list Pool \<times> (go_error + Metrics list \<times> Metrics list)" where
  "decodeMetricsBatch dec i body pl =
     (let (pl1, buf) = Pool_Get i pl;
          (patches, err) = dec body;
          items = decode_slice patches buf
      in case err of
           Some e \<Rightarrow> (pl1\<lparr>pool_objs := pool_objs pl1 @ [take (length buf) items @ drop (length items) buf]\<rparr>, Inl e)
         | None \<Rightarrow> (pl1, Inr (items, if patches = [] then [] else items @ drop (length items) buf)))"

definition release :: "Metrics list \<Rightarrow> Metrics list Pool \<Rightarrow> Metrics list Pool" where
  "release backing pl = pl\<lparr>pool_objs := pool_objs pl @ [backing]\<rparr>"

definition cloneMetrics :: "Metrics list \<Rightarrow> Metrics list" where
  "cloneMetrics items = (if items = [] then [] else map (\<lambda>m. m) items)"

section \<open>The handlers\<close>

definition UpdateMetric ::
  "(string \<Rightarrow> float64 option) \<Rightarrow> ('r, 'w) Service \<Rightarrow> go_context \<Rightarrow> string \<Rightarrow> string \<Rightarrow> string \<Rightarrow> string \<Rightarrow>
   ('r, 'w) svc_world \<Rightarrow> ('r, 'w) svc_world \<times> reply" where
  "UpdateMetric ParseFloat s ctx ip metricType metricName metricValue w =
     (if TrimSpace metricName = '''' then (w, ReplyString 404 ''not found'')
      else
        (let m = (if metricType = Gauge then
                    map_option (\<lambda>val. \<lparr>Delta = None, Value = Some val, ID = metricName, MType = metricType\<rparr>) (ParseFloat metricValue)
                  else if metricType = Counter then
                    map_option (\<lambda>val. \<lparr>Delta = Some val, Value = None, ID = metricName, MType = metricType\<rparr>) (ParseInt metricValue)
                  else None)
         in case m of
              None \<Rightarrow> (w, ReplyString 400 ''bad request'')
            | Some m \<Rightarrow>
                (case svc_Upsert s (WithClientIP ctx ip) m w of
                   (w1, Inl err) \<Rightarrow> (w1, httpError err)
                 | (w1, Inr res) \<Rightarrow> (w1, ReplyData 200 ''text/plain; charset=utf-8'' ''ok''))))"

definition GetMetric ::
  "(float64 \<Rightarrow> string) \<Rightarrow> ('r, 'w) Service \<Rightarrow> go_context \<Rightarrow> string \<Rightarrow> string \<Rightarrow> ('r, 'w) svc_world \<Rightarrow> ('r, 'w) svc_world \<times> reply" where
  "GetMetric FormatFloat s ctx metricType metricName w =
     (case svc_Get s ctx metricType metricName w of
        (w1, Inl err) \<Rightarrow> (w1, httpError err)
      | (w1, Inr res) \<Rightarrow>
          (w1, if metricType = Gauge then
                 (case Value res of Some v \<Rightarrow> ReplyData 200 ''text/plain; charset=utf-8'' (FormatFloat v) | None \<Rightarrow> NilDereference)
               else if metricType = Counter then
                 (case Delta res of Some d \<Rightarrow> ReplyData 200 ''text/plain; charset=utf-8'' (FormatInt d) | None \<Rightarrow> NilDereference)
               else ReplyString 400 ''bad request''))"

definition html_row :: "string \<Rightarrow> string \<Rightarrow> string" where
  "html_row k v = ''<tr><td>'' @ k @ ''</td><td>'' @ v @ ''</td></tr>''"

definition index_page :: "(float64 \<Rightarrow> string) \<Rightarrow> Snapshot \<Rightarrow> string" where
  "index_page FormatFloat snap =
     ''<!doctype html><html><head><meta charset='' @ [CHR 0x27] @ ''utf-8'' @ [CHR 0x27] @ ''><title>metrics</title>'' @
     ''<style>body{font-family:system-ui,Arial,sans-serif}table{border-collapse:collapse}td,th{border:1px solid #ddd;padding:6px 10px}</style>'' @
     ''</head><body>'' @ ''<h1>Metrics</h1>'' @
     ''<h2>Gauge</h2><table><tr><th>Name</th><th>Value</th></tr>'' @
     concat (map (\<lambda>(k, v). html_row k (FormatFloat v)) (Gauges snap)) @ ''</table>'' @
     ''<h2>Counter</h2><table><tr><th>Name</th><th>Value</th></tr>'' @
     concat (map (\<lambda>(k, v). html_row k (FormatInt v)) (Counters snap)) @ ''</table>'' @
     ''</body></html>''"

definition Index ::
  "(float64 \<Rightarrow> string) \<Rightarrow> ('r, 'w) Service \<Rightarrow> go_context \<Rightarrow> ('r, 'w) svc_world \<Rightarrow> ('r, 'w) svc_world \<times> reply" where
  "Index FormatFloat s ctx w =
     (case svc_Snapshot s ctx w of
        (w1, Inl err) \<Rightarrow> (w1, httpError err)
      | (w1, Inr snap) \<Rightarrow> (w1, ReplyData 200 ''text/html; charset=utf-8'' (index_page FormatFloat snap)))"

text \<open>\<open>c.ShouldBindJSON(&m)\<close> into a zero value.\<close>

definition bind_metric :: "(string \<Rightarrow> patch \<times> go_error option) \<Rightarrow> string \<Rightarrow> Metrics option" where
  "bind_metric dec1 body =
     (let (p, err) = dec1 body; m = decode_into p zero_metric
      in if err \<noteq> None \<or> TrimSpace (ID m) = '''' then None else Some m)"

definition UpdateMetricJSON ::
  "(string \<Rightarrow> patch \<times> go_error option) \<Rightarrow> ('r, 'w) Service \<Rightarrow> go_context \<Rightarrow> string \<Rightarrow> string \<Rightarrow>
   ('r, 'w) svc_world \<Rightarrow> ('r, 'w) svc_world \<times> reply" where
  "UpdateMetricJSON dec1 s ctx ip body w =
     (case bind_metric dec1 body of
        None \<Rightarrow> (w, ReplyString 400 ''bad request'')
      | Some m \<Rightarrow>
          (case svc_Upsert s (WithClientIP ctx ip) m w of
             (w1, Inl err) \<Rightarrow> (w1, httpError err)
           | (w1, Inr res) \<Rightarrow> (w1, ReplyJSON 200 (JMetrics res))))"

definition GetMetricJSON ::
  "(string \<Rightarrow> patch \<times> go_error option) \<Rightarrow> ('r, 'w) Service \<Rightarrow> go_context \<Rightarrow> string \<Rightarrow>
   ('r, 'w) svc_world \<Rightarrow> ('r, 'w) svc_world \<times> reply" where
  "GetMetricJSON dec1 s ctx body w =
     (case bind_metric dec1 body of
        None \<Rightarrow> (w, ReplyString 400 ''bad request'')
      | Some q \<Rightarrow>
          (case svc_Get s ctx (MType q) (ID q) w of
             (w1, Inl err) \<Rightarrow> (w1, httpError err)
           | (w1, Inr res) \<Rightarrow> (w1, ReplyJSON 200 (JMetrics res))))"

definition UpdateMetricsBatchJSON ::
  "batch_decoder \<Rightarrow> nat \<Rightarrow> ('r, 'w) Service \<Rightarrow> go_context \<Rightarrow> string \<Rightarrow> string \<Rightarrow>
   Metrics list Pool \<times> ('r, 'w) svc_world \<Rightarrow> (Metrics list Pool \<times> ('r, 'w) svc_world) \<times> reply" where
  "UpdateMetricsBatchJSON dec i s ctx ip body st =
     (let (pl, w) = st in
      case decodeMetricsBatch dec i body pl of
        (pl1, Inl err) \<Rightarrow> ((pl1, w), ReplyString 400 ''bad request'')
      | (pl1, Inr (items, backing)) \<Rightarrow>
          (case svc_UpsertBatch s (WithClientIP ctx ip) (cloneMetrics items) w of
             (w1, Inl err) \<Rightarrow> ((release backing pl1, w1), httpError err)
           | (w1, Inr updated) \<Rightarrow> ((release backing pl1, w1), ReplyJSON 200 (JUpdated updated))))"

definition Ping ::
  "(go_error \<Rightarrow> string) \<Rightarrow> ('r, 'w) Service \<Rightarrow> go_context \<Rightarrow> ('r, 'w) svc_world \<Rightarrow> ('r, 'w) svc_world \<times> reply" where
  "Ping err_text s ctx w =
     (case svc_Ping s ctx w of
        (w1, Some err) \<Rightarrow> (w1, ReplyString 500 (''db ping error: '' @ err_text err))
      | (w1, None) \<Rightarrow> (w1, ReplyString 200 ''ok''))"

definition SnapshotJSON :: "('r, 'w) Service \<Rightarrow> go_context \<Rightarrow> ('r, 'w) svc_world \<Rightarrow> ('r, 'w) svc_world \<times> reply" where
  "SnapshotJSON s ctx w =
     (case svc_Snapshot s ctx w of
        (w1, Inl err) \<Rightarrow> (w1, httpError err)
      | (w1, Inr snap) \<Rightarrow> (w1, ReplyJSON 200 (JSnapshot snap)))"

section \<open>The router\<close>

datatype handler_name =
    HPing | HUpdateMetric | HGetMetric | HSnapshotJSON | HIndex | HUpdateMetricJSON | HGetMetricJSON | HUpdateMetricsBatchJSON

text \<open>The routes in the order of their registration; the middlewares of \<open>main.go\<close> wrap each of them.\<close>

definition NewRouter :: "(string \<times> string \<times> handler_name) list" where
  "NewRouter =
     [(''GET'', ''/ping'', HPing),
      (''POST'', ''/update/:type/:name/:value'', HUpdateMetric),
      (''GET'', ''/value/:type/:name'', HGetMetric),
      (''GET'', ''/api/v1/snapshot'', HSnapshotJSON),
      (''GET'', ''/'', HIndex),
      (''POST'', ''/update'', HUpdateMetricJSON), (''POST'', ''/update/'', HUpdateMetricJSON),
      (''POST'', ''/value'', HGetMetricJSON), (''POST'', ''/value/'', HGetMetricJSON),
      (''POST'', ''/updates'', HUpdateMetricsBatchJSON), (''POST'', ''/updates/'', HUpdateMetricsBatchJSON)]"

section \<open>Facts\<close>

lemma cloneMetrics_id [simp]: "cloneMetrics items = items"
  by (simp add: cloneMetrics_def)

lemma httpError_code: "reply_code (httpError e) \<noteq> Some 200"
  by (simp add: httpError_def)

lemma svc_Get_memory:
  assumes "svc_repo s = memory_repo" and "TrimSpace n \<noteq> ''''"
  shows "svc_Get s c Counter n w =
      (w, case mem_counter_of (w_repo w) (TrimSpace n) of
            None \<Rightarrow> Inl ErrNotFound
          | Some d \<Rightarrow> Inr (counter_metric (TrimSpace n) d))"
    and "svc_Get s c Gauge n w =
      (w, case mem_gauge_of (w_repo w) (TrimSpace n) of
            None \<Rightarrow> Inl ErrNotFound
          | Some v \<Rightarrow> Inr (gauge_metric (TrimSpace n) v))"
  using assms
  by (simp_all add: svc_Get_def mem_op_defs mem_counter_of_def mem_gauge_of_def counter_metric_def gauge_metric_def Let_def
        split: option.split)

lemma Upsert_memory_run:
  assumes "svc_repo s = memory_repo" and "TrimSpace (ID m) \<noteq> ''''"
    and "MType m = Gauge \<and> Value m \<noteq> None \<or> MType m = Counter \<and> Delta m \<noteq> None"
  shows "\<exists>w' x. svc_Upsert s c m w = (w', Inr x)"
  using assms by (auto simp: svc_Upsert_def upsert_finish_def svc_Get_def mem_op_defs Let_def)

lemma UpdateMetric_memory_status:
  assumes "svc_repo s = memory_repo" and "mem_inv (w_repo w)" and "UpdateMetric ParseFloat s ctx ip t n v w = (w', r)"
  shows "reply_code r =
      Some (if TrimSpace n = '''' then 404
            else if t = Gauge \<and> ParseFloat v \<noteq> None \<or> t = Counter \<and> ParseInt v \<noteq> None then 200 else 400) \<and>
    (reply_code r \<noteq> Some 200 \<longrightarrow> w' = w) \<and> mem_inv (w_repo w')"
proof (cases "TrimSpace n \<noteq> '''' \<and> (t = Gauge \<and> ParseFloat v \<noteq> None \<or> t = Counter \<and> ParseInt v \<noteq> None)")
  case False
  with assms show ?thesis by (auto simp: UpdateMetric_def split: if_splits option.splits)
next
  case True
  then obtain m where m: "UpdateMetric ParseFloat s ctx ip t n v w =
      (case svc_Upsert s (WithClientIP ctx ip) m w of
         (w1, Inl err) \<Rightarrow> (w1, httpError err)
       | (w1, Inr res) \<Rightarrow> (w1, ReplyData 200 ''text/plain; charset=utf-8'' ''ok''))"
    and id: "ID m = n" and ty: "MType m = Gauge \<and> Value m \<noteq> None \<or> MType m = Counter \<and> Delta m \<noteq> None"
    by (fastforce simp: UpdateMetric_def)
  from Upsert_memory_run [OF assms(1) _ ty] id True obtain w1 x where
    run: "svc_Upsert s (WithClientIP ctx ip) m w = (w1, Inr x)" by blast
  have "mem_inv (w_repo w1)"
    using ty mem.Upsert_gauge [OF assms(1,2) _ run] mem.Upsert_counter [OF assms(1,2) _ run] by auto
  with m run assms(3) True show ?thesis by auto
qed

lemma GetMetric_memory_status:
  assumes "svc_repo s = memory_repo"
  shows "fst (GetMetric FormatFloat s ctx t n w) = w \<and>
    reply_code (snd (GetMetric FormatFloat s ctx t n w)) =
      Some (if TrimSpace n = '''' then 404
            else if t = Gauge then (if TrimSpace n \<in> dom (mem_gauge_of (w_repo w)) then 200 else 404)
            else if t = Counter then (if TrimSpace n \<in> dom (mem_counter_of (w_repo w)) then 200 else 404)
            else 400)"
proof (cases "TrimSpace n = '''' \<or> t \<noteq> Gauge \<and> t \<noteq> Counter")
  case True
  then show ?thesis by (auto simp: GetMetric_def svc_Get_def httpError_def)
next
  case False
  with svc_Get_memory [OF assms, of n ctx w] show ?thesis
    by (auto simp: GetMetric_def httpError_def counter_metric_def gauge_metric_def split: option.split)
qed

section \<open>Properties\<close>

text \<open>
  C22: over the in-memory repository, \<open>POST /update/counter/n/v\<close> followed by \<open>GET /value/counter/n\<close> answers 200
  with the decimal text of the old total plus \<open>v\<close>, and \<open>POST /update/gauge/n/v\<close> followed by
  \<open>GET /value/gauge/n\<close> answers 200 with the formatted value: what was written is what is read, for every
  name that is not blank and every number that parses.
\<close>

theorem update_then_value:
  assumes s: "svc_repo s = memory_repo" and i: "mem_inv (w_repo w)" and n: "TrimSpace n \<noteq> ''''"
    and d: "ParseInt v = Some d" and f: "ParseFloat v' = Some x"
  shows "(\<exists>w1. UpdateMetric ParseFloat s ctx ip Counter n v w = (w1, ReplyData 200 ''text/plain; charset=utf-8'' ''ok'') \<and>
      GetMetric FormatFloat s ctx' Counter n w1 =
        (w1, ReplyData 200 ''text/plain; charset=utf-8'' (FormatInt (counter_or_zero (mem_counter_of (w_repo w) (TrimSpace n)) + d)))) \<and>
    (\<exists>w2. UpdateMetric ParseFloat s ctx ip Gauge n v' w = (w2, ReplyData 200 ''text/plain; charset=utf-8'' ''ok'') \<and>
      GetMetric FormatFloat s ctx' Gauge n w2 = (w2, ReplyData 200 ''text/plain; charset=utf-8'' (FormatFloat x)))"
proof
  let ?m = "\<lparr>Delta = Some d, Value = None, ID = n, MType = Counter\<rparr>"
  obtain w1 y where run: "svc_Upsert s (WithClientIP ctx ip) ?m w = (w1, Inr y)"
    using Upsert_memory_run [OF s, of ?m "WithClientIP ctx ip" w] n by auto
  from mem.Upsert_counter [OF s i _ run] have "mem_counter_of (w_repo w1) (TrimSpace n) =
      Some (counter_or_zero (mem_counter_of (w_repo w) (TrimSpace n)) + d)" by auto
  with run n d s show "\<exists>w1. UpdateMetric ParseFloat s ctx ip Counter n v w = (w1, ReplyData 200 ''text/plain; charset=utf-8'' ''ok'') \<and>
      GetMetric FormatFloat s ctx' Counter n w1 =
        (w1, ReplyData 200 ''text/plain; charset=utf-8'' (FormatInt (counter_or_zero (mem_counter_of (w_repo w) (TrimSpace n)) + d)))"
    by (simp add: UpdateMetric_def GetMetric_def svc_Get_memory)
next
  let ?m = "\<lparr>Delta = None, Value = Some x, ID = n, MType = Gauge\<rparr>"
  obtain w1 y where run: "svc_Upsert s (WithClientIP ctx ip) ?m w = (w1, Inr y)"
    using Upsert_memory_run [OF s, of ?m "WithClientIP ctx ip" w] n by auto
  from mem.Upsert_gauge [OF s i _ run] have "mem_gauge_of (w_repo w1) (TrimSpace n) = Some x" by auto
  with run n f s show "\<exists>w2. UpdateMetric ParseFloat s ctx ip Gauge n v' w = (w2, ReplyData 200 ''text/plain; charset=utf-8'' ''ok'') \<and>
      GetMetric FormatFloat s ctx' Gauge n w2 = (w2, ReplyData 200 ''text/plain; charset=utf-8'' (FormatFloat x))"
    by (simp add: UpdateMetric_def GetMetric_def svc_Get_memory)
qed

theorem update_then_value_witness:
  "\<exists>w1. UpdateMetric (\<lambda>s. Some 1) (svc_of memory_repo) Background ''::1'' Counter ''c'' ''7'' (world_of mem_New) =
       (w1, ReplyData 200 ''text/plain; charset=utf-8'' ''ok'') \<and>
     GetMetric (\<lambda>x. ''1'') (svc_of memory_repo) Background Counter ''c'' w1 = (w1, ReplyData 200 ''text/plain; charset=utf-8'' ''7'')"
proof -
  have "ParseInt ''7'' = Some 7" by (simp add: ParseInt_def is_digit_def Let_def)
  moreover have "FormatInt 7 = ''7''" by code_simp
  ultimately show ?thesis
    using update_then_value [of "svc_of memory_repo" "world_of mem_New" "''c''" "''7''" 7 "\<lambda>s. Some 1" "''1''" 1 Background "''::1''"
        "\<lambda>x. ''1''" Background]
    by simp
qed

text \<open>
  C26: the statuses of the two path routes over the in-memory repository: \<open>POST /update/t/n/v\<close> answers 404 for a
  blank name, 400 for an unknown type or a value that does not parse, and 200 otherwise, never 500, and an answer other
  than 200 means that the request changed nothing. \<open>GET /value/t/n\<close> answers 404 for a blank name and for a metric of
  that type that is not stored, 400 for an unknown type, and 200 otherwise, and never changes anything.
\<close>

theorem path_routes_status:
  assumes "svc_repo s = memory_repo" and "mem_inv (w_repo w)" and "UpdateMetric ParseFloat s ctx ip t n v w = (w', r)"
  shows "reply_code r =
      Some (if TrimSpace n = '''' then 404
            else if t = Gauge \<and> ParseFloat v \<noteq> None \<or> t = Counter \<and> ParseInt v \<noteq> None then 200 else 400) \<and>
    (reply_code r \<noteq> Some 200 \<longrightarrow> w' = w) \<and> mem_inv (w_repo w') \<and>
    fst (GetMetric FormatFloat s ctx t n w) = w \<and>
    reply_code (snd (GetMetric FormatFloat s ctx t n w)) =
      Some (if TrimSpace n = '''' then 404
            else if t = Gauge then (if TrimSpace n \<in> dom (mem_gauge_of (w_repo w)) then 200 else 404)
            else if t = Counter then (if TrimSpace n \<in> dom (mem_counter_of (w_repo w)) then 200 else 404)
            else 400)"
  using UpdateMetric_memory_status [OF assms] GetMetric_memory_status [OF assms(1), of FormatFloat ctx t n w] by blast

theorem path_routes_status_witness:
  "\<exists>w' r. UpdateMetric (\<lambda>s. None) (svc_of memory_repo) Background ''::1'' Gauge ''m'' ''x'' (world_of mem_New) = (w', r) \<and>
     reply_code r = Some 400 \<and> w' = world_of mem_New \<and>
     reply_code (snd (GetMetric (\<lambda>x. '''') (svc_of memory_repo) Background Gauge ''m'' (world_of mem_New))) = Some 404"
proof -
  obtain w' r where run: "UpdateMetric (\<lambda>s. None) (svc_of memory_repo) Background ''::1'' Gauge ''m'' ''x'' (world_of mem_New) = (w', r)"
    by fastforce
  have "mem_gauge_of (w_repo (world_of mem_New)) (TrimSpace ''m'') = None" by (simp add: mem_abs_defs mem_New_def)
  moreover have "TrimSpace ''m'' \<noteq> ''''" by (simp add: TrimSpace_def space_seqs_def trim_seqs.simps)
  ultimately show ?thesis
    using path_routes_status [OF _ _ run, of "\<lambda>x. ''''"] run by (auto simp: domIff)
qed

text \<open>
  no \<open>GET /value\<close> request makes the server dereference a nil pointer, whatever the repository does.
\<close>

theorem GetMetric_no_panic: "snd (GetMetric FormatFloat s ctx t n w) \<noteq> NilDereference"
  by (auto simp: GetMetric_def svc_Get_def httpError_def Let_def split: prod.splits sum.splits option.splits if_splits)

lemma Contains_row: "x \<in> set xs \<Longrightarrow> Contains (a @ concat (map g xs) @ b) (g x)"
proof -
  assume "x \<in> set xs"
  then obtain ys zs where "xs = ys @ x # zs" by (meson split_list)
  then have "a @ concat (map g xs) @ b = (a @ concat (map g ys)) @ g x @ (concat (map g zs) @ b)" by simp
  then show ?thesis unfolding Contains_iff by blast
qed

lemma index_page_rows:
  "(k, v) \<in> set (Gauges snap) \<Longrightarrow> Contains (index_page ff snap) (html_row k (ff v))"
  "(k, d) \<in> set (Counters snap) \<Longrightarrow> Contains (index_page ff snap) (html_row k (FormatInt d))"
proof -
  obtain a b where g: "index_page ff snap = a @ concat (map (\<lambda>(k, v). html_row k (ff v)) (Gauges snap)) @ b"
    unfolding index_page_def by (metis append.assoc)
  obtain a' b' where c: "index_page ff snap = a' @ concat (map (\<lambda>(k, v). html_row k (FormatInt v)) (Counters snap)) @ b'"
    unfolding index_page_def by (metis append.assoc)
  show "(k, v) \<in> set (Gauges snap) \<Longrightarrow> Contains (index_page ff snap) (html_row k (ff v))"
    unfolding g using Contains_row [of "(k, v)" "Gauges snap" a "\<lambda>(k, v). html_row k (ff v)" b] by simp
  show "(k, d) \<in> set (Counters snap) \<Longrightarrow> Contains (index_page ff snap) (html_row k (FormatInt d))"
    unfolding c using Contains_row [of "(k, d)" "Counters snap" a' "\<lambda>(k, v). html_row k (FormatInt v)" b'] by simp
qed

text \<open>
  the dashboard over the in-memory repository has a row for every stored gauge and every stored counter,
  in which the name stands as the client sent it (trimmed), without HTML escaping.
\<close>

theorem Index_rows:
  assumes "svc_repo s = memory_repo" and "mem_inv (w_repo w)"
    and "mem_gauge_of (w_repo w) k = Some v" and "mem_counter_of (w_repo w) k' = Some d"
  shows "\<exists>page. Index FormatFloat s ctx w = (w, ReplyData 200 ''text/html; charset=utf-8'' page) \<and>
    Contains page (''<tr><td>'' @ k @ ''</td><td>'' @ FormatFloat v @ ''</td></tr>'') \<and>
    Contains page (''<tr><td>'' @ k' @ ''</td><td>'' @ FormatInt d @ ''</td></tr>'')"
proof -
  let ?snap = "\<lparr>Gauges = maps_Copy [] (gauges (w_repo w)), Counters = maps_Copy [] (counters (w_repo w))\<rparr>"
  have "gm_wf (gauges (w_repo w))" "gm_wf (counters (w_repo w))" using assms(2) by (simp_all add: mem_inv_def)
  from maps_Copy_empty [OF this(1)] maps_Copy_empty [OF this(2)] assms(3,4)
  have "map_of (Gauges ?snap) k = Some v" "map_of (Counters ?snap) k' = Some d"
    by (simp_all add: mem_gauge_of_def mem_counter_of_def)
  then have "(k, v) \<in> set (Gauges ?snap)" "(k', d) \<in> set (Counters ?snap)" by (auto dest: map_of_SomeD)
  from index_page_rows(1) [OF this(1), of FormatFloat] index_page_rows(2) [OF this(2), of FormatFloat] assms(1) show ?thesis
    unfolding html_row_def by (simp add: Index_def svc_Snapshot_def mem_Snapshot_def)
qed

theorem Index_rows_witness:
  "\<exists>page. Index (\<lambda>x. ''1'') (svc_of memory_repo) Background (world_of \<lparr>gauges = [(''<script>'', 1)], counters = [(''c'', 2)]\<rparr>) =
       (world_of \<lparr>gauges = [(''<script>'', 1)], counters = [(''c'', 2)]\<rparr>, ReplyData 200 ''text/html; charset=utf-8'' page) \<and>
     Contains page ''<tr><td><script></td><td>1</td></tr>''"
  using Index_rows [of "svc_of memory_repo" "world_of \<lparr>gauges = [(''<script>'', 1)], counters = [(''c'', 2)]\<rparr>" "''<script>''" 1 "''c''" 2
      "\<lambda>x. ''1''" Background]
  by (auto simp: mem_abs_defs)

section \<open>The pooled decoding buffer\<close>

text \<open>
  Two metrics that the repository treats alike: the field that does not belong to the type may differ.
\<close>

definition same_effect :: "Metrics \<Rightarrow> Metrics \<Rightarrow> bool" where
  "same_effect m m' \<longleftrightarrow> ID m = ID m' \<and> MType m = MType m' \<and>
     (MType m = Gauge \<longrightarrow> Value m = Value m') \<and> (MType m = Counter \<longrightarrow> Delta m = Delta m')"

text \<open>An array element that brings its name, its type, and the member of its type.\<close>

definition self_contained :: "patch \<Rightarrow> bool" where
  "self_contained p \<longleftrightarrow>
     (case p_id p of Is i \<Rightarrow> True | _ \<Rightarrow> False) \<and>
     (case p_type p of Is t \<Rightarrow> (t = Gauge \<longrightarrow> p_value p \<noteq> Absent) \<and> (t = Counter \<longrightarrow> p_delta p \<noteq> Absent) | _ \<Rightarrow> False)"

lemma decode_into_effect: "self_contained p \<Longrightarrow> same_effect (decode_into p m) (decode_into p m')"
  by (auto simp: self_contained_def same_effect_def decode_into_def set_string_def set_pointer_def split: member.splits)

lemma decode_slice_effect:
  "list_all self_contained ps \<Longrightarrow> list_all2 same_effect (decode_slice ps backing) (decode_slice ps backing')"
proof (induction ps arbitrary: backing backing')
  case Nil
  show ?case by simp
next
  case (Cons p ps)
  then show ?case by (cases backing; cases backing') (auto simp: decode_into_effect)
qed

lemma valid_item_effect:
  assumes "same_effect m m'"
  shows "rel_option same_effect (valid_item m) (valid_item m')"
  using assms by (auto simp: valid_item_def same_effect_def)

lemma valid_items_effect: "list_all2 same_effect ms ms' \<Longrightarrow> list_all2 same_effect (valid_items ms) (valid_items ms')"
proof (induction rule: list_all2_induct)
  case Nil
  show ?case by simp
next
  case (Cons m ms m' ms')
  from valid_item_effect [OF Cons.hyps(1)] Cons.IH show ?case
    by (cases "valid_item m"; cases "valid_item m'") auto
qed

lemma mem_update_loop_effect: "list_all2 same_effect ms ms' \<Longrightarrow> mem_update_loop ms r = mem_update_loop ms' r"
proof (induction arbitrary: r rule: list_all2_induct)
  case Nil
  show ?case by simp
next
  case (Cons m ms m' ms')
  then show ?case by (auto simp: same_effect_def split: option.split)
qed

lemma UpsertBatch_effect:
  assumes "svc_repo s = memory_repo" and "list_all2 same_effect ms ms'"
  shows "svc_UpsertBatch s c ms w = svc_UpsertBatch s c ms' w"
proof -
  note v = valid_items_effect [OF assms(2)]
  have "map ID (valid_items ms) = map ID (valid_items ms')"
    using v by (induction rule: list_all2_induct) (auto simp: same_effect_def)
  moreover have "length (valid_items ms) = length (valid_items ms')" using v by (rule list_all2_lengthD)
  ultimately show ?thesis
    using mem_update_loop_effect [OF v] assms(1) by (auto simp: svc_UpsertBatch_def batch_loop_valid mem_UpdateMany_def)
qed

text \<open>
  C34: a batch whose elements each bring their name, their type and the member of that type is handled the
  same whatever buffer the pool hands out: neither the answer nor the stored metrics depend on what
  earlier requests left in it.
\<close>

theorem batch_isolated:
  assumes "svc_repo s = memory_repo" and "list_all self_contained (fst (dec body))"
  shows "case UpdateMetricsBatchJSON dec i s ctx ip body (pl, w) of ((pl1, w1), r1) \<Rightarrow>
         case UpdateMetricsBatchJSON dec j s ctx ip body (metricsBatchPool, w) of ((pl2, w2), r2) \<Rightarrow> w1 = w2 \<and> r1 = r2"
proof -
  obtain ps err where d: "dec body = (ps, err)" by fastforce
  obtain pl1 b1 where g1: "Pool_Get i pl = (pl1, b1)" by fastforce
  obtain pl2 b2 where g2: "Pool_Get j metricsBatchPool = (pl2, b2)" by fastforce
  from assms(2) d have "svc_UpsertBatch s (WithClientIP ctx ip) (decode_slice ps b1) w =
      svc_UpsertBatch s (WithClientIP ctx ip) (decode_slice ps b2) w"
    by (intro UpsertBatch_effect [OF assms(1)] decode_slice_effect) simp
  with d g1 g2 show ?thesis
    by (cases err; cases "svc_UpsertBatch s (WithClientIP ctx ip) (decode_slice ps b2) w"; cases "snd (svc_UpsertBatch s (WithClientIP ctx ip) (decode_slice ps b2) w)")
       (auto simp: UpdateMetricsBatchJSON_def decodeMetricsBatch_def Let_def)
qed

abbreviation counter_patch :: "string \<Rightarrow> int64 member \<Rightarrow> patch" where
  "counter_patch n d \<equiv> \<lparr>p_id = Is n, p_type = Is Counter, p_delta = d, p_value = Absent\<rparr>"

theorem batch_isolated_witness:
  "snd (UpdateMetricsBatchJSON (\<lambda>b. ([counter_patch ''c'' (Is 3)], None)) 0 (svc_of memory_repo) Background ''::1'' ''[]''
        (metricsBatchPool\<lparr>pool_objs := [[gauge_metric ''m'' 9]]\<rparr>, world_of mem_New)) =
   snd (UpdateMetricsBatchJSON (\<lambda>b. ([counter_patch ''c'' (Is 3)], None)) 0 (svc_of memory_repo) Background ''::1'' ''[]''
        (metricsBatchPool, world_of mem_New))"
  using batch_isolated [where s = "svc_of memory_repo" and dec = "\<lambda>b. ([counter_patch ''c'' (Is 3)], None)" and body = "''[]''" and
      i = 0 and j = 0 and ctx = Background and ip = "''::1''" and pl = "metricsBatchPool\<lparr>pool_objs := [[gauge_metric ''m'' 9]]\<rparr>" and
      w = "world_of mem_New"]
  by (simp add: self_contained_def split_beta)

text \<open>
  an element without its \<open>delta\<close> takes over the one an earlier request left in the pooled buffer: the
  request \<open>[{"id": b, "type": "counter"}]\<close> is refused with 400 on a fresh buffer, but after a request that
  counted \<open>d\<close> at the same position it is accepted and adds \<open>d\<close> to \<open>b\<close>.
\<close>

theorem batch_stale_delta:
  assumes s: "svc_repo s = memory_repo" and i: "mem_inv (w_repo w)"
    and d1: "dec b1 = ([counter_patch a (Is d)], None)" and d2: "dec b2 = ([counter_patch b Absent], None)"
    and names: "TrimSpace a \<noteq> ''''" "TrimSpace b \<noteq> ''''"
  shows "\<exists>pl1 w1 pl2 w2.
    UpdateMetricsBatchJSON dec 0 s ctx ip b1 (metricsBatchPool, w) = ((pl1, w1), ReplyJSON 200 (JUpdated 1)) \<and>
    UpdateMetricsBatchJSON dec 0 s ctx ip b2 (pl1, w1) = ((pl2, w2), ReplyJSON 200 (JUpdated 1)) \<and>
    mem_counter_of (w_repo w2) (TrimSpace b) = Some (counter_or_zero (mem_counter_of (w_repo w1) (TrimSpace b)) + d) \<and>
    snd (UpdateMetricsBatchJSON dec 0 s ctx ip b2 (metricsBatchPool, w1)) = ReplyString 400 ''bad request''"
proof -
  let ?c = "WithClientIP ctx ip"
  have v: "valid_items [counter_metric n d] = [counter_metric (TrimSpace n) d]" if "TrimSpace n \<noteq> ''''" for n d
    using that by (simp add: valid_item_def counter_metric_def)
  have into: "decode_into (counter_patch n (Is x)) zero_metric = counter_metric n x"
      "decode_into (counter_patch n Absent) (counter_metric m x) = counter_metric n x" for n m x
    by (simp_all add: decode_into_def zero_metric_def counter_metric_def set_pointer_def set_string_def)
  obtain zs where rep: "replicate 256 zero_metric = zero_metric # zs" by (simp add: numeral_eq_Suc)
  obtain w1 where r1: "svc_UpsertBatch s ?c [counter_metric a d] w = (w1, Inr 1)" "mem_inv (w_repo w1)"
    using mem.UpsertBatch_applies [OF s i, of "[counter_metric a d]" ?c] v [OF names(1)] by auto
  obtain w2 where r2: "svc_UpsertBatch s ?c [counter_metric b d] w1 = (w2, Inr 1)"
      "mem_counter_of (w_repo w2) = spec_counters [counter_metric (TrimSpace b) d] (mem_counter_of (w_repo w1))"
    using mem.UpsertBatch_applies [OF s r1(2), of "[counter_metric b d]" ?c] v [OF names(2)] by auto
  have bad: "svc_UpsertBatch s ?c [decode_into (counter_patch b Absent) zero_metric] w1 = (w1, Inl ErrInvalidType)"
    by (simp add: svc_UpsertBatch_def batch_loop_valid valid_item_def decode_into_def zero_metric_def set_pointer_def set_string_def)
  show ?thesis
    using r1 r2 bad
    by (simp add: UpdateMetricsBatchJSON_def decodeMetricsBatch_def Pool_Get_def metricsBatchPool_def release_def d1 d2 rep into httpError_def)
qed

theorem batch_stale_delta_witness:
  "\<exists>pl1 w1 pl2 w2.
    UpdateMetricsBatchJSON (\<lambda>b. ([counter_patch ''c'' (if b = ''1'' then Is 5 else Absent)], None)) 0 (svc_of memory_repo) Background ''::1''
      ''1'' (metricsBatchPool, world_of mem_New) = ((pl1, w1), ReplyJSON 200 (JUpdated 1)) \<and>
    UpdateMetricsBatchJSON (\<lambda>b. ([counter_patch ''c'' (if b = ''1'' then Is 5 else Absent)], None)) 0 (svc_of memory_repo) Background ''::1''
      ''2'' (pl1, w1) = ((pl2, w2), ReplyJSON 200 (JUpdated 1))"
  using batch_stale_delta [of "svc_of memory_repo" "world_of mem_New"
      "\<lambda>b. ([counter_patch ''c'' (if b = ''1'' then Is 5 else Absent)], None)" "''1''" "''c''" 5 "''2''" "''c''" Background "''::1''"]
  by auto

end
