(* ===== verification/Middleware.thy ===== *)
theory Middleware
  imports Misc
begin

text \<open>
  The HTTP middlewares of the server (\<open>internal/adapters/http/ginserver/middlewares\<close>) and the chain that
  \<open>cmd/server/main.go\<close> builds from them.

  No handler or middleware reads back what it wrote, except the content type and the status, which are
  determined by the calls made before. So what a handler does to its \<open>gin.ResponseWriter\<close> is the list of
  calls it makes (\<open>wcall\<close>), and a middleware turns the list of what runs behind it (\<open>c.Next()\<close>) into the list
  of calls on its own writer. \<open>sent\<close> is what a list of calls puts on the wire: headers and status are frozen
  by the first write.

  A request body is the outcome of reading it. \<open>compress/gzip\<close>, \<open>crypto/sha256\<close> and gin's rendering of an
  aborted request are arguments.
\<close>

section \<open>Writer calls\<close>

datatype wcall = WSetHeader string string | WDelHeader string | WWriteHeader nat | WWrite string

record wstate =
  ws_status :: nat
  ws_headers :: "string gomap"
  ws_written :: bool
  ws_body :: string

fun wstep :: "wstate \<Rightarrow> wcall \<Rightarrow> wstate" where
  "wstep s (WSetHeader k v) = (if ws_written s then s else s\<lparr>ws_headers := gm_set k v (ws_headers s)\<rparr>)"
| "wstep s (WDelHeader k) = (if ws_written s then s else s\<lparr>ws_headers := AList.delete k (ws_headers s)\<rparr>)"
| "wstep s (WWriteHeader n) = (if ws_written s then s else s\<lparr>ws_status := n\<rparr>)"
| "wstep s (WWrite b) = s\<lparr>ws_written := True, ws_body := ws_body s @ b\<rparr>"

text \<open>The initial status is 200, and 404 or 405 on the paths that match no route.\<close>

definition wstart :: "nat \<Rightarrow> wstate" where
  "wstart st0 = \<lparr>ws_status = st0, ws_headers = [], ws_written = False, ws_body = ''''\<rparr>"

definition sent :: "nat \<Rightarrow> wcall list \<Rightarrow> wstate" where
  "sent st0 calls = foldl wstep (wstart st0) calls"

section \<open>Requests\<close>

record mw_request =
  mq_method :: string
  mq_uri :: string
  mq_headers :: "string gomap"
  mq_body :: "go_error + string"

definition GetHeader :: "mw_request \<Rightarrow> string \<Rightarrow> string" where
  "GetHeader r k = (case map_of (mq_headers r) k of Some v \<Rightarrow> v | None \<Rightarrow> '''')"

type_synonym rest_chain = "mw_request \<Rightarrow> wcall list"

section \<open>gin_gzip.go\<close>

definition gzipReadCloser_Close :: "go_error option \<Rightarrow> go_error option option \<Rightarrow> go_error option" where
  "gzipReadCloser_Close gzErr rawClose =
     (case gzErr of Some e \<Rightarrow> Some e | None \<Rightarrow> (case rawClose of Some r \<Rightarrow> r | None \<Rightarrow> None))"

text \<open>
  \<open>NewReader\<close> is \<open>gzip.NewReader\<close> on the raw body: an error, or the outcome of reading the decompressed
  stream.
\<close>

definition GzipRequest ::
  "(go_error + string \<Rightarrow> go_error + (go_error + string)) \<Rightarrow> (nat \<Rightarrow> wcall list) \<Rightarrow> mw_request \<Rightarrow> rest_chain \<Rightarrow> wcall list" where
  "GzipRequest NewReader abortStatus r nxt =
     (if Contains (ToLower (GetHeader r ''Content-Encoding'')) ''gzip'' then
        (case NewReader (mq_body r) of
           Inl err \<Rightarrow> abortStatus 400
         | Inr body \<Rightarrow> nxt (r\<lparr>mq_body := body, mq_headers := AList.delete ''Content-Length'' (mq_headers r)\<rparr>))
      else nxt r)"

text \<open>
  \<open>gzipResponseWriter\<close>: \<open>gw_inner\<close> is what has reached the wrapped writer, \<open>gw_calls\<close> the calls made on it so
  far, \<open>gw_data\<close> the bytes handed to the compressor (\<open>None\<close> when \<open>gzw\<close> is nil).
\<close>

record gzipResponseWriter =
  gw_inner :: wstate
  gw_calls :: "wcall list"
  gw_data :: "string option"
  gw_decided :: bool
  gw_acceptGzip :: bool

definition gw_emit :: "wcall \<Rightarrow> gzipResponseWriter \<Rightarrow> gzipResponseWriter" where
  "gw_emit x g = g\<lparr>gw_inner := wstep (gw_inner g) x, gw_calls := gw_calls g @ [x]\<rparr>"

definition decide :: "gzipResponseWriter \<Rightarrow> gzipResponseWriter" where
  "decide g =
     (if gw_decided g then g
      else
        (let g1 = g\<lparr>gw_decided := True\<rparr>;
             ct = (case map_of (ws_headers (gw_inner g)) ''Content-Type'' of Some v \<Rightarrow> v | None \<Rightarrow> '''');
             status = ws_status (gw_inner g)
         in if \<not> gw_acceptGzip g then g1
            else if \<not> HasPrefix ct ''application/json'' \<and> \<not> HasPrefix ct ''text/html'' then g1
            else if status = 204 \<or> status < 200 then g1
            else (gw_emit (WSetHeader ''Content-Encoding'' ''gzip'') (gw_emit (WDelHeader ''Content-Length'') g1))\<lparr>gw_data := Some ''''\<rparr>))"

text \<open>
  The compressor is two arguments: the header it writes at its first \<open>Write\<close>, and the rest, which has
  reached the wrapped writer when \<open>Close\<close> returns.
\<close>

fun gw_call :: "string \<Rightarrow> gzipResponseWriter \<Rightarrow> wcall \<Rightarrow> gzipResponseWriter" where
  "gw_call gzHead g (WWrite p) =
     (let g1 = (if gw_decided g then g else decide g)
      in case gw_data g1 of
           Some d \<Rightarrow> (if gw_decided g then g1 else gw_emit (WWrite gzHead) g1)\<lparr>gw_data := Some (d @ p)\<rparr>
         | None \<Rightarrow> gw_emit (WWrite p) g1)"
| "gw_call gzHead g x = gw_emit x g"

definition gw_Close :: "(string \<Rightarrow> string) \<Rightarrow> gzipResponseWriter \<Rightarrow> wcall list" where
  "gw_Close gzTail g = (case gw_data g of Some d \<Rightarrow> gw_calls g @ [WWrite (gzTail d)] | None \<Rightarrow> gw_calls g)"

definition GzipResponse :: "string \<Rightarrow> (string \<Rightarrow> string) \<Rightarrow> nat \<Rightarrow> mw_request \<Rightarrow> rest_chain \<Rightarrow> wcall list" where
  "GzipResponse gzHead gzTail st0 r nxt =
     (if \<not> Contains (ToLower (GetHeader r ''Accept-Encoding'')) ''gzip'' then nxt r
      else gw_Close gzTail (foldl (gw_call gzHead)
             \<lparr>gw_inner = wstart st0, gw_calls = [], gw_data = None, gw_decided = False, gw_acceptGzip = True\<rparr> (nxt r)))"

section \<open>hashsha256.go\<close>

text \<open>
  \<open>bodyBufferWriter\<close>: the status (0 until set) and the buffered body; header calls go to the wrapped writer.
\<close>

record bodyBufferWriter =
  bw_status :: nat
  bw_body :: string
  bw_through :: "wcall list"

fun bw_call :: "bodyBufferWriter \<Rightarrow> wcall \<Rightarrow> bodyBufferWriter" where
  "bw_call b (WWrite p) = b\<lparr>bw_status := (if bw_status b = 0 then 200 else bw_status b), bw_body := bw_body b @ p\<rparr>"
| "bw_call b (WWriteHeader code) = b\<lparr>bw_status := code\<rparr>"
| "bw_call b x = b\<lparr>bw_through := bw_through b @ [x]\<rparr>"

definition bw_new :: bodyBufferWriter where
  "bw_new = \<lparr>bw_status = 0, bw_body = '''', bw_through = []\<rparr>"

text \<open>What the middleware does after the chain has run: checksum header, status, body.\<close>

definition bw_finish :: "(string \<Rightarrow> string) \<Rightarrow> string \<Rightarrow> bodyBufferWriter \<Rightarrow> wcall list" where
  "bw_finish sha256 key b =
     bw_through b @
     (if length (bw_body b) > 0 then [WSetHeader ''HashSHA256'' (SumSHA256 sha256 (bw_body b) key)] else []) @
     [WWriteHeader (if bw_status b = 0 then 200 else bw_status b), WWrite (bw_body b)]"

definition hash_check ::
  "(string \<Rightarrow> string) \<Rightarrow> (nat \<Rightarrow> string \<Rightarrow> wcall list) \<Rightarrow> string \<Rightarrow> mw_request \<Rightarrow> wcall list + mw_request" where
  "hash_check sha256 abortJSON key r =
     (let got = TrimSpace (GetHeader r ''HashSHA256'') in
      if got \<noteq> '''' then
        (case mq_body r of
           Inl err \<Rightarrow> Inl (abortJSON 400 ''read body failed'')
         | Inr reqBody \<Rightarrow>
             (let r' = r\<lparr>mq_body := Inr reqBody\<rparr> in
              if length reqBody > 0 \<and> \<not> EqualFold got (SumSHA256 sha256 reqBody key)
              then Inl (abortJSON 400 ''invalid hash'') else Inr r'))
      else Inr r)"

definition HashSHA256 ::
  "(string \<Rightarrow> string) \<Rightarrow> (nat \<Rightarrow> string \<Rightarrow> wcall list) \<Rightarrow> string \<Rightarrow> mw_request \<Rightarrow> rest_chain \<Rightarrow> wcall list" where
  "HashSHA256 sha256 abortJSON key0 r nxt =
     (let key = TrimSpace key0 in
      if key = '''' then nxt r
      else
        (let calls = (case hash_check sha256 abortJSON key r of Inl aborted \<Rightarrow> aborted | Inr r' \<Rightarrow> nxt r')
         in bw_finish sha256 key (foldl bw_call bw_new calls)))"

section \<open>zap_logger.go\<close>

record log_entry =
  le_method :: string
  le_uri :: string
  le_status :: nat
  le_size :: nat

definition ZapLogger :: "nat \<Rightarrow> mw_request \<Rightarrow> rest_chain \<Rightarrow> wcall list \<times> log_entry" where
  "ZapLogger st0 r nxt =
     (let calls = nxt r; s = sent st0 calls
      in (calls, \<lparr>le_method = mq_method r, le_uri = mq_uri r, le_status = ws_status s, le_size = length (ws_body s)\<rparr>))"

section \<open>The chain of the server\<close>

record mw_env =
  me_sha256 :: "string \<Rightarrow> string"
  me_gzHead :: string
  me_gzTail :: "string \<Rightarrow> string"
  me_NewReader :: "go_error + string \<Rightarrow> go_error + (go_error + string)"
  me_abortStatus :: "nat \<Rightarrow> wcall list"
  me_abortJSON :: "nat \<Rightarrow> string \<Rightarrow> wcall list"

definition server_chain :: "mw_env \<Rightarrow> string \<Rightarrow> nat \<Rightarrow> mw_request \<Rightarrow> rest_chain \<Rightarrow> wcall list \<times> log_entry" where
  "server_chain me key st0 r handler =
     ZapLogger st0 r (\<lambda>r1.
       GzipRequest (me_NewReader me) (me_abortStatus me) r1 (\<lambda>r2.
         GzipResponse (me_gzHead me) (me_gzTail me) st0 r2 (\<lambda>r3.
           HashSHA256 (me_sha256 me) (me_abortJSON me) key r3 handler)))"

section \<open>Facts about the wire\<close>

lemma sent_snoc: "sent st0 (calls @ [x]) = wstep (sent st0 calls) x"
  by (simp add: sent_def)

lemma sent_append: "sent st0 (xs @ ys) = foldl wstep (sent st0 xs) ys"
  by (simp add: sent_def)

definition wbody :: "wcall list \<Rightarrow> string" where
  "wbody calls = concat (map (\<lambda>x. case x of WWrite b \<Rightarrow> b | _ \<Rightarrow> []) calls)"

lemma wbody_simps [simp]:
  "wbody [] = []" "wbody (xs @ ys) = wbody xs @ wbody ys" "wbody (WWrite b # xs) = b @ wbody xs"
  "wbody (WSetHeader k v # xs) = wbody xs" "wbody (WDelHeader k # xs) = wbody xs" "wbody (WWriteHeader n # xs) = wbody xs"
  by (simp_all add: wbody_def)

lemma foldl_wstep_body: "ws_body (foldl wstep s calls) = ws_body s @ wbody calls"
proof (induction calls arbitrary: s)
  case Nil
  show ?case by simp
next
  case (Cons x calls)
  then show ?case by (cases x) auto
qed

lemma sent_body: "ws_body (sent st0 calls) = wbody calls"
  by (simp add: sent_def foldl_wstep_body wstart_def)

section \<open>Facts about the buffer\<close>

text \<open>The header calls of a list, in order; no write among them.\<close>

fun is_header_call :: "wcall \<Rightarrow> bool" where
  "is_header_call (WSetHeader k v) = True"
| "is_header_call (WDelHeader k) = True"
| "is_header_call _ = False"

lemma foldl_bw_call:
  "bw_body (foldl bw_call b calls) = bw_body b @ wbody calls"
  "bw_through (foldl bw_call b calls) = bw_through b @ filter is_header_call calls"
proof (induction calls arbitrary: b)
  case (Cons x calls)
  {
    case 1
    then show ?case using Cons by (cases x) auto
  next
    case 2
    then show ?case using Cons by (cases x) auto
  }
qed simp_all

lemma wbody_header_calls [simp]: "wbody (filter is_header_call calls) = []"
proof (induction calls)
  case (Cons x calls)
  then show ?case by (cases x) auto
qed simp

lemma header_calls_status: "list_all is_header_call calls \<Longrightarrow> ws_status (foldl wstep s calls) = ws_status s \<and> ws_written (foldl wstep s calls) = ws_written s"
proof (induction calls arbitrary: s)
  case (Cons x calls)
  then show ?case by (cases x) auto
qed simp

lemma list_all_header_filter [simp]: "list_all is_header_call (filter is_header_call calls)"
  by (simp add: list_all_iff)

lemma bw_finish_body: "wbody (bw_finish h key (foldl bw_call bw_new calls)) = wbody calls"
  by (simp add: bw_finish_def foldl_bw_call bw_new_def)

text \<open>The status a list of calls leaves in the buffering writer.\<close>

definition final_status :: "wcall list \<Rightarrow> nat" where
  "final_status calls = bw_status (foldl bw_call bw_new calls)"

text \<open>What the client gets from the buffered response: the final status, the body, and the checksum of the body.\<close>

lemma sent_bw_finish:
  assumes "calls' = bw_finish h key (foldl bw_call bw_new calls)"
  shows "ws_status (sent st0 calls') = (if final_status calls = 0 then 200 else final_status calls)"
    and "ws_body (sent st0 calls') = wbody calls"
    and "wbody calls \<noteq> '''' \<Longrightarrow> map_of (ws_headers (sent st0 calls')) ''HashSHA256'' = Some (SumSHA256 h (wbody calls) key)"
proof -
  let ?hs = "filter is_header_call calls"
  define s where "s = foldl wstep (wstart st0) ?hs"
  have s: "ws_status s = st0" "\<not> ws_written s"
    using header_calls_status [OF list_all_header_filter, of "wstart st0" calls] by (simp_all add: s_def wstart_def)
  have calls': "calls' = ?hs @ (if length (wbody calls) > 0 then [WSetHeader ''HashSHA256'' (SumSHA256 h (wbody calls) key)] else []) @
      [WWriteHeader (if final_status calls = 0 then 200 else final_status calls), WWrite (wbody calls)]"
    by (simp add: assms bw_finish_def foldl_bw_call final_status_def bw_new_def)
  show "ws_status (sent st0 calls') = (if final_status calls = 0 then 200 else final_status calls)"
    and "wbody calls \<noteq> '''' \<Longrightarrow> map_of (ws_headers (sent st0 calls')) ''HashSHA256'' = Some (SumSHA256 h (wbody calls) key)"
    using s(2) by (simp_all add: calls' sent_def s_def [symmetric])
  show "ws_body (sent st0 calls') = wbody calls" by (simp add: sent_body calls')
qed

section \<open>Facts about compression\<close>

definition compressible :: "wstate \<Rightarrow> bool" where
  "compressible s \<longleftrightarrow>
     (let ct = (case map_of (ws_headers s) ''Content-Type'' of Some v \<Rightarrow> v | None \<Rightarrow> '''')
      in (HasPrefix ct ''application/json'' \<or> HasPrefix ct ''text/html'') \<and> ws_status s \<noteq> 204 \<and> 200 \<le> ws_status s)"

text \<open>The headers of a compressed response: those of the handler, less the length and with the coding.\<close>

definition gzip_headers :: "(string \<rightharpoonup> string) \<Rightarrow> (string \<rightharpoonup> string)" where
  "gzip_headers hs = hs(''Content-Length'' := None, ''Content-Encoding'' \<mapsto> ''gzip'')"

text \<open>
  The compressing writer after some calls, against what these calls alone would have sent: nothing
  written yet; passing everything through; or compressing.
\<close>

definition gw_rel :: "string \<Rightarrow> nat \<Rightarrow> wcall list \<Rightarrow> gzipResponseWriter \<Rightarrow> bool" where
  "gw_rel gzHead st0 calls g \<longleftrightarrow>
     gw_acceptGzip g \<and> gw_inner g = sent st0 (gw_calls g) \<and> gw_decided g = ws_written (sent st0 calls) \<and>
     (case gw_data g of
        None \<Rightarrow> gw_calls g = calls \<and> (gw_decided g \<longrightarrow> \<not> compressible (sent st0 calls))
      | Some d \<Rightarrow> gw_decided g \<and> d = ws_body (sent st0 calls) \<and> compressible (sent st0 calls) \<and>
          ws_written (gw_inner g) \<and> ws_status (gw_inner g) = ws_status (sent st0 calls) \<and> ws_body (gw_inner g) = gzHead \<and>
          map_of (ws_headers (gw_inner g)) = gzip_headers (map_of (ws_headers (sent st0 calls))))"

lemma wstep_frozen:
  assumes "ws_written s"
  shows "ws_written (wstep s x)" and "ws_status (wstep s x) = ws_status s" and "ws_headers (wstep s x) = ws_headers s"
  using assms by (cases x; simp)+

lemma wstep_unwritten: "\<not> ws_written s \<Longrightarrow> ws_written (wstep s x) = (case x of WWrite b \<Rightarrow> True | _ \<Rightarrow> False)"
  by (cases x) auto

lemma unwritten_body: "\<not> ws_written (sent st0 calls) \<Longrightarrow> ws_body (sent st0 calls) = ''''"
proof (induction calls rule: rev_induct)
  case Nil
  show ?case by (simp add: sent_def wstart_def)
next
  case (snoc x calls)
  then show ?case
    by (cases x; cases "ws_written (sent st0 calls)") (auto simp: sent_snoc)
qed

lemma compressible_frozen: "ws_headers s' = ws_headers s \<Longrightarrow> ws_status s' = ws_status s \<Longrightarrow> compressible s' = compressible s"
  by (simp add: compressible_def)

lemma compressible_body [simp]: "compressible (s\<lparr>ws_written := a, ws_body := b\<rparr>) = compressible s"
  by (simp add: compressible_def)

lemma gw_emit_sel [simp]:
  "gw_inner (gw_emit x g) = wstep (gw_inner g) x" "gw_calls (gw_emit x g) = gw_calls g @ [x]" "gw_data (gw_emit x g) = gw_data g"
  "gw_decided (gw_emit x g) = gw_decided g" "gw_acceptGzip (gw_emit x g) = gw_acceptGzip g"
  by (simp_all add: gw_emit_def)

lemma decide_cases:
  assumes "\<not> gw_decided g" and "gw_acceptGzip g" and "gw_data g = None" and "gw_inner g = sent st0 (gw_calls g)"
    and "\<not> ws_written (gw_inner g)"
  shows "gw_decided (decide g) \<and> gw_acceptGzip (decide g) \<and> gw_inner (decide g) = sent st0 (gw_calls (decide g)) \<and>
    ws_status (gw_inner (decide g)) = ws_status (gw_inner g) \<and> ws_body (gw_inner (decide g)) = ws_body (gw_inner g) \<and>
    (if compressible (gw_inner g)
     then gw_data (decide g) = Some '''' \<and> map_of (ws_headers (gw_inner (decide g))) = gzip_headers (map_of (ws_headers (gw_inner g)))
     else gw_data (decide g) = None \<and> gw_calls (decide g) = gw_calls g)"
  using assms by (auto simp: decide_def compressible_def Let_def sent_snoc sent_append gzip_headers_def update_conv' delete_conv')

lemma gw_call_rel:
  assumes "gw_rel gzHead st0 calls g"
  shows "gw_rel gzHead st0 (calls @ [x]) (gw_call gzHead g x)"
proof (cases "gw_decided g")
  case True
  let ?s = "sent st0 calls"
  from assms True have w: "ws_written ?s" by (simp add: gw_rel_def)
  note frozen = wstep_frozen [OF w] compressible_frozen [OF wstep_frozen(3,2) [OF w]]
  show ?thesis
  proof (cases "gw_data g")
    case None
    with True assms have "gw_call gzHead g x = gw_emit x g" by (cases x) auto
    with None True assms frozen show ?thesis by (simp add: gw_rel_def sent_snoc)
  next
    case (Some d)
    with assms have g: "ws_written (gw_inner g)" "gw_inner g = sent st0 (gw_calls g)" by (auto simp: gw_rel_def)
    note inner = wstep_frozen [OF g(1)]
    from Some True assms frozen inner w g show ?thesis
      by (cases x) (auto simp: gw_rel_def sent_snoc)
  qed
next
  case False
  let ?s = "sent st0 calls"
  from assms False have w: "\<not> ws_written ?s" and none: "gw_data g = None" and same: "gw_calls g = calls" "gw_inner g = ?s"
      "gw_acceptGzip g"
    by (auto simp: gw_rel_def split: option.splits)
  show ?thesis
  proof (cases "\<exists>p. x = WWrite p")
    case False
    with w none same \<open>\<not> gw_decided g\<close> show ?thesis
      by (cases x) (auto simp: gw_rel_def sent_snoc)
  next
    case True
    then obtain p where x: "x = WWrite p" by blast
    have comp: "compressible (wstep ?s (WWrite p)) = compressible ?s" by (rule compressible_frozen) simp_all
    have "gw_inner g = sent st0 (gw_calls g)" "\<not> ws_written (gw_inner g)" using same w by simp_all
    from decide_cases [OF False same(3) none this] same w unwritten_body [OF w] comp False x show ?thesis
      by (cases "compressible ?s") (auto simp: gw_rel_def sent_snoc Let_def)
  qed
qed

lemma gw_run_rel:
  "gw_rel gzHead st0 calls (foldl (gw_call gzHead)
     \<lparr>gw_inner = wstart st0, gw_calls = [], gw_data = None, gw_decided = False, gw_acceptGzip = True\<rparr> calls)"
proof (induction calls rule: rev_induct)
  case Nil
  show ?case by (simp add: gw_rel_def sent_def wstart_def)
next
  case (snoc x calls)
  then show ?case by (simp add: gw_call_rel)
qed

lemma GzipResponse_sent:
  "let s = sent st0 (nxt r); s' = sent st0 (GzipResponse gzHead gzTail st0 r nxt)
   in ws_status s' = ws_status s \<and>
      (if Contains (ToLower (GetHeader r ''Accept-Encoding'')) ''gzip'' \<and> ws_written s \<and> compressible s
       then ws_body s' = gzHead @ gzTail (ws_body s) \<and> map_of (ws_headers s') = gzip_headers (map_of (ws_headers s))
       else s' = s)"
proof (cases "Contains (ToLower (GetHeader r ''Accept-Encoding'')) ''gzip''")
  case False
  then show ?thesis by (simp add: GzipResponse_def)
next
  case True
  define g where "g = foldl (gw_call gzHead)
      \<lparr>gw_inner = wstart st0, gw_calls = [], gw_data = None, gw_decided = False, gw_acceptGzip = True\<rparr> (nxt r)"
  have rel: "gw_rel gzHead st0 (nxt r) g" unfolding g_def by (rule gw_run_rel)
  have out: "GzipResponse gzHead gzTail st0 r nxt = gw_Close gzTail g" using True by (simp add: GzipResponse_def g_def)
  show ?thesis
  proof (cases "gw_data g")
    case None
    with rel True show ?thesis by (auto simp: out gw_Close_def gw_rel_def)
  next
    case (Some d)
    with rel have inner: "ws_status (sent st0 (gw_calls g)) = ws_status (sent st0 (nxt r))" "ws_body (sent st0 (gw_calls g)) = gzHead"
        "map_of (ws_headers (sent st0 (gw_calls g))) = gzip_headers (map_of (ws_headers (sent st0 (nxt r))))"
      and plain: "d = ws_body (sent st0 (nxt r))" "compressible (sent st0 (nxt r))" "ws_written (sent st0 (nxt r))"
      by (auto simp: gw_rel_def)
    from Some have "GzipResponse gzHead gzTail st0 r nxt = gw_calls g @ [WWrite (gzTail d)]" by (simp add: out gw_Close_def)
    with inner plain True show ?thesis by (simp add: sent_snoc Let_def)
  qed
qed

section \<open>Properties\<close>

text \<open>
  C21: compression changes nothing but the coding of the body: the client sees the same status, and either
  exactly the response the handler produced, or, if it accepts gzip and the handler wrote a JSON or HTML
  response whose status allows a body, that response with the body compressed as a whole,
  \<open>Content-Encoding: gzip\<close> set, no \<open>Content-Length\<close>, and every other header (the content type, the checksum) as the
  handler left it.
\<close>

theorem GzipResponse_transparent:
  "let s = sent st0 (nxt r); s' = sent st0 (GzipResponse gzHead gzTail st0 r nxt)
   in ws_status s' = ws_status s \<and>
      (if Contains (ToLower (GetHeader r ''Accept-Encoding'')) ''gzip'' \<and> ws_written s \<and> compressible s
       then ws_body s' = gzHead @ gzTail (ws_body s) \<and>
         map_of (ws_headers s') ''Content-Encoding'' = Some ''gzip'' \<and> map_of (ws_headers s') ''Content-Length'' = None \<and>
         (\<forall>k. k = ''Content-Encoding'' \<or> k = ''Content-Length'' \<or> map_of (ws_headers s') k = map_of (ws_headers s) k)
       else s' = s)"
  using GzipResponse_sent [of st0 nxt r gzHead gzTail] by (auto simp: Let_def gzip_headers_def)

text \<open>
  with a key configured, a request that carries a \<open>HashSHA256\<close> header reaches the handlers exactly when
  its body is empty or the header equals (up to case) the checksum of body and key; otherwise the handlers
  do not run and the answer is the 400 of the middleware. A request without the header is not checked.
\<close>

theorem HashSHA256_verifies:
  assumes "TrimSpace key \<noteq> ''''" and "mq_body r = Inr body"
  shows "HashSHA256 sha256 abortJSON key r nxt =
    bw_finish sha256 (TrimSpace key) (foldl bw_call bw_new
      (if TrimSpace (GetHeader r ''HashSHA256'') = '''' \<or> body = '''' \<or>
          EqualFold (TrimSpace (GetHeader r ''HashSHA256'')) (SumSHA256 sha256 body (TrimSpace key))
       then nxt r else abortJSON 400 ''invalid hash''))"
proof -
  have same: "r\<lparr>mq_body := Inr body\<rparr> = r" using assms(2) by (cases r) simp
  show ?thesis unfolding HashSHA256_def hash_check_def Let_def assms(2) sum.case same using assms(1) by simp
qed

abbreviation post_request :: "string \<Rightarrow> string gomap \<Rightarrow> mw_request" where
  "post_request body hdrs \<equiv> \<lparr>mq_method = ''POST'', mq_uri = ''/updates'', mq_headers = hdrs, mq_body = Inr body\<rparr>"

lemma TrimSpace_k: "TrimSpace ''k'' = ''k''" "TrimSpace ''bad'' = ''bad''"
  by (simp_all add: TrimSpace_def space_seqs_def trim_seqs.simps)

theorem HashSHA256_verifies_witness:
  "HashSHA256 (\<lambda>s. s) (\<lambda>n m. [WWriteHeader n, WWrite m]) ''k'' (post_request ''b'' [(''HashSHA256'', ''bad'')]) (\<lambda>r. [WWrite ''ok'']) =
     bw_finish (\<lambda>s. s) ''k'' (foldl bw_call bw_new [WWriteHeader 400, WWrite ''invalid hash''])"
  using HashSHA256_verifies [of "''k''" "post_request ''b'' [(''HashSHA256'', ''bad'')]" "''b''" "\<lambda>s. s"
      "\<lambda>n m. [WWriteHeader n, WWrite m]" "\<lambda>r. [WWrite ''ok'']"]
  by (simp add: TrimSpace_k GetHeader_def SumSHA256_def hex_EncodeToString_def EqualFold_def)

text \<open>
  with a key configured every answer with a body carries the checksum of that body and key, and status
  and body are the handler's.
\<close>

theorem HashSHA256_signs:
  assumes "TrimSpace key \<noteq> ''''" and "hash_check sha256 abortJSON (TrimSpace key) r = Inr r'"
  shows "ws_body (sent st0 (HashSHA256 sha256 abortJSON key r nxt)) = wbody (nxt r') \<and>
    ws_status (sent st0 (HashSHA256 sha256 abortJSON key r nxt)) = (if final_status (nxt r') = 0 then 200 else final_status (nxt r')) \<and>
    (wbody (nxt r') \<noteq> '''' \<longrightarrow>
       map_of (ws_headers (sent st0 (HashSHA256 sha256 abortJSON key r nxt))) ''HashSHA256'' =
         Some (SumSHA256 sha256 (wbody (nxt r')) (TrimSpace key)))"
proof -
  have "HashSHA256 sha256 abortJSON key r nxt = bw_finish sha256 (TrimSpace key) (foldl bw_call bw_new (nxt r'))"
    using assms by (simp add: HashSHA256_def)
  from sent_bw_finish [OF this, of st0] show ?thesis by blast
qed

theorem HashSHA256_signs_witness:
  "map_of (ws_headers (sent 200 (HashSHA256 (\<lambda>s. s) (\<lambda>n m. []) ''k'' (post_request '''' []) (\<lambda>r. [WWrite ''ok''])))) ''HashSHA256'' =
     Some (SumSHA256 (\<lambda>s. s) ''ok'' ''k'')"
  using HashSHA256_signs [of "''k''" "\<lambda>s. s" "\<lambda>n m. []" "post_request '''' []" "post_request '''' []" 200 "\<lambda>r. [WWrite ''ok'']"]
  by (simp add: TrimSpace_k hash_check_def GetHeader_def)

text \<open>
  with a key configured a request that matches no route is answered 200: no handler writes anything, and
  the middleware turns the status that nobody set into 200, overriding the initial 404. Without a key the
  404 stays.
\<close>

theorem unmatched_route_status:
  assumes "TrimSpace key \<noteq> ''''" and "GetHeader r ''HashSHA256'' = ''''" and "TrimSpace nokey = ''''"
  shows "ws_status (sent 404 (HashSHA256 sha256 abortJSON key r (\<lambda>r. []))) = 200 \<and>
         ws_status (sent 404 (HashSHA256 sha256 abortJSON nokey r (\<lambda>r. []))) = 404"
  using assms by (simp add: HashSHA256_def hash_check_def bw_finish_def bw_new_def sent_def wstart_def)

theorem unmatched_route_status_witness:
  "ws_status (sent 404 (HashSHA256 (\<lambda>s. s) (\<lambda>n m. []) ''k'' (post_request ''x'' []) (\<lambda>r. []))) = 200"
  using unmatched_route_status [of "''k''" "post_request ''x'' []" "''''" "\<lambda>s. s" "\<lambda>n m. []"]
  by (simp add: TrimSpace_k GetHeader_def)

end
