(* ===== verification/Server_Main.thy ===== *)
theory Server_Main
  imports Server Http_Handler Middleware
begin

text \<open>
  The server as a program (\<open>cmd/server/main.go\<close>): the routes of \<open>router.go\<close> connected to the handlers, the life of
  the process as a list of events, and \<open>run\<close> and \<open>main\<close> around it.

  Which route a request matches is gin's decision: \<open>hv_match\<close> makes it from the table of routes. An event is a
  request as the middlewares hand it on, a turn of the audit dispatcher or a tick of the periodic save. The run
  keeps the list of the metrics asked for by all updates that were answered with status 200; \<open>asked\<close> reads them off
  the request alone, not through the handlers. One event is finished before the next begins: requests that overlap are
  the subject of \<open>Concurrent_Updates\<close>. The lemmas show that a run is a history of the service in the sense of
  \<open>Server\<close>, with a list that has the same effect as what was acknowledged.
\<close>

section \<open>Requests to handlers\<close>

datatype route_result = Matched handler_name "string gomap" | WrongMethod | NoRoute

record http_env =
  hv_match :: "(string \<times> string \<times> handler_name) list \<Rightarrow> string \<Rightarrow> string \<Rightarrow> route_result"
  hv_ParseFloat :: "string \<Rightarrow> float64 option"
  hv_FormatFloat :: "float64 \<Rightarrow> string"
  hv_decodeOne :: "string \<Rightarrow> patch \<times> go_error option"
  hv_decodeBatch :: batch_decoder
  hv_errText :: "go_error \<Rightarrow> string"

definition Param :: "string gomap \<Rightarrow> string \<Rightarrow> string" where
  "Param ps k = (case map_of ps k of None \<Rightarrow> '''' | Some v \<Rightarrow> v)"

text \<open>A decoder on the body of a request; a body that cannot be read is an error before anything is decoded.\<close>

definition on_body :: "(string \<Rightarrow> 'a \<times> go_error option) \<Rightarrow> 'a \<Rightarrow> go_error + string \<Rightarrow> string \<Rightarrow> 'a \<times> go_error option" where
  "on_body dec nothing body _ = (case body of Inl e \<Rightarrow> (nothing, Some e) | Inr b \<Rightarrow> dec b)"

abbreviation no_members :: patch where
  "no_members \<equiv> \<lparr>p_id = Absent, p_type = Absent, p_delta = Absent, p_value = Absent\<rparr>"

type_synonym ('r, 'w) http_state = "Metrics list Pool \<times> ('r, 'w) svc_world"

definition keep_pool :: "Metrics list Pool \<Rightarrow> ('r, 'w) svc_world \<times> reply \<Rightarrow> ('r, 'w) http_state \<times> reply" where
  "keep_pool pl wr = ((pl, fst wr), snd wr)"

definition handle ::
  "http_env \<Rightarrow> ('r, 'w) Service \<Rightarrow> go_context \<Rightarrow> string \<Rightarrow> nat \<Rightarrow> handler_name \<Rightarrow> string gomap \<Rightarrow> go_error + string \<Rightarrow>
   ('r, 'w) http_state \<Rightarrow> ('r, 'w) http_state \<times> reply" where
  "handle henv s ctx ip i h ps body st =
     (let (pl, w) = st; one = on_body (hv_decodeOne henv) no_members body in
      case h of
        HPing \<Rightarrow> keep_pool pl (Ping (hv_errText henv) s ctx w)
      | HUpdateMetric \<Rightarrow>
          keep_pool pl (UpdateMetric (hv_ParseFloat henv) s ctx ip (Param ps ''type'') (Param ps ''name'') (Param ps ''value'') w)
      | HGetMetric \<Rightarrow> keep_pool pl (GetMetric (hv_FormatFloat henv) s ctx (Param ps ''type'') (Param ps ''name'') w)
      | HSnapshotJSON \<Rightarrow> keep_pool pl (SnapshotJSON s ctx w)
      | HIndex \<Rightarrow> keep_pool pl (Index (hv_FormatFloat henv) s ctx w)
      | HUpdateMetricJSON \<Rightarrow> keep_pool pl (UpdateMetricJSON one s ctx ip '''' w)
      | HGetMetricJSON \<Rightarrow> keep_pool pl (GetMetricJSON one s ctx '''' w)
      | HUpdateMetricsBatchJSON \<Rightarrow> UpdateMetricsBatchJSON (on_body (hv_decodeBatch henv) [] body) i s ctx ip '''' (pl, w))"

text \<open>No reply: no route matches, and gin's own answer stands.\<close>

definition route ::
  "http_env \<Rightarrow> ('r, 'w) Service \<Rightarrow> go_context \<Rightarrow> string \<Rightarrow> nat \<Rightarrow> mw_request \<Rightarrow> ('r, 'w) http_state \<Rightarrow>
   ('r, 'w) http_state \<times> reply option" where
  "route henv s ctx ip i req st =
     (case hv_match henv NewRouter (mq_method req) (mq_uri req) of
        Matched h ps \<Rightarrow> (case handle henv s ctx ip i h ps (mq_body req) st of (st', r) \<Rightarrow> (st', Some r))
      | WrongMethod \<Rightarrow> (st, Some (ReplyString 405 ''method not allowed''))
      | NoRoute \<Rightarrow> (st, None))"

section \<open>What an update request asks for\<close>

text \<open>The metric in the path of \<open>POST /update/:type/:name/:value\<close>.\<close>

definition path_metric :: "http_env \<Rightarrow> string gomap \<Rightarrow> Metrics option" where
  "path_metric henv ps =
     (let t = Param ps ''type''; n = Param ps ''name''; v = Param ps ''value'' in
      if t = Gauge then map_option (\<lambda>x. \<lparr>Delta = None, Value = Some x, ID = n, MType = t\<rparr>) (hv_ParseFloat henv v)
      else if t = Counter then map_option (\<lambda>d. \<lparr>Delta = Some d, Value = None, ID = n, MType = t\<rparr>) (ParseInt v)
      else None)"

definition trimmed :: "Metrics option \<Rightarrow> Metrics list" where
  "trimmed m = (case m of None \<Rightarrow> [] | Some m \<Rightarrow> [m\<lparr>ID := TrimSpace (ID m)\<rparr>])"

text \<open>The metric a JSON object describes by itself, whatever it is decoded into.\<close>

definition said :: "patch \<Rightarrow> Metrics" where
  "said p =
     \<lparr>Delta = (case p_delta p of Is d \<Rightarrow> Some d | _ \<Rightarrow> None), Value = (case p_value p of Is v \<Rightarrow> Some v | _ \<Rightarrow> None),
      ID = (case p_id p of Is n \<Rightarrow> n | _ \<Rightarrow> ''''), MType = (case p_type p of Is t \<Rightarrow> t | _ \<Rightarrow> '''')\<rparr>"

lemma decode_into_zero: "decode_into p zero_metric = said p"
  by (simp add: decode_into_def zero_metric_def said_def set_string_def set_pointer_def split: member.split)

lemma decode_slice_said: "decode_slice ps [] = map said ps"
  by (induction ps) (simp_all add: decode_into_zero)

text \<open>The objects of the body of a request to a JSON route.\<close>

definition body_object :: "http_env \<Rightarrow> mw_request \<Rightarrow> patch" where
  "body_object henv req = fst (on_body (hv_decodeOne henv) no_members (mq_body req) '''')"

definition body_objects :: "http_env \<Rightarrow> mw_request \<Rightarrow> patch list" where
  "body_objects henv req = fst (on_body (hv_decodeBatch henv) [] (mq_body req) '''')"

text \<open>
  The metrics a request asks to update, read off its path or off its JSON text: for a batch all the objects that
  are well-formed metrics.
\<close>

definition asked :: "http_env \<Rightarrow> mw_request \<Rightarrow> Metrics list" where
  "asked henv req =
     (case hv_match henv NewRouter (mq_method req) (mq_uri req) of
        Matched HUpdateMetric ps \<Rightarrow> trimmed (path_metric henv ps)
      | Matched HUpdateMetricJSON ps \<Rightarrow> trimmed (Some (said (body_object henv req)))
      | Matched HUpdateMetricsBatchJSON ps \<Rightarrow> valid_items (map said (body_objects henv req))
      | _ \<Rightarrow> [])"

text \<open>A batch each of whose objects brings its name, its type and the member of that type.\<close>

definition whole_objects :: "http_env \<Rightarrow> mw_request \<Rightarrow> bool" where
  "whole_objects henv req \<longleftrightarrow>
     (case hv_match henv NewRouter (mq_method req) (mq_uri req) of
        Matched HUpdateMetricsBatchJSON ps \<Rightarrow> list_all self_contained (body_objects henv req)
      | _ \<Rightarrow> True)"

definition is_ok :: "reply option \<Rightarrow> bool" where
  "is_ok r \<longleftrightarrow> (case r of None \<Rightarrow> False | Some x \<Rightarrow> reply_code x = Some 200)"

section \<open>The process\<close>

datatype server_event = Request go_context string nat mw_request | AuditTurn | SaveTick

type_synonym run_state = "(any_repo, srv_out) http_state \<times> Metrics list"

fun serve_event :: "http_env \<Rightarrow> server_env \<Rightarrow> server \<Rightarrow> run_state \<Rightarrow> server_event \<Rightarrow> run_state" where
  "serve_event henv env sv (st, ms) (Request ctx ip i req) =
     (case route henv (sv_svc sv) ctx ip i req st of
        (st', r) \<Rightarrow> (st', if is_ok r then ms @ asked henv req else ms))"
| "serve_event henv env sv ((pl, w), ms) AuditTurn =
     (case dispatch (sv_svc sv) w of None \<Rightarrow> ((pl, w), ms) | Some w' \<Rightarrow> ((pl, w'), ms))"
| "serve_event henv env sv ((pl, w), ms) SaveTick =
     (if sv_periodic sv then ((pl, periodic_save env sv w), ms) else ((pl, w), ms))"

fun whole_event :: "http_env \<Rightarrow> server_event \<Rightarrow> bool" where
  "whole_event henv (Request ctx ip i req) = whole_objects henv req"
| "whole_event henv _ = True"

abbreviation ErrServerClosed :: go_error where
  "ErrServerClosed \<equiv> ErrNew ''http: Server closed''"

text \<open>
  How \<open>run\<close> ends: with an error before the server is up; in \<open>logger.Fatal\<close>; or after \<open>ListenAndServe\<close>, with the
  state, the acknowledged metrics and the result.
\<close>

datatype run_result =
    NotStarted go_error
  | Fatal go_error
  | Ran "(any_repo, srv_out) svc_world" "Metrics list" "go_error option"

definition server_run ::
  "urltime \<Rightarrow> environ \<Rightarrow> string list \<Rightarrow> go_error option \<Rightarrow> http_env \<Rightarrow> server_env \<Rightarrow> pg_Repo \<Rightarrow> srv_out \<Rightarrow>
   server_event list \<Rightarrow> go_error option \<Rightarrow> run_result" where
  "server_run ut environ args loggerErr henv env db out events listenErr =
     (case LoadServerConfig ut environ args of
        Inl err \<Rightarrow> NotStarted err
      | Inr cfg \<Rightarrow>
          (case loggerErr of
             Some err \<Rightarrow> NotStarted err
           | None \<Rightarrow>
               (case server_start env cfg db out of
                  Inl err \<Rightarrow> Fatal err
                | Inr (sv, w0) \<Rightarrow>
                    (case foldl (serve_event henv env sv) ((metricsBatchPool, w0), []) events of
                       ((pl, w), ms) \<Rightarrow>
                         Ran (svc_Close w) ms
                           (case listenErr of
                              Some err \<Rightarrow> if \<not> errors_Is err ErrServerClosed then Some err else None
                            | None \<Rightarrow> None)))))"

text \<open>\<open>main\<close>: what it prints, and the exit code (\<open>log.Fatal\<close> and \<open>logger.Fatal\<close> exit with 1).\<close>

definition server_main :: "string \<Rightarrow> string \<Rightarrow> string \<Rightarrow> run_result \<Rightarrow> string \<times> nat" where
  "server_main buildVersion buildDate buildCommit result =
     (PrintBuildInfo buildVersion buildDate buildCommit, case result of Ran w ms None \<Rightarrow> 0 | _ \<Rightarrow> 1)"

section \<open>A request is a step of the service\<close>

lemma httpError_not_ok [simp]: "\<not> is_ok (Some (httpError e))"
  by (simp add: is_ok_def httpError_code)

lemma is_ok_codes [simp]:
  "is_ok (Some (ReplyString n t)) = (n = 200)" "is_ok (Some (ReplyData n t b)) = (n = 200)" "is_ok (Some (ReplyJSON n v)) = (n = 200)"
  "is_ok None = False"
  by (simp_all add: is_ok_def)

text \<open>A handler for one metric that either refuses, or passes the metric \<open>m0\<close> on and answers 200 when the service accepts it.\<close>

definition updates_one ::
  "('r, 'w) Service \<Rightarrow> go_context \<Rightarrow> Metrics option \<Rightarrow> ('r, 'w) svc_world \<Rightarrow> ('r, 'w) svc_world \<Rightarrow> reply \<Rightarrow> bool" where
  "updates_one s c m0 w w' r \<longleftrightarrow>
     w' = w \<and> \<not> is_ok (Some r) \<or>
     (\<exists>m x. m0 = Some m \<and> svc_Upsert s c m w = (w', x) \<and> is_ok (Some r) = (\<exists>y. x = Inr y))"

lemma UpdateMetric_step:
  "UpdateMetric (hv_ParseFloat henv) s ctx ip (Param ps ''type'') (Param ps ''name'') (Param ps ''value'') w = (w', r) \<Longrightarrow>
     updates_one s (WithClientIP ctx ip) (path_metric henv ps) w w' r"
  unfolding UpdateMetric_def path_metric_def updates_one_def Let_def
  by (simp split: if_splits option.splits prod.splits sum.splits) auto

lemma UpdateMetricJSON_step:
  "UpdateMetricJSON dec1 s ctx ip body w = (w', r) \<Longrightarrow> updates_one s (WithClientIP ctx ip) (bind_metric dec1 body) w w' r"
  unfolding UpdateMetricJSON_def updates_one_def
  by (simp split: option.splits prod.splits sum.splits) auto

lemma updates_one_reach:
  assumes "server_reach env sv w0 w ms" and "updates_one (sv_svc sv) c m0 w w' r"
  shows "server_reach env sv w0 w' (if is_ok (Some r) then ms @ trimmed m0 else ms)"
  using assms(2) unfolding updates_one_def
proof (elim disjE exE conjE)
  fix m x
  assume "m0 = Some m" "svc_Upsert (sv_svc sv) c m w = (w', x)" "is_ok (Some r) = (\<exists>y. x = Inr y)"
  then show ?thesis
    using server_reach.update [OF assms(1)] server_reach.update_refused [OF assms(1)] by (cases x) (auto simp: trimmed_def)
qed (use assms(1) in simp)

lemma batch_step:
  assumes "UpdateMetricsBatchJSON dec i s ctx ip body (pl, w) = ((pl', w'), r)"
  obtains (refused) "w' = w" "\<not> is_ok (Some r)"
    | (served) pl1 items backing x where "decodeMetricsBatch dec i body pl = (pl1, Inr (items, backing))"
        "svc_UpsertBatch s (WithClientIP ctx ip) items w = (w', x)" "is_ok (Some r) \<longleftrightarrow> (\<exists>n. x = Inr n)"
  using assms unfolding UpdateMetricsBatchJSON_def
  by (simp split: prod.splits sum.splits) auto

lemma reading_reach:
  assumes reach: "server_reach env sv w0 w ms" and h: "handle henv (sv_svc sv) ctx ip i h ps body (pl, w) = ((pl', w'), x)"
    and reading: "h \<in> {HPing, HGetMetric, HSnapshotJSON, HIndex, HGetMetricJSON}"
  shows "server_reach env sv w0 w' ms"
proof -
  from h reading have "w' = w \<or> (\<exists>e. svc_Ping (sv_svc sv) ctx w = (w', e)) \<or> (\<exists>t n y. svc_Get (sv_svc sv) ctx t n w = (w', y)) \<or>
      (\<exists>y. svc_Snapshot (sv_svc sv) ctx w = (w', y))"
    by (auto simp: handle_def keep_pool_def Ping_def GetMetric_def SnapshotJSON_def Index_def GetMetricJSON_def Let_def
        split: prod.splits sum.splits option.splits)
  with reach show ?thesis by (auto intro: server_reach.ping server_reach.get server_reach.snapshot)
qed

text \<open>Metrics with the same effect, one by one, have the same effect as a list.\<close>

lemma spec_effect:
  "list_all2 same_effect ms ms' \<Longrightarrow> spec_gauges ms g = spec_gauges ms' g \<and> spec_counters ms c = spec_counters ms' c"
proof (induction arbitrary: g c rule: list_all2_induct)
  case (Cons m ms m' ms')
  then have "spec_gauges [m] g = spec_gauges [m'] g" "spec_counters [m] c = spec_counters [m'] c"
    by (auto simp: same_effect_def split: option.split)
  with Cons.IH show ?case
    using spec_gauges_append [of "[m]"] spec_gauges_append [of "[m']"] spec_counters_append [of "[m]"] spec_counters_append [of "[m']"]
    by (metis append_Cons append_Nil)
qed simp

lemma same_effect_refl: "list_all2 same_effect ms ms"
  by (simp add: list_all2_refl same_effect_def)

text \<open>What the decoder of a batch returns has the effect of what the text says.\<close>

lemma decoded_as_said:
  assumes "decodeMetricsBatch dec i body pl = (pl1, Inr (items, backing))" and "list_all self_contained (fst (dec body))"
  shows "list_all2 same_effect items (map said (fst (dec body)))"
proof -
  obtain ps err where d: "dec body = (ps, err)" by fastforce
  obtain pl0 buf where g: "Pool_Get i pl = (pl0, buf)" by fastforce
  from assms(1) d g have "items = decode_slice ps buf" by (auto simp: decodeMetricsBatch_def Let_def split: option.splits)
  with decode_slice_effect [of ps buf "[]"] assms(2) d show ?thesis by (simp add: decode_slice_said)
qed

lemma bind_metric_said: "bind_metric dec1 body = Some m \<Longrightarrow> m = said (fst (dec1 body))"
  by (auto simp: bind_metric_def decode_into_zero Let_def split: if_splits prod.splits)

lemma request_reach:
  assumes reach: "server_reach env sv w0 w ms" and run: "route henv (sv_svc sv) ctx ip i req (pl, w) = ((pl', w'), r)"
    and whole: "whole_objects henv req"
  shows "\<exists>new. server_reach env sv w0 w' (ms @ new) \<and> list_all2 same_effect new (if is_ok r then asked henv req else [])"
proof (cases "hv_match henv NewRouter (mq_method req) (mq_uri req)")
  case (Matched h ps)
  then obtain x where h: "handle henv (sv_svc sv) ctx ip i h ps (mq_body req) (pl, w) = ((pl', w'), x)" and r: "r = Some x"
    using run by (auto simp: route_def split: prod.splits)
  have one: "\<exists>new. server_reach env sv w0 w' (ms @ new) \<and> list_all2 same_effect new (if is_ok (Some x) then trimmed (Some m1) else [])"
    if "updates_one (sv_svc sv) c m0 w w' x" "\<And>m. m0 = Some m \<Longrightarrow> m = m1" for c m0 m1
  proof -
    have "server_reach env sv w0 w' (ms @ (if is_ok (Some x) then trimmed m0 else []))"
      using updates_one_reach [OF reach that(1)] by (simp split: if_splits)
    moreover have "is_ok (Some x) \<Longrightarrow> m0 = Some m1" using that by (auto simp: updates_one_def)
    ultimately show ?thesis using same_effect_refl by (cases "is_ok (Some x)") auto
  qed
  consider (read) "h \<in> {HPing, HGetMetric, HSnapshotJSON, HIndex, HGetMetricJSON}"
    | (path) "h = HUpdateMetric" | (json) "h = HUpdateMetricJSON" | (batch) "h = HUpdateMetricsBatchJSON"
    by (cases h) auto
  then show ?thesis
  proof cases
    case read
    with reading_reach [OF reach h] Matched show ?thesis by (intro exI [of _ "[]"]) (auto simp: asked_def)
  next
    case path
    with h have "UpdateMetric (hv_ParseFloat henv) (sv_svc sv) ctx ip (Param ps ''type'') (Param ps ''name'') (Param ps ''value'') w = (w', x)"
      by (auto simp: handle_def keep_pool_def)
    from UpdateMetric_step [OF this] have u: "updates_one (sv_svc sv) (WithClientIP ctx ip) (path_metric henv ps) w w' x" .
    show ?thesis
    proof (cases "path_metric henv ps")
      case None
      with u have "w' = w" "\<not> is_ok (Some x)" by (auto simp: updates_one_def)
      with reach r show ?thesis by (intro exI [of _ "[]"]) simp
    next
      case (Some m1)
      with one [OF u, of m1] path Matched r show ?thesis by (simp add: asked_def cong: if_cong split del: if_split)
    qed
  next
    case json
    with h have "UpdateMetricJSON (on_body (hv_decodeOne henv) no_members (mq_body req)) (sv_svc sv) ctx ip '''' w = (w', x)"
      by (auto simp: handle_def keep_pool_def Let_def)
    from UpdateMetricJSON_step [OF this] have "\<exists>new. server_reach env sv w0 w' (ms @ new) \<and>
        list_all2 same_effect new (if is_ok (Some x) then trimmed (Some (said (body_object henv req))) else [])"
      by (rule one) (simp add: bind_metric_said body_object_def)
    with json Matched r show ?thesis by (simp add: asked_def cong: if_cong split del: if_split)
  next
    case batch
    let ?dec = "on_body (hv_decodeBatch henv) [] (mq_body req)"
    from batch h have "UpdateMetricsBatchJSON ?dec i (sv_svc sv) ctx ip '''' (pl, w) = ((pl', w'), x)"
      by (auto simp: handle_def)
    then show ?thesis
    proof (rule batch_step)
      assume "w' = w" "\<not> is_ok (Some x)"
      with reach r show ?thesis by (intro exI [of _ "[]"]) simp
    next
      fix pl1 items backing y
      assume d: "decodeMetricsBatch ?dec i '''' pl = (pl1, Inr (items, backing))"
        and u: "svc_UpsertBatch (sv_svc sv) (WithClientIP ctx ip) items w = (w', y)" "is_ok (Some x) \<longleftrightarrow> (\<exists>n. y = Inr n)"
      have "list_all self_contained (fst (?dec ''''))" using whole Matched batch by (simp add: whole_objects_def body_objects_def)
      from valid_items_effect [OF decoded_as_said [OF d this]] batch Matched
      have "list_all2 same_effect (valid_items items) (asked henv req)" by (simp add: asked_def body_objects_def)
      then show ?thesis
        using server_reach.batch [OF reach] server_reach.batch_refused [OF reach] u r
        by (cases y) (auto intro: exI [of _ "valid_items items"] exI [of _ "[]"])
    qed
  qed
qed (use reach run in \<open>auto simp: route_def asked_def intro: exI [of _ "[]"]\<close>)

text \<open>So is every event, and so is every run.\<close>

lemma event_reach:
  assumes "server_reach env sv w0 w as" "list_all2 same_effect as ms" and "whole_event henv ev"
    and ev: "serve_event henv env sv ((pl, w), ms) ev = ((pl', w'), ms')"
  shows "\<exists>as'. server_reach env sv w0 w' as' \<and> list_all2 same_effect as' ms'"
proof (cases ev)
  case (Request ctx ip i req)
  obtain st r where run: "route henv (sv_svc sv) ctx ip i req (pl, w) = (st, r)" by fastforce
  with ev Request have "st = (pl', w')" "ms' = ms @ (if is_ok r then asked henv req else [])" by (auto split: if_splits)
  moreover obtain new where "server_reach env sv w0 w' (as @ new)" "list_all2 same_effect new (if is_ok r then asked henv req else [])"
    using request_reach [OF assms(1), of henv ctx ip i req pl pl' w' r] run Request assms(3) calculation by auto
  ultimately show ?thesis using assms(2) list_all2_appendI by blast
next
  case AuditTurn
  with assms server_reach.audit [OF assms(1)] show ?thesis by (auto split: option.splits)
next
  case SaveTick
  with assms server_reach.tick [OF assms(1)] show ?thesis by (auto split: if_splits)
qed

lemma run_reach:
  "server_reach env sv w0 w as \<Longrightarrow> list_all2 same_effect as ms \<Longrightarrow> list_all (whole_event henv) events \<Longrightarrow>
     foldl (serve_event henv env sv) ((pl, w), ms) events = ((pl', w'), ms') \<Longrightarrow>
     \<exists>as'. server_reach env sv w0 w' as' \<and> list_all2 same_effect as' ms'"
proof (induction events arbitrary: pl w as ms)
  case (Cons ev events)
  obtain pl1 w1 ms1 where ev: "serve_event henv env sv ((pl, w), ms) ev = ((pl1, w1), ms1)" by (metis surj_pair)
  from event_reach [OF Cons.prems(1,2) _ ev] Cons.prems(3) obtain as1 where "server_reach env sv w0 w1 as1" "list_all2 same_effect as1 ms1"
    by auto
  with Cons.IH Cons.prems(3,4) ev show ?case by simp
qed auto

lemma svc_Close_repo [simp]: "w_repo (svc_Close w) = w_repo w" "w_out (svc_Close w) = w_out w"
  by (simp_all add: svc_Close_def)

lemma server_runE:
  assumes "server_run ut environ args loggerErr henv env db out events listenErr = Ran w ms res" and "list_all (whole_event henv) events"
  obtains cfg sv w0 pl w1 as where "LoadServerConfig ut environ args = Inr cfg" "server_start env cfg db out = Inr (sv, w0)"
    "foldl (serve_event henv env sv) ((metricsBatchPool, w0), []) events = ((pl, w1), ms)" "w = svc_Close w1"
    "server_reach env sv w0 w1 as" "list_all2 same_effect as ms"
proof -
  from assms(1) obtain cfg sv w0 pl w1 where r: "LoadServerConfig ut environ args = Inr cfg" "server_start env cfg db out = Inr (sv, w0)"
      "foldl (serve_event henv env sv) ((metricsBatchPool, w0), []) events = ((pl, w1), ms)" "w = svc_Close w1"
    by (auto simp: server_run_def split: sum.splits option.splits prod.splits)
  from run_reach [OF server_reach.start _ assms(2) r(3)] r that show thesis by blast
qed

section \<open>Properties\<close>

text \<open>
  C3: the program as a whole, without a database, without \<open>Restore\<close> and with one event at a time: whatever requests arrive
  at a running server, in whatever order with audit turns and periodic saves, the metrics it holds in memory are
  at the end exactly the effect, in order, of the metrics that the updates it answered with status 200 asked
  for, as their path or their JSON text says: no other request, answer or event changes them. Batches are
  those whose elements each bring their name, their type and the member of that type; an element that does not can
  take over a member of an earlier request (\<open>batch_stale_delta\<close>).
\<close>

theorem server_run_metrics:
  assumes run: "server_run ut environ args loggerErr henv env db out events listenErr = Ran w ms res"
    and cfg: "LoadServerConfig ut environ args = Inr cfg" "sc_DSN cfg = ''''" "\<not> sc_Restore cfg"
    and whole: "list_all (whole_event henv) events"
  shows "any_gauge_of (w_repo w) = spec_gauges ms Map.empty \<and> any_counter_of (w_repo w) = spec_counters ms Map.empty \<and>
    mem_backed (w_repo w)"
proof -
  obtain sv w0 pl w1 as where r: "server_start env cfg db out = Inr (sv, w0)" "w = svc_Close w1" "server_reach env sv w0 w1 as"
      "list_all2 same_effect as ms"
    by (rule server_runE [OF run whole]) (use cfg(1) in auto)
  note w = server_start_wired [OF r(1)]
  from w(2) cfg(2,3) have "w_repo w0 = AnyMem mem_New" by (auto simp: buildRepoAndPersister_def open_postgres_def warn_if_def Let_def)
  then have "mem_backed (w_repo w0)" "any_gauge_of (w_repo w0) = Map.empty" "any_counter_of (w_repo w0) = Map.empty"
    by (simp_all add: any_abs_defs mem_New_def mem_inv_def mem_abs_defs)
  with memory_history [OF r(3) w(1)] r(2) spec_effect [OF r(4)] show ?thesis by simp
qed

text \<open>A counter is updated, an update without a number is refused, and the counter is read.\<close>

abbreviation sample_http :: http_env where
  "sample_http \<equiv> \<lparr>hv_match = (\<lambda>routes m uri. if m = ''GET'' then Matched HGetMetric [(''type'', Counter), (''name'', ''c'')]
       else Matched HUpdateMetric [(''type'', Counter), (''name'', ''c''), (''value'', uri)]),
     hv_ParseFloat = (\<lambda>s. None), hv_FormatFloat = (\<lambda>x. ''''), hv_decodeOne = (\<lambda>b. (no_members, None)), hv_decodeBatch = (\<lambda>b. ([], None)),
     hv_errText = (\<lambda>e. '''')\<rparr>"

abbreviation sample_request :: "string \<Rightarrow> string \<Rightarrow> server_event" where
  "sample_request m uri \<equiv> Request Background ''::1'' 0 \<lparr>mq_method = m, mq_uri = uri, mq_headers = [], mq_body = Inr ''''\<rparr>"

lemma sample_config:
  "\<exists>cfg. LoadServerConfig ut_any [(''STORE_INTERVAL'', ''0'')] [] = Inr cfg \<and> sc_DSN cfg = '''' \<and> \<not> sc_Restore cfg \<and>
     sc_AuditFile cfg = '''' \<and> sc_AuditURL cfg = '''' \<and> sc_Interval cfg = 0"
proof -
  have t: "TrimSpace '':8080'' = '':8080''" "TrimSpace ''0'' = ''0''"
    by (simp_all add: TrimSpace_def space_seqs_def trim_seqs.simps)
  show ?thesis
    by (simp add: LoadServerConfig_def FromEnvOrFlagDuration_def FromEnvOrFlag_def FromEnvOrFlagBool_def os_Getenv_def flag_int_def flag_str_def
          flag_bool_def no_flags_def normalizeListenAndServeURL_def defaultListenAndServeAddr_def HasPrefix_def SplitHostPort_def last_colon_def
          defaultRestore_def GetBool_def Getenv_def ParseInt_def is_digit_def t Let_def)
qed

lemma sample_steps:
  assumes "svc_repo s = server_repo" and "svc_auditor s = None"
  shows "route sample_http s Background ''::1'' 0 \<lparr>mq_method = ''POST'', mq_uri = ''5'', mq_headers = [], mq_body = Inr ''''\<rparr>
        (pl, w\<lparr>w_repo := AnyMem mem_New\<rparr>) =
      ((pl, w\<lparr>w_repo := AnyMem \<lparr>gauges = [], counters = [(''c'', 5)]\<rparr>\<rparr>), Some (ReplyData 200 ''text/plain; charset=utf-8'' ''ok''))"
    and "route sample_http s Background ''::1'' 0 \<lparr>mq_method = ''POST'', mq_uri = ''x'', mq_headers = [], mq_body = Inr ''''\<rparr> st =
      (st, Some (ReplyString 400 ''bad request''))"
proof -
  have p: "ParseInt ''5'' = Some 5" "ParseInt ''x'' = None" by (simp_all add: ParseInt_def is_digit_def Let_def)
  show "route sample_http s Background ''::1'' 0 \<lparr>mq_method = ''POST'', mq_uri = ''5'', mq_headers = [], mq_body = Inr ''''\<rparr>
        (pl, w\<lparr>w_repo := AnyMem mem_New\<rparr>) =
      ((pl, w\<lparr>w_repo := AnyMem \<lparr>gauges = [], counters = [(''c'', 5)]\<rparr>\<rparr>), Some (ReplyData 200 ''text/plain; charset=utf-8'' ''ok''))"
    using assms p
    by (simp add: route_def handle_def keep_pool_def UpdateMetric_def Param_def Let_def svc_Upsert_def upsert_finish_def svc_Get_def
        dyn_def mem_op_defs mem_New_def gm_add_def notifyAudit_def)
  show "route sample_http s Background ''::1'' 0 \<lparr>mq_method = ''POST'', mq_uri = ''x'', mq_headers = [], mq_body = Inr ''''\<rparr> st =
      (st, Some (ReplyString 400 ''bad request''))"
    using p by (cases st) (simp add: route_def handle_def keep_pool_def UpdateMetric_def Param_def Let_def)
qed

theorem server_run_metrics_witness:
  "\<exists>w. server_run ut_any [(''STORE_INTERVAL'', ''0'')] [] None sample_http sample_env (pg_db [] []) sample_out
       [sample_request ''POST'' ''5'', sample_request ''POST'' ''x'', SaveTick] (Some ErrServerClosed) = Ran w [counter_metric ''c'' 5] None \<and>
     any_counter_of (w_repo w) ''c'' = Some 5"
proof -
  let ?w = "\<lambda>r. sample_world (AnyMem r) sample_out"
  obtain cfg where cfg: "LoadServerConfig ut_any [(''STORE_INTERVAL'', ''0'')] [] = Inr cfg" "sc_DSN cfg = ''''" "\<not> sc_Restore cfg"
      "sc_AuditFile cfg = ''''" "sc_AuditURL cfg = ''''" "sc_Interval cfg = 0"
    using sample_config by blast
  then obtain sv where st: "server_start sample_env cfg (pg_db [] []) sample_out = Inr (sv, ?w mem_New)"
      "svc_repo (sv_svc sv) = server_repo" "svc_auditor (sv_svc sv) = None" "\<not> sv_periodic sv"
    by (simp add: server_start_def buildRepoAndPersister_def open_postgres_def warn_if_def buildAuditor_def svc_New_def initAuditDispatcher_def)
  have "trimmed (path_metric sample_http [(''type'', Counter), (''name'', ''c''), (''value'', ''5'')]) = [counter_metric ''c'' 5]"
    by (simp add: path_metric_def Param_def ParseInt_def is_digit_def trimmed_def counter_metric_def Let_def)
  with sample_steps(1) [OF st(2,3), of metricsBatchPool "?w mem_New"] sample_steps(2) [OF st(2,3)] st(4)
  have "foldl (serve_event sample_http sample_env sv) ((metricsBatchPool, ?w mem_New), [])
      [sample_request ''POST'' ''5'', sample_request ''POST'' ''x'', SaveTick] =
      ((metricsBatchPool, ?w \<lparr>gauges = [], counters = [(''c'', 5)]\<rparr>), [counter_metric ''c'' 5])"
    by (simp add: asked_def)
  with cfg(1) st(1) have run: "server_run ut_any [(''STORE_INTERVAL'', ''0'')] [] None sample_http sample_env (pg_db [] []) sample_out
       [sample_request ''POST'' ''5'', sample_request ''POST'' ''x'', SaveTick] (Some ErrServerClosed) =
      Ran (svc_Close (?w \<lparr>gauges = [], counters = [(''c'', 5)]\<rparr>)) [counter_metric ''c'' 5] None"
    by (simp add: server_run_def del: foldl_Cons)
  from server_run_metrics [OF run cfg(1-3)] run show ?thesis by (simp add: whole_objects_def)
qed

text \<open>The exit code is 0 exactly when the server came up and was closed, not when it failed to start or to serve.\<close>

theorem server_exit_code:
  "snd (server_main v d c (server_run ut environ args loggerErr henv env db out events listenErr)) = 0 \<longleftrightarrow>
     (\<exists>cfg sv w0. LoadServerConfig ut environ args = Inr cfg \<and> loggerErr = None \<and> server_start env cfg db out = Inr (sv, w0)) \<and>
     (case listenErr of None \<Rightarrow> True | Some e \<Rightarrow> errors_Is e ErrServerClosed)"
  by (auto simp: server_main_def server_run_def split: sum.split option.split prod.split)

end
