(* ===== verification/Agent_Main.thy ===== *)
theory Agent_Main
  imports Agent Http_Publisher
begin

text \<open>
  The agent program (\<open>cmd/agent/main.go\<close>) and the life of its process (\<open>Service.Run\<close> of
  \<open>internal/services/agent/agent.go\<close>): the collector's goroutines, the report loop and the worker pool of
  \<open>BatchPublisher\<close> run concurrently. \<open>agent_reach\<close> gives the states the process can reach, with the samples and
  the ticks of the report interval that led there.

  The loop takes a snapshot when its ticker fires and then blocks in \<open>Submit\<close> until the channel has room: the
  field \<open>ap_pending\<close> holds the batch in between. Its context ends only while it waits in \<open>select\<close>; the
  deferred calls then close the channel, wait for the workers and stop the collector, in this order.
\<close>

section \<open>main.go\<close>

definition agent_main ::
  "urltime \<Rightarrow> (string \<Rightarrow> go_error + url) \<Rightarrow> environ \<Rightarrow> string list \<Rightarrow> go_error + AgentConfig \<times> Client" where
  "agent_main ut url_Parse env args =
     (case LoadAgentConfig ut env args of
        Inl err \<Rightarrow> Inl (Wrapf ''failed to parse flags'' err)
      | Inr cfg \<Rightarrow>
          (case httpjson_New url_Parse (ac_Address cfg) (ac_Key cfg) of
             Inl err \<Rightarrow> Inl (Wrapf ''failed to init publisher'' err)
           | Inr pub \<Rightarrow> Inr (cfg, pub)))"

text \<open>The client as a publisher; \<open>pick\<close> is the choice of \<open>sync.Pool\<close> among the pooled buffers.\<close>

definition http_publisher ::
  "'w httpjson_env \<Rightarrow> Client \<Rightarrow> (string Pool \<times> 'w \<Rightarrow> nat) \<Rightarrow> (string Pool \<times> 'w) Publisher" where
  "http_publisher env cl pick =
     \<lparr>pub_SendBatch = (\<lambda>c b st. SendBatch env cl (pick st) b st),
      pub_SendOne = (\<lambda>c m st. SendOne env cl (pick st) m st)\<rparr>"

section \<open>The process\<close>

record 'w agent_proc =
  ap_col :: Collector
  ap_pending :: "Metrics list option"
  ap_sender :: "'w sender"

inductive agent_reach ::
  "(64 word \<Rightarrow> float64) \<Rightarrow> 'w Publisher \<Rightarrow> go_context \<Rightarrow> int64 \<Rightarrow> 'w \<Rightarrow> 'w agent_proc \<Rightarrow> agent_event list \<Rightarrow> bool"
  for f :: "64 word \<Rightarrow> float64" and pub :: "'w Publisher" and c :: go_context and n :: int64 and w0 :: 'w where
  start: "NewBatchPublisher n w0 = Some s \<Longrightarrow>
     agent_reach f pub c n w0 \<lparr>ap_col = col_step f collector_New CStart, ap_pending = None, ap_sender = s\<rparr> []"
| sample: "agent_reach f pub c n w0 p es \<Longrightarrow>
     agent_reach f pub c n w0 (p\<lparr>ap_col := col_step f (ap_col p) e\<rparr>) (es @ [ASample e])"
| tick: "agent_reach f pub c n w0 p es \<Longrightarrow> ap_pending p = None \<Longrightarrow> \<not> sn_closed (ap_sender p) \<Longrightarrow>
     agent_reach f pub c n w0 (p\<lparr>ap_pending := enqueueSnapshot (collector_Snapshot (ap_col p))\<rparr>) (es @ [AReport])"
| submit: "agent_reach f pub c n w0 p es \<Longrightarrow> ap_pending p = Some b \<Longrightarrow> s = ap_sender p \<Longrightarrow> length (sn_jobs s) < sn_cap s \<Longrightarrow>
     agent_reach f pub c n w0
       (p\<lparr>ap_pending := None, ap_sender := s\<lparr>sn_jobs := sn_jobs s @ [b], sn_submitted := sn_submitted s @ [b]\<rparr>\<rparr>) es"
| work: "agent_reach f pub c n w0 p es \<Longrightarrow> sender_step pub c (ap_sender p) t \<Longrightarrow>
     sn_submitted t = sn_submitted (ap_sender p) \<Longrightarrow> sn_closed t = sn_closed (ap_sender p) \<Longrightarrow>
     agent_reach f pub c n w0 (p\<lparr>ap_sender := t\<rparr>) es"
| ended: "agent_reach f pub c n w0 p es \<Longrightarrow> ap_pending p = None \<Longrightarrow> \<not> sn_closed (ap_sender p) \<Longrightarrow>
     agent_reach f pub c n w0 (p\<lparr>ap_sender := (ap_sender p)\<lparr>sn_closed := True\<rparr>\<rparr>) es"
| returned: "agent_reach f pub c n w0 p es \<Longrightarrow> sn_closed (ap_sender p) \<Longrightarrow> list_all (\<lambda>x. x = Exited) (sn_workers (ap_sender p)) \<Longrightarrow>
     agent_reach f pub c n w0 (p\<lparr>ap_col := col_step f (ap_col p) CStop\<rparr>) (es @ [ASample CStop])"

section \<open>The process refines the sequence of its reports\<close>

fun agent_col :: "(64 word \<Rightarrow> float64) \<Rightarrow> Collector \<Rightarrow> agent_event list \<Rightarrow> Collector" where
  "agent_col f col [] = col"
| "agent_col f col (ASample e # es) = agent_col f (col_step f col e) es"
| "agent_col f col (AReport # es) = agent_col f col es"

lemma agent_col_append: "agent_col f col (es @ es') = agent_col f (agent_col f col es) es'"
  by (induction f col es rule: agent_col.induct) auto

lemma agent_loop_append: "agent_loop f col (es @ es') = agent_loop f col es @ agent_loop f (agent_col f col es) es'"
  by (induction f col es rule: agent_loop.induct) (auto split: option.split)

definition pending_list :: "'w agent_proc \<Rightarrow> Metrics list list" where
  "pending_list p = (case ap_pending p of None \<Rightarrow> [] | Some b \<Rightarrow> [b])"

definition agent_inv ::
  "(64 word \<Rightarrow> float64) \<Rightarrow> 'w Publisher \<Rightarrow> go_context \<Rightarrow> int64 \<Rightarrow> 'w \<Rightarrow> 'w agent_proc \<Rightarrow> agent_event list \<Rightarrow> bool" where
  "agent_inv f pub c n w0 p es \<longleftrightarrow>
     sender_reach pub c n w0 (ap_sender p) \<and>
     ap_col p = agent_col f (col_step f collector_New CStart) es \<and>
     sn_submitted (ap_sender p) @ pending_list p = agent_Run f es \<and>
     (sn_closed (ap_sender p) \<longrightarrow> ap_pending p = None)"

lemma agent_reach_inv: "agent_reach f pub c n w0 p es \<Longrightarrow> agent_inv f pub c n w0 p es"
proof (induction rule: agent_reach.induct)
  case (start s)
  then have "sn_submitted s = []" by (auto simp: NewBatchPublisher_def Let_def split: if_splits)
  with start show ?case by (auto simp: agent_inv_def pending_list_def agent_Run_def intro: sender_reach.start)
next
  case (sample p es e)
  then show ?case by (simp add: agent_inv_def pending_list_def agent_Run_def agent_loop_append agent_col_append)
next
  case (tick p es)
  then show ?case
    by (auto simp: agent_inv_def pending_list_def agent_Run_def agent_loop_append agent_col_append split: option.splits)
next
  case (submit p es b s)
  then have "\<not> sn_closed s" by (auto simp: agent_inv_def)
  with submit sender_step.Submit [of s pub c b] show ?case
    by (auto simp: agent_inv_def pending_list_def intro: sender_reach.step)
next
  case (work p es t)
  then show ?case by (auto simp: agent_inv_def pending_list_def intro: sender_reach.step)
next
  case (ended p es)
  then show ?case by (auto simp: agent_inv_def pending_list_def intro: sender_reach.step sender_step.Close)
next
  case (returned p es)
  then show ?case by (auto simp: agent_inv_def pending_list_def agent_Run_def agent_loop_append agent_col_append)
qed

section \<open>The size of the pool\<close>

lemma sender_step_workers: "sender_step pub c s t \<Longrightarrow> length (sn_workers t) = length (sn_workers s)"
  by (induction rule: sender_step.induct) (simp_all add: set_worker_def finish_worker_def)

lemma sender_reach_workers: "sender_reach pub c n w0 s \<Longrightarrow> 1 \<le> sint n \<Longrightarrow> length (sn_workers s) = nat (sint n)"
  by (induction rule: sender_reach.induct)
    (auto simp: NewBatchPublisher_def Let_def sender_step_workers split: if_splits)

section \<open>Properties\<close>

text \<open>
  C12: a started agent loses no report: in every state its process can reach, under every interleaving of
  collector, report loop and workers, the batches submitted to the pool, with the one that waits in \<open>Submit\<close>, are
  exactly the snapshots of its report ticks in order; the pool has as many workers as the configured limit, at
  least one; and once all workers have left, each of those batches has been given to the publisher and finished
  exactly once.
\<close>

theorem agent_reports_everything:
  assumes "agent_main ut url_Parse env args = Inr (cfg, cl)"
    and "agent_reach f (http_publisher henv cl pick) c (ac_RateLimit cfg) w0 p es"
  shows "sn_submitted (ap_sender p) @ pending_list p = agent_Run f es \<and>
    1 \<le> length (sn_workers (ap_sender p)) \<and> length (sn_workers (ap_sender p)) = nat (sint (ac_RateLimit cfg)) \<and>
    (list_all (\<lambda>x. x = Exited) (sn_workers (ap_sender p)) \<longrightarrow>
       pending_list p = [] \<and> mset (sn_done (ap_sender p)) = mset (agent_Run f es))"
proof -
  from assms(1) have "LoadAgentConfig ut env args = Inr cfg" by (auto simp: agent_main_def split: sum.splits)
  then have n: "1 \<le> sint (ac_RateLimit cfg)" by (rule LoadAgentConfig_ok)
  note inv = agent_reach_inv [OF assms(2), unfolded agent_inv_def]
  then have s: "sender_inv (ap_sender p)" and len: "length (sn_workers (ap_sender p)) = nat (sint (ac_RateLimit cfg))"
    using n by (auto intro: sender_reach_inv sender_reach_workers)
  have "pending_list p = [] \<and> mset (sn_done (ap_sender p)) = mset (agent_Run f es)"
    if all: "list_all (\<lambda>x. x = Exited) (sn_workers (ap_sender p))"
  proof -
    have ex: "Exited \<in> set (sn_workers (ap_sender p))"
      using all len n by (cases "sn_workers (ap_sender p)") auto
    with s have "sn_closed (ap_sender p)" by (simp add: sender_inv_def)
    with inv have "pending_list p = []" by (simp add: pending_list_def)
    with inv sender_all_exited [OF s] all show ?thesis by (auto simp: list_all_iff)
  qed
  with inv len n show ?thesis by auto
qed


abbreviation any_url :: "string \<Rightarrow> go_error + url" where
  "any_url \<equiv> \<lambda>u. Inr \<lparr>u_Path = '''', u_rest = u\<rparr>"

lemma default_agent:
  "\<exists>cfg cl. agent_main ut_any any_url [] [] = Inr (cfg, cl) \<and> ac_RateLimit cfg = 1 \<and> cl_key cl = ''''"
  by (simp add: agent_main_def LoadAgentConfig_def FromEnvOrFlagDuration_def FromEnvOrFlag_def FromEnvOrFlagInt_def os_Getenv_def
        flag_int_def flag_str_def no_flags_def defaultReportInterval_def defaultPollInterval_def defaultRateLimit_def Second_def Let_def
        httpjson_New_def)

text \<open>One sample of the memory and one report, which waits in the queue of a single worker.\<close>

abbreviation memory_report :: "Metrics list" where
  "memory_report \<equiv> [gauge_metric ''TotalMemory'' 0, gauge_metric ''FreeMemory'' 0]"

abbreviation sample_and_report :: "agent_event list" where
  "sample_and_report \<equiv> [ASample (CSystem (Some (2, 1)) None), AReport]"

lemma memory_report_run: "agent_Run (\<lambda>x. 0) sample_and_report = [memory_report]"
  by (simp add: agent_Run_def collector_New_def enqueueSnapshot_def collector_Snapshot_def stats_Snapshot_def system_tick_def
        newStats_def stats_SetGauge_def snapshot_items_def TotalMemory_def FreeMemory_def)

lemma memory_report_queued:
  "\<exists>p. agent_reach (\<lambda>x. 0) pub c 1 w0 p sample_and_report \<and> pending_list p = [] \<and>
     ap_sender p = \<lparr>sn_cap = 2, sn_jobs = [memory_report], sn_closed = False, sn_workers = [Idle], sn_w = w0,
       sn_submitted = [memory_report], sn_done = []\<rparr>"
proof -
  define s where "s = \<lparr>sn_cap = 2, sn_jobs = [], sn_closed = False, sn_workers = [Idle], sn_w = w0, sn_submitted = [], sn_done = []\<rparr>"
  have "NewBatchPublisher 1 w0 = Some s" by (simp add: NewBatchPublisher_def s_def)
  from agent_reach.submit [OF agent_reach.tick [OF agent_reach.sample [OF agent_reach.start [OF this], of "\<lambda>x. 0" pub c "CSystem (Some (2, 1)) None"]],
        of memory_report s]
  show ?thesis
    by (fastforce simp: s_def collector_New_def enqueueSnapshot_def collector_Snapshot_def stats_Snapshot_def system_tick_def
          newStats_def stats_SetGauge_def snapshot_items_def TotalMemory_def FreeMemory_def pending_list_def)
qed

theorem agent_reports_everything_witness:
  "\<exists>cfg cl p. agent_main ut_any any_url [] [] = Inr (cfg, cl) \<and>
     agent_reach (\<lambda>x. 0) (http_publisher (plain_env (resp_of 200)) cl (\<lambda>st. 0)) Background (ac_RateLimit cfg) (NewPool [] None, ())
       p sample_and_report \<and> sn_submitted (ap_sender p) = [memory_report]"
proof -
  obtain cfg cl where a: "agent_main ut_any any_url [] [] = Inr (cfg, cl)" and n: "ac_RateLimit cfg = 1"
    using default_agent by blast
  let ?pub = "http_publisher (plain_env (resp_of 200)) cl (\<lambda>st. 0)" and ?w0 = "(NewPool [] None, ()) :: string Pool \<times> unit"
  obtain p where p: "agent_reach (\<lambda>x. 0) ?pub Background 1 ?w0 p sample_and_report" "pending_list p = []"
    using memory_report_queued [of ?pub Background ?w0] by blast
  from agent_reports_everything [OF a, of "\<lambda>x. 0" "plain_env (resp_of 200)" "\<lambda>st. 0" Background ?w0 p sample_and_report] n p memory_report_run
  show ?thesis using a by auto
qed

text \<open>
  a rate limit of \<open>2 ^ 62\<close> is accepted as a configuration, and the agent then panics at its start: the capacity
  of the channel, twice the limit, has wrapped to a negative number.
\<close>

theorem rate_limit_panics:
  "\<exists>cfg cl. agent_main ut_any any_url [(''RATE_LIMIT'', ''4611686018427387904'')] [] = Inr (cfg, cl) \<and>
     NewBatchPublisher (ac_RateLimit cfg) w0 = None"
proof -
  have t: "TrimSpace ''4611686018427387904'' = ''4611686018427387904''"
    by (rule TrimSpace_digits) (simp_all add: is_digit_def)
  have n: "ParseInt ''4611686018427387904'' = Some 4611686018427387904" by (simp add: ParseInt_def is_digit_def Let_def)
  show ?thesis
    by (simp add: agent_main_def LoadAgentConfig_def FromEnvOrFlagDuration_def FromEnvOrFlag_def FromEnvOrFlagInt_def os_Getenv_def
          flag_int_def flag_str_def no_flags_def defaultReportInterval_def defaultPollInterval_def defaultRateLimit_def Second_def
          httpjson_New_def NewBatchPublisher_def t n Let_def)
qed

lemma doGzJSON_ended:
  assumes "\<And>w. he_ctxErr henv w = (w, Some e)" and "\<And>req w. he_Do henv req w = (w, Inl e')"
  shows "snd (fst (doGzJSON henv cl i path pl st)) = snd st"
  using assms
  by (auto simp: doGzJSON_def sendWithRetry_def send_op_def Retry_def Retry_from.simps with_local_def Let_def
        split: prod.splits sum.splits option.splits)

lemma sender_step_ended:
  assumes "\<And>w. he_ctxErr henv w = (w, Some e)" and "\<And>req w. he_Do henv req w = (w, Inl e')"
    and "sender_step (http_publisher henv cl pick) c s t"
  shows "snd (sn_w t) = snd (sn_w s)"
  using assms(3)
proof (induction rule: sender_step.induct)
  case (Batch_ok i s b w)
  with doGzJSON_ended [OF assms(1,2), of cl "pick (sn_w s)" "''/updates''" "Many b" "sn_w s"] show ?case
    by (simp add: http_publisher_def SendBatch_def)
next
  case (Batch_err i s b w x)
  with doGzJSON_ended [OF assms(1,2), of cl "pick (sn_w s)" "''/updates''" "Many b" "sn_w s"] show ?case
    by (simp add: http_publisher_def SendBatch_def)
next
  case (Single i s b m ms w x)
  with doGzJSON_ended [OF assms(1,2), of cl "pick (sn_w s)" "''/update''" "One m" "sn_w s"] show ?case
    by (simp add: http_publisher_def SendOne_def)
qed (simp_all add: set_worker_def finish_worker_def)

text \<open>
  the batches that are still queued when the context ends are not delivered: the workers send with the ended
  context, so that every request fails before it is written (\<open>Do\<close> of \<open>net/http\<close> returns the context's error)
  and no retry follows. However long the pool runs, it takes every batch off the channel and nothing reaches
  the network.
\<close>

theorem shutdown_drops_queue:
  assumes "\<And>w. he_ctxErr henv w = (w, Some e)" and "\<And>req w. he_Do henv req w = (w, Inl e')"
    and "sender_inv s" and "(sender_step (http_publisher henv cl pick) c ^^ k) s t"
    and "list_all (\<lambda>x. x = Exited) (sn_workers t)"
  shows "snd (sn_w t) = snd (sn_w s) \<and> sn_jobs t = [] \<and> mset (sn_done t) = mset (sn_submitted t)"
proof -
  have "snd (sn_w t) = snd (sn_w s)"
    using assms(4) by (induction k arbitrary: t) (auto dest: sender_step_ended [OF assms(1,2)])
  with sender_all_exited [OF sender_run_inv [OF assms(4,3)]] assms(5) show ?thesis by (simp add: list_all_iff)
qed

end
