(* ===== verification/Delivery_Order.thy ===== *)
theory Delivery_Order
  imports Agent
begin

text \<open>
  In which order the batches of the agent reach the server (\<open>Start\<close> and \<open>Submit\<close> of \<open>internal/services/agent/sender.go\<close>).
  With one worker, which is the default \<open>RATE_LIMIT\<close>, the pool is the loop that publishes one submitted batch after the other:
  \<open>one_worker_in_order\<close> relates every reachable state of the step relation to that loop. With two workers a newer
  batch can overtake an older one.
\<close>

section \<open>The body of a worker\<close>

text \<open>What a worker does with a batch, from one receive to the next.\<close>

definition publish_batch :: "'w Publisher \<Rightarrow> go_context \<Rightarrow> Metrics list \<Rightarrow> 'w \<Rightarrow> 'w" where
  "publish_batch pub c batch w =
     (if batch = [] then w
      else case pub_SendBatch pub c batch w of
        (w1, None) \<Rightarrow> w1
      | (w1, Some err) \<Rightarrow> send_singles pub c batch w1)"

definition publish_all :: "'w Publisher \<Rightarrow> go_context \<Rightarrow> Metrics list list \<Rightarrow> 'w \<Rightarrow> 'w" where
  "publish_all pub c batches w = foldl (\<lambda>w b. publish_batch pub c b w) w batches"

lemma publish_all_simps [simp]:
  "publish_all pub c [] w = w" "publish_all pub c (b # bs) w = publish_all pub c bs (publish_batch pub c b w)"
  "publish_all pub c (bs @ bs') w = publish_all pub c bs' (publish_all pub c bs w)"
  by (simp_all add: publish_all_def)

text \<open>The batch a worker is busy with, and the world once it is through with it.\<close>

fun current :: "worker \<Rightarrow> Metrics list list" where
  "current (Sending b) = [b]"
| "current (Fallback b ms) = [b]"
| "current _ = []"

fun wind_up :: "'w Publisher \<Rightarrow> go_context \<Rightarrow> worker \<Rightarrow> 'w \<Rightarrow> 'w" where
  "wind_up pub c (Sending b) w = publish_batch pub c b w"
| "wind_up pub c (Fallback b ms) w = send_singles pub c ms w"
| "wind_up pub c _ w = w"

section \<open>One worker\<close>

definition in_order :: "'w Publisher \<Rightarrow> go_context \<Rightarrow> 'w \<Rightarrow> 'w sender \<Rightarrow> bool" where
  "in_order pub c w0 s \<longleftrightarrow>
     (\<exists>x. sn_workers s = [x] \<and> sn_submitted s = sn_done s @ current x @ sn_jobs s \<and>
        wind_up pub c x (sn_w s) = publish_all pub c (sn_done s @ current x) w0)"

lemma in_order_step: "sender_step pub c s t \<Longrightarrow> in_order pub c w0 s \<Longrightarrow> in_order pub c w0 t"
  by (induction rule: sender_step.induct) (auto simp: in_order_def set_worker_def finish_worker_def publish_batch_def)

lemma in_order_reach:
  assumes "sender_reach pub c n w0 s" and "sint n \<le> 1"
  shows "in_order pub c w0 s"
  using assms
proof (induction rule: sender_reach.induct)
  case (start s)
  then have "sn_workers s = [Idle] \<and> sn_submitted s = [] \<and> sn_done s = [] \<and> sn_jobs s = [] \<and> sn_w s = w0"
    by (cases "sint n < 1") (auto simp: NewBatchPublisher_def Let_def split: if_splits)
  then show ?case by (simp add: in_order_def)
next
  case (step s t)
  then show ?case by (simp add: in_order_step)
qed

section \<open>Properties\<close>

text \<open>
  C13: with one worker (the default limit) the concurrent pool is a sequential loop: in every state it can reach, the
  batches finished, the one being sent and those queued are the submitted ones in their order, and between two
  batches the world is exactly what publishing the finished ones one after the other makes of it: each
  as one batch request, followed by single requests only if that fails.
\<close>

theorem one_worker_in_order:
  assumes "sender_reach pub c n w0 s" and "sint n \<le> 1"
  shows "\<exists>x. sn_workers s = [x] \<and> sn_submitted s = sn_done s @ current x @ sn_jobs s \<and>
    (x \<in> {Idle, Exited} \<longrightarrow> sn_w s = publish_all pub c (sn_done s) w0)"
  using in_order_reach [OF assms] by (auto simp: in_order_def)

text \<open>Two batches, and the states of a pool of \<open>k\<close> workers that has been given them.\<close>

definition two_batches :: "nat \<Rightarrow> Metrics list \<Rightarrow> Metrics list \<Rightarrow> Metrics list list sender" where
  "two_batches k b b' =
     \<lparr>sn_cap = 2 * k, sn_jobs = [b, b'], sn_closed = False, sn_workers = replicate k Idle, sn_w = [],
      sn_submitted = [b, b'], sn_done = []\<rparr>"

lemma two_batches_reached: "sender_reach log_pub c 1 [] (two_batches 1 b b')" "sender_reach log_pub c 2 [] (two_batches 2 b b')"
proof -
  have "sender_reach log_pub c (of_nat k) [] (two_batches k b b')" if "k = 1 \<or> k = 2" for k
  proof -
    let ?s = "(two_batches k b b')\<lparr>sn_jobs := [], sn_submitted := []\<rparr>"
    have "NewBatchPublisher (of_nat k) [] = Some ?s" using that by (auto simp: NewBatchPublisher_def two_batches_def)
    note r = sender_reach.start [OF this, of log_pub c]
    from sender_reach.step [OF r sender_step.Submit [of ?s log_pub c b]] that
    have "sender_reach log_pub c (of_nat k) [] ((two_batches k b b')\<lparr>sn_jobs := [b], sn_submitted := [b]\<rparr>)"
      by (auto simp: two_batches_def)
    from sender_reach.step [OF this sender_step.Submit [of _ log_pub c b']] that show ?thesis by (auto simp: two_batches_def)
  qed
  from this [of 1] this [of 2]
  show "sender_reach log_pub c 1 [] (two_batches 1 b b')" "sender_reach log_pub c 2 [] (two_batches 2 b b')" by simp_all
qed

theorem one_worker_in_order_witness:
  "sn_submitted (two_batches 1 [counter_metric ''c'' 1] []) = [[counter_metric ''c'' 1], []] \<and>
     sn_w (two_batches 1 [counter_metric ''c'' 1] []) = publish_all log_pub Background (sn_done (two_batches 1 [counter_metric ''c'' 1] [])) []"
  using one_worker_in_order [OF two_batches_reached(1), of "[counter_metric ''c'' 1]" "[]"] by (simp add: two_batches_def)

text \<open>
  with two workers a newer report can overtake an older one: both batches are under way at the same time, the
  newer one arrives first, and the older one then puts its gauges back to their old values.
\<close>

theorem two_workers_overtake:
  assumes "b \<noteq> []" and "b' \<noteq> []"
  shows "\<exists>s. sender_reach log_pub c 2 [] s \<and> sn_submitted s = [b, b'] \<and> sn_w s = [b', b] \<and> sn_jobs s = []"
proof -
  let ?s = "two_batches 2 b b'"
  let ?s1 = "?s\<lparr>sn_jobs := [b'], sn_workers := [Sending b, Idle]\<rparr>"
  let ?s2 = "?s\<lparr>sn_jobs := [], sn_workers := [Sending b, Sending b']\<rparr>"
  let ?s3 = "?s2\<lparr>sn_workers := [Sending b, Idle], sn_w := [b'], sn_done := [b']\<rparr>"
  have 1: "sender_step log_pub c ?s ?s1"
    using sender_step.Receive [of 0 ?s b "[b']" log_pub c] by (simp add: two_batches_def set_worker_def eval_nat_numeral)
  have 2: "sender_step log_pub c ?s1 ?s2"
    using sender_step.Receive [of 1 ?s1 b' "[]" log_pub c] by (simp add: two_batches_def set_worker_def)
  have 3: "sender_step log_pub c ?s2 ?s3"
    using sender_step.Batch_ok [of 1 ?s2 b' log_pub c "[b']"] assms by (simp add: two_batches_def set_worker_def finish_worker_def)
  have 4: "sender_step log_pub c ?s3 (?s3\<lparr>sn_workers := [Idle, Idle], sn_w := [b', b], sn_done := [b', b]\<rparr>)"
    using sender_step.Batch_ok [of 0 ?s3 b log_pub c "[b', b]"] assms by (simp add: two_batches_def set_worker_def finish_worker_def)
  have "sender_reach log_pub c 2 [] (?s3\<lparr>sn_workers := [Idle, Idle], sn_w := [b', b], sn_done := [b', b]\<rparr>)"
    by (rule sender_reach.step [OF sender_reach.step [OF sender_reach.step [OF sender_reach.step [OF two_batches_reached(2) 1] 2] 3] 4])
  then show ?thesis by (intro exI conjI) (assumption, simp_all add: two_batches_def)
qed

theorem two_workers_overtake_witness:
  "\<exists>s. sender_reach log_pub Background 2 [] s \<and> sn_w s = [[gauge_metric ''g'' 2], [gauge_metric ''g'' 1]]"
  using two_workers_overtake [of "[gauge_metric ''g'' 1]" "[gauge_metric ''g'' 2]" Background] by blast

end
