(* ===== verification/Agent_Server.thy ===== *)
theory Agent_Server
  imports Server_Main Agent_Main Delivery_Order
begin

text \<open>
  The agent and the server put together: what the server's middlewares and handlers make of a request that the agent's
  client has sent, and a network that hands every request to the server (\<open>serve\<close>: the middlewares and the router as
  \<open>run\<close> of \<open>cmd/server/main.go\<close> composes them) and the answer back.

  Assumed of the libraries, and written out where it is used: the server's gzip reader inverts the agent's gzip
  writer, decoding a JSON text gives the members that were encoded, gin renders a JSON reply as a status, a content
  type and one write, and the agent's gzip reader inverts the server's gzip writer.
\<close>

section \<open>Requests of the agent at the server\<close>

text \<open>What the server's HTTP library makes of a request the agent's one has sent.\<close>

definition received :: "http_request \<Rightarrow> mw_request" where
  "received req = \<lparr>mq_method = req_method req, mq_uri = req_url req, mq_headers = req_headers req, mq_body = Inr (req_body req)\<rparr>"

text \<open>The signed answer, if the server has a key.\<close>

definition signed :: "(string \<Rightarrow> string) \<Rightarrow> string \<Rightarrow> wcall list \<Rightarrow> wcall list" where
  "signed sha256 key calls = (if key = '''' then calls else bw_finish sha256 key (foldl bw_call bw_new calls))"

lemma EqualFold_refl [simp]: "EqualFold s s"
  by (simp add: EqualFold_def)

lemma HashSHA256_accepts:
  assumes "mq_body r = Inr body"
    and "GetHeader r ''HashSHA256'' = (if TrimSpace key = '''' then '''' else SumSHA256 sha256 body (TrimSpace key))"
  shows "HashSHA256 sha256 abortJSON key r handler = signed sha256 (TrimSpace key) (handler r)"
proof -
  have same: "r\<lparr>mq_body := Inr body\<rparr> = r" using assms(1) by (cases r) simp
  from assms show ?thesis by (auto simp: HashSHA256_def hash_check_def signed_def Let_def same)
qed

lemma GzipRequest_unpacks:
  assumes "GetHeader r ''Content-Encoding'' = ''gzip''" and "NewReader (mq_body r) = Inr body"
  shows "GzipRequest NewReader abort r nxt = nxt (r\<lparr>mq_body := body, mq_headers := AList.delete ''Content-Length'' (mq_headers r)\<rparr>)"
proof -
  have "Contains (ToLower ''gzip'') ''gzip''" by code_simp
  with assms show ?thesis by (simp add: GzipRequest_def)
qed

lemma GetHeader_delete: "k \<noteq> k' \<Longrightarrow> GetHeader (r\<lparr>mq_body := b, mq_headers := AList.delete k' (mq_headers r)\<rparr>) k = GetHeader r k"
  by (simp add: GetHeader_def delete_conv')

lemma accepted_request:
  assumes req: "he_gz = Inr (req_body req)" "map_of (req_headers req) ''Content-Encoding'' = Some ''gzip''"
    and hash: "GetHeader (received req) ''HashSHA256'' = (if TrimSpace key = '''' then '''' else SumSHA256 (me_sha256 me) plain (TrimSpace key))"
    and gzip: "\<forall>z. he_gz = Inr z \<longrightarrow> me_NewReader me (Inr z) = Inr (Inr plain)"
    and r: "r = (received req)\<lparr>mq_body := Inr plain, mq_headers := AList.delete ''Content-Length'' (mq_headers (received req))\<rparr>"
  shows "fst (server_chain me key st0 (received req) handler) =
      GzipResponse (me_gzHead me) (me_gzTail me) st0 r (\<lambda>r. signed (me_sha256 me) (TrimSpace key) (handler r))"
proof -
  have "me_NewReader me (mq_body (received req)) = Inr (Inr plain)" using req(1) gzip by (simp add: received_def)
  moreover have "GetHeader (received req) ''Content-Encoding'' = ''gzip''" using req(2) by (simp add: received_def GetHeader_def)
  ultimately have unpack: "GzipRequest (me_NewReader me) (me_abortStatus me) (received req) nxt = nxt r" for nxt
    using GzipRequest_unpacks r by metis
  have "HashSHA256 (me_sha256 me) (me_abortJSON me) key r handler = signed (me_sha256 me) (TrimSpace key) (handler r)"
    by (rule HashSHA256_accepts) (simp_all add: r GetHeader_delete hash)
  then show ?thesis by (simp add: server_chain_def ZapLogger_def unpack GzipResponse_def Let_def)
qed

text \<open>The requests of one call of the publisher, seen from the handlers.\<close>

lemma request_reaches_handler:
  assumes client: "httpjson_New url_Parse addr key = Inr cl"
    and sent: "doGzJSON (logged env) cl i path p (pl, (w, [])) = ((pl', (w', log)), x)" "req \<in> set log"
    and sha: "he_sha256 env = me_sha256 me"
    and gzip: "\<forall>z. he_gzClose env (he_json env p) = Inr z \<longrightarrow> me_NewReader me (Inr z) = Inr (Inr (he_json env p))"
  shows "\<exists>r. mq_body r = Inr (he_json env p) \<and> mq_method r = ''POST'' \<and> mq_uri r = endpoint env cl path \<and>
    fst (server_chain me key st0 (received req) handler) =
      GzipResponse (me_gzHead me) (me_gzTail me) st0 r (\<lambda>r. signed (me_sha256 me) (TrimSpace key) (handler r))"
proof -
  have key: "cl_key cl = TrimSpace key" using client by (auto simp: httpjson_New_def split: sum.splits)
  have req: "req_method req = ''POST''" "req_url req = endpoint env cl path" "he_gzClose env (he_json env p) = Inr (req_body req)"
      "map_of (req_headers req) ''Content-Encoding'' = Some ''gzip''"
      "GetHeader (received req) ''HashSHA256'' = (if TrimSpace key = '''' then '''' else SumSHA256 (me_sha256 me) (he_json env p) (TrimSpace key))"
    using doGzJSON_log [OF sent(1)] sent(2) by (auto simp: Let_def key sha received_def GetHeader_def)
  let ?r = "(received req)\<lparr>mq_body := Inr (he_json env p), mq_headers := AList.delete ''Content-Length'' (mq_headers (received req))\<rparr>"
  from accepted_request [OF req(3,4,5) gzip refl, of st0 handler] req(1,2) show ?thesis
    by (intro exI [of _ ?r]) (simp add: received_def)
qed

section \<open>Reports at the handlers\<close>

text \<open>
  The members that \<open>encoding/json\<close> writes for a metric: pointers that are nil are left out (\<open>omitempty\<close>).
\<close>

definition json_patch :: "Metrics \<Rightarrow> patch" where
  "json_patch m =
     \<lparr>p_id = Is (ID m), p_type = Is (MType m),
      p_delta = (case Delta m of None \<Rightarrow> Absent | Some d \<Rightarrow> Is d),
      p_value = (case Value m of None \<Rightarrow> Absent | Some v \<Rightarrow> Is v)\<rparr>"

lemma decode_json_patch: "decode_slice (map json_patch ms) [] = ms"
  by (induction ms)
    (auto simp: decode_into_def json_patch_def zero_metric_def set_string_def set_pointer_def split: option.split)

lemma snapshot_self_contained: "list_all self_contained (map json_patch (snapshot_items g cs))"
  by (auto simp: snapshot_items_def list_all_iff self_contained_def json_patch_def gauge_metric_def counter_metric_def)

lemma batch_handler_stores:
  assumes "svc_repo s = memory_repo" and "mem_inv (w_repo w)" and "valid_items (snapshot_items g cs) \<noteq> []"
    and "dec body = (map json_patch (snapshot_items g cs), None)"
  shows "\<exists>pl' w'. UpdateMetricsBatchJSON dec j s ctx ip body (pl, w) =
       ((pl', w'), ReplyJSON 200 (JUpdated (length (valid_items (snapshot_items g cs))))) \<and> mem_inv (w_repo w') \<and>
     mem_gauge_of (w_repo w') = spec_gauges (valid_items (snapshot_items g cs)) (mem_gauge_of (w_repo w)) \<and>
     mem_counter_of (w_repo w') = spec_counters (valid_items (snapshot_items g cs)) (mem_counter_of (w_repo w))"
proof -
  let ?b = "snapshot_items g cs" and ?c = "WithClientIP ctx ip"
  obtain pl1 buf where g: "Pool_Get j pl = (pl1, buf)" by fastforce
  have "svc_UpsertBatch s ?c (decode_slice (map json_patch ?b) buf) w = svc_UpsertBatch s ?c ?b w"
    using UpsertBatch_effect [OF assms(1) decode_slice_effect [OF snapshot_self_contained], of ?c g cs buf w "[]"]
    by (simp add: decode_json_patch)
  with mem.UpsertBatch_applies [OF assms(1-3), of ?c] g assms(4) show ?thesis
    by (auto simp: UpdateMetricsBatchJSON_def decodeMetricsBatch_def cloneMetrics_def Let_def)
qed

section \<open>The server behind a network\<close>

text \<open>The request as the handlers get it; \<open>None\<close> if a middleware answers in their place.\<close>

definition reached :: "mw_env \<Rightarrow> string \<Rightarrow> mw_request \<Rightarrow> mw_request option" where
  "reached me key r =
     (case (if Contains (ToLower (GetHeader r ''Content-Encoding'')) ''gzip'' then
              (case me_NewReader me (mq_body r) of
                 Inl err \<Rightarrow> None
               | Inr body \<Rightarrow> Some (r\<lparr>mq_body := body, mq_headers := AList.delete ''Content-Length'' (mq_headers r)\<rparr>))
            else Some r) of
        None \<Rightarrow> None
      | Some r1 \<Rightarrow>
          (if TrimSpace key = '''' then Some r1
           else case hash_check (me_sha256 me) (me_abortJSON me) (TrimSpace key) r1 of Inl calls \<Rightarrow> None | Inr r2 \<Rightarrow> Some r2))"

text \<open>The chain calls the handlers at most once, with that request.\<close>

lemma chain_reached:
  assumes "\<And>r'. reached me key r = Some r' \<Longrightarrow> handler r' = handler' r'"
  shows "server_chain me key st0 r handler = server_chain me key st0 r handler'"
  using assms
  by (auto simp: server_chain_def ZapLogger_def GzipRequest_def GzipResponse_def HashSHA256_def reached_def Let_def
      split: sum.splits if_splits)

text \<open>
  One request to the server: the middlewares around the router; \<open>render\<close> is how gin writes a reply. Before anything
  is written the status is 200, and 404 or 405 where no route matches.
\<close>

definition initial_status :: "http_env \<Rightarrow> mw_request \<Rightarrow> nat" where
  "initial_status henv r =
     (case hv_match henv NewRouter (mq_method r) (mq_uri r) of Matched h ps \<Rightarrow> 200 | WrongMethod \<Rightarrow> 405 | NoRoute \<Rightarrow> 404)"

definition serve ::
  "mw_env \<Rightarrow> string \<Rightarrow> http_env \<Rightarrow> (reply \<Rightarrow> wcall list) \<Rightarrow> ('r, 'w) Service \<Rightarrow> go_context \<Rightarrow> string \<Rightarrow> nat \<Rightarrow>
   mw_request \<Rightarrow> ('r, 'w) http_state \<Rightarrow> ('r, 'w) http_state \<times> wstate" where
  "serve me key henv render s ctx ip i r st =
     ((case reached me key r of None \<Rightarrow> st | Some r' \<Rightarrow> fst (route henv s ctx ip i r' st)),
      sent (initial_status henv r)
        (fst (server_chain me key (initial_status henv r) r
           (\<lambda>r'. case snd (route henv s ctx ip i r' st) of None \<Rightarrow> [] | Some x \<Rightarrow> render x))))"

text \<open>
  What the agent's HTTP library makes of an answer: the status, the coding header, and the outcome of reading the
  body, plain or through \<open>gzip.NewReader\<close> (\<open>NewReader\<close>, which fails on the first bytes or later). The agent asks for
  gzip itself, so the library leaves the body as it came.
\<close>

definition client_view :: "(go_error + string \<Rightarrow> go_error + (go_error + string)) \<Rightarrow> (nat \<Rightarrow> string) \<Rightarrow> wstate \<Rightarrow> http_response" where
  "client_view NewReader status_text ws =
     (let zr = NewReader (Inr (ws_body ws)) in
      \<lparr>rs_status = ws_status ws, rs_status_text = status_text (ws_status ws),
       rs_encoding = (case map_of (ws_headers ws) ''Content-Encoding'' of Some v \<Rightarrow> v | None \<Rightarrow> ''''),
       rs_gzip = (case zr of Inl e \<Rightarrow> Some e | Inr _ \<Rightarrow> None),
       rs_copy = (\<lambda>z. if z then (case zr of Inr (Inl e) \<Rightarrow> Some e | _ \<Rightarrow> None) else None),
       rs_close = None\<rparr>)"

lemma drain_compressed:
  assumes "map_of (ws_headers ws) ''Content-Encoding'' = Some ''gzip''" and "NewReader (Inr (ws_body ws)) = Inr (Inr d)"
  shows "drainAndDiscard (client_view NewReader status_text ws) = None"
proof -
  have "Contains (ToLower ''gzip'') ''gzip''" by code_simp
  with assms show ?thesis by (simp add: drainAndDiscard_def client_view_def)
qed

text \<open>A network that loses nothing; \<open>view\<close> is what the agent's library makes of an answer.\<close>

definition loop_Do :: "(mw_request \<Rightarrow> 's \<Rightarrow> 's \<times> wstate) \<Rightarrow> (wstate \<Rightarrow> http_response) \<Rightarrow> http_request \<Rightarrow> 's \<Rightarrow> 's \<times> (go_error + http_response)" where
  "loop_Do srv view req w = (case srv (received req) w of (w', ws) \<Rightarrow> (w', Inr (view ws)))"

text \<open>What is assumed of the libraries for one batch, and for the connection of agent and server.\<close>

definition carries :: "'w httpjson_env \<Rightarrow> mw_env \<Rightarrow> http_env \<Rightarrow> Metrics list \<Rightarrow> bool" where
  "carries env me henv b \<longleftrightarrow>
     (let text = he_json env (Many b) in
      \<not> list_ex json_refuses b \<and> he_gzWrite env text = None \<and>
      (\<exists>z. he_gzClose env text = Inr z \<and> me_NewReader me (Inr z) = Inr (Inr text)) \<and>
      hv_decodeBatch henv text = (map json_patch b, None))"

definition connected ::
  "'w httpjson_env \<Rightarrow> mw_env \<Rightarrow> http_env \<Rightarrow> (reply \<Rightarrow> wcall list) \<Rightarrow>
   (go_error + string \<Rightarrow> go_error + (go_error + string)) \<Rightarrow> Client \<Rightarrow> string \<Rightarrow> bool" where
  "connected env me henv render NewReader cl key \<longleftrightarrow>
     cl_key cl = TrimSpace key \<and> he_sha256 env = me_sha256 me \<and> he_newRequest env (endpoint env cl ''/updates'') = None \<and>
     (\<exists>ps. hv_match henv NewRouter ''POST'' (endpoint env cl ''/updates'') = Matched HUpdateMetricsBatchJSON ps) \<and>
     (\<forall>v. \<exists>t. render (ReplyJSON 200 v) =
        [WWriteHeader 200, WSetHeader ''Content-Type'' ''application/json; charset=utf-8'', WWrite t]) \<and>
     (\<forall>d. NewReader (Inr (me_gzHead me @ me_gzTail me d)) = Inr (Inr d))"

lemma signed_compressible:
  assumes "s = sent st0 (signed h key [WWriteHeader 200, WSetHeader ''Content-Type'' ''application/json; charset=utf-8'', WWrite t])"
  shows "ws_status s = 200" and "ws_written s" and "compressible s"
proof -
  have "HasPrefix ''application/json; charset=utf-8'' ''application/json''" by code_simp
  with assms show "ws_status s = 200" and "ws_written s" and "compressible s"
    by (auto simp: signed_def bw_finish_def bw_new_def sent_def wstart_def compressible_def)
qed

lemma reached_accepted:
  assumes "map_of (req_headers req) ''Content-Encoding'' = Some ''gzip''" and "me_NewReader me (Inr (req_body req)) = Inr (Inr plain)"
    and hash: "GetHeader (received req) ''HashSHA256'' = (if TrimSpace key = '''' then '''' else SumSHA256 (me_sha256 me) plain (TrimSpace key))"
    and r: "r = (received req)\<lparr>mq_body := Inr plain, mq_headers := AList.delete ''Content-Length'' (mq_headers (received req))\<rparr>"
  shows "reached me key (received req) = Some r"
proof -
  have gz: "Contains (ToLower ''gzip'') ''gzip''" by code_simp
  have "GetHeader (received req) ''Content-Encoding'' = ''gzip''" using assms(1) by (simp add: received_def GetHeader_def)
  moreover have "me_NewReader me (mq_body (received req)) = Inr (Inr plain)" using assms(2) by (simp add: received_def)
  moreover have "GetHeader r ''HashSHA256'' = GetHeader (received req) ''HashSHA256''" by (simp add: r GetHeader_delete)
  moreover have "r\<lparr>mq_body := Inr plain\<rparr> = r" "mq_body r = Inr plain" by (simp_all add: r)
  ultimately show ?thesis using gz hash by (simp add: reached_def hash_check_def Let_def r [symmetric])
qed

text \<open>The server answers a report with 200 and stores it.\<close>

lemma serve_report:
  assumes conn: "connected env me henv render NewReader cl key" and carried: "carries env me henv (snapshot_items g cs)"
    and server: "svc_repo s = memory_repo" "mem_inv (w_repo w)" "valid_items (snapshot_items g cs) \<noteq> []"
    and req: "newGzJSONRequest env cl ''/updates'' z
      (if cl_key cl \<noteq> '''' then SumSHA256 (he_sha256 env) (he_json env (Many (snapshot_items g cs))) (cl_key cl) else '''') = Inr req"
    and z: "he_gzClose env (he_json env (Many (snapshot_items g cs))) = Inr z"
  shows "\<exists>pool' w' ws. serve me key henv render s ctx ip i (received req) (pool, w) = ((pool', w'), ws) \<and> ws_status ws = 200 \<and>
    drainAndDiscard (client_view NewReader status_text ws) = None \<and> mem_inv (w_repo w') \<and>
    mem_gauge_of (w_repo w') = spec_gauges (valid_items (snapshot_items g cs)) (mem_gauge_of (w_repo w)) \<and>
    mem_counter_of (w_repo w') = spec_counters (valid_items (snapshot_items g cs)) (mem_counter_of (w_repo w))"
proof -
  let ?plain = "he_json env (Many (snapshot_items g cs))"
  define r where "r = (received req)\<lparr>mq_body := Inr ?plain, mq_headers := AList.delete ''Content-Length'' (mq_headers (received req))\<rparr>"
  note ok = newGzJSONRequest_ok [OF req]
  from conn have key: "cl_key cl = TrimSpace key" and sha: "he_sha256 env = me_sha256 me" by (simp_all add: connected_def)
  obtain ps where route: "hv_match henv NewRouter ''POST'' (endpoint env cl ''/updates'') = Matched HUpdateMetricsBatchJSON ps"
    using conn by (auto simp: connected_def)
  have hash: "GetHeader (received req) ''HashSHA256'' = (if TrimSpace key = '''' then '''' else SumSHA256 (me_sha256 me) ?plain (TrimSpace key))"
    using ok(5) by (auto simp: received_def GetHeader_def key sha)
  have reader: "me_NewReader me (Inr z) = Inr (Inr ?plain)" and dec: "hv_decodeBatch henv ?plain = (map json_patch (snapshot_items g cs), None)"
    using carried z by (auto simp: carries_def Let_def)
  have body: "me_NewReader me (Inr (req_body req)) = Inr (Inr ?plain)" using reader ok(3) by simp
  have chain: "fst (server_chain me key st0 (received req) handler) =
      GzipResponse (me_gzHead me) (me_gzTail me) st0 r (\<lambda>r. signed (me_sha256 me) (TrimSpace key) (handler r))" for st0 handler
    by (rule accepted_request [of "Inr z", OF _ ok(4) hash _ r_def]) (use ok(3) reader in simp_all)
  have arrives: "reached me key (received req) = Some r" by (rule reached_accepted [OF ok(4) body hash r_def])
  have r: "mq_method r = ''POST''" "mq_uri r = endpoint env cl ''/updates''" "mq_body r = Inr ?plain"
    using ok(1,2) by (simp_all add: r_def received_def)
  have "on_body (hv_decodeBatch henv) [] (mq_body r) '''' = (map json_patch (snapshot_items g cs), None)"
    by (simp add: on_body_def r dec)
  from batch_handler_stores [where dec = "on_body (hv_decodeBatch henv) [] (mq_body r)", OF server this, of i ctx ip pool]
  obtain pool' w' n where run: "UpdateMetricsBatchJSON (on_body (hv_decodeBatch henv) [] (mq_body r)) i s ctx ip '''' (pool, w) =
        ((pool', w'), ReplyJSON 200 (JUpdated n))"
    and stored: "mem_inv (w_repo w')" "mem_gauge_of (w_repo w') = spec_gauges (valid_items (snapshot_items g cs)) (mem_gauge_of (w_repo w))"
      "mem_counter_of (w_repo w') = spec_counters (valid_items (snapshot_items g cs)) (mem_counter_of (w_repo w))"
    by blast
  have routed: "route henv s ctx ip i r (pool, w) = ((pool', w'), Some (ReplyJSON 200 (JUpdated n)))"
    using run by (simp add: route_def r(1,2) route handle_def Let_def)
  have st0: "initial_status henv (received req) = 200" using ok(1,2) by (simp add: initial_status_def received_def route)
  obtain t where render: "render (ReplyJSON 200 (JUpdated n)) = [WWriteHeader 200, WSetHeader ''Content-Type'' ''application/json; charset=utf-8'', WWrite t]"
    using conn by (auto simp: connected_def)
  obtain ws where ws: "serve me key henv render s ctx ip i (received req) (pool, w) = ((pool', w'), ws)"
      "ws = sent 200 (GzipResponse (me_gzHead me) (me_gzTail me) 200 r (\<lambda>r'. signed (me_sha256 me) (TrimSpace key)
         (case snd (route henv s ctx ip i r' (pool, w)) of None \<Rightarrow> [] | Some x \<Rightarrow> render x)))"
    by (simp add: serve_def arrives routed st0 chain)
  have accept: "Contains (ToLower (GetHeader r ''Accept-Encoding'')) ''gzip''"
  proof -
    have "GetHeader r ''Accept-Encoding'' = ''gzip''"
      using ok(6) by (simp add: r_def GetHeader_delete) (simp add: GetHeader_def received_def)
    moreover have "Contains (ToLower ''gzip'') ''gzip''" by code_simp
    ultimately show ?thesis by simp
  qed
  note signed = signed_compressible [OF refl, of 200 "me_sha256 me" "TrimSpace key" t]
  have answer: "ws_status ws = 200" "\<exists>d. ws_body ws = me_gzHead me @ me_gzTail me d" "map_of (ws_headers ws) ''Content-Encoding'' = Some ''gzip''"
    using GzipResponse_sent [of 200 _ r "me_gzHead me" "me_gzTail me"] accept signed
    by (auto simp: ws(2) Let_def routed render gzip_headers_def)
  have "drainAndDiscard (client_view NewReader status_text ws) = None"
    using answer(2) conn drain_compressed [OF answer(3)] by (auto simp: connected_def)
  with ws(1) answer(1) stored show ?thesis by blast
qed

text \<open>So \<open>SendBatch\<close> of the agent succeeds at its first request.\<close>

lemma SendBatch_stored:
  assumes conn: "connected env me henv render NewReader cl key" and net: "he_Do env = loop_Do (serve me key henv render s ctx ip i) (client_view NewReader status_text)"
    and carried: "carries env me henv (snapshot_items g cs)"
    and server: "svc_repo s = memory_repo" "mem_inv (w_repo w)" "valid_items (snapshot_items g cs) \<noteq> []"
  shows "\<exists>pl' pool' w'. SendBatch env cl j (snapshot_items g cs) (pl, (pool, w)) = ((pl', (pool', w')), None) \<and> mem_inv (w_repo w') \<and>
    mem_gauge_of (w_repo w') = spec_gauges (valid_items (snapshot_items g cs)) (mem_gauge_of (w_repo w)) \<and>
    mem_counter_of (w_repo w') = spec_counters (valid_items (snapshot_items g cs)) (mem_counter_of (w_repo w))"
proof -
  let ?b = "snapshot_items g cs"
  let ?plain = "he_json env (Many ?b)"
  let ?h = "if cl_key cl \<noteq> '''' then SumSHA256 (he_sha256 env) ?plain (cl_key cl) else ''''"
  obtain z where z: "he_gzClose env ?plain = Inr z" and gz: "he_gzWrite env ?plain = None" "\<not> list_ex json_refuses ?b"
    using carried by (auto simp: carries_def Let_def)
  obtain req where req: "newGzJSONRequest env cl ''/updates'' z ?h = Inr req"
    using conn by (simp add: connected_def newGzJSONRequest_def Let_def)
  let ?view = "client_view NewReader status_text"
  from serve_report [OF conn carried server req z, of ctx ip i pool status_text] obtain pool' w' ws where
    srv: "serve me key henv render s ctx ip i (received req) (pool, w) = ((pool', w'), ws)" "ws_status ws = 200" "drainAndDiscard (client_view NewReader status_text ws) = None"
    and stored: "mem_inv (w_repo w')" "mem_gauge_of (w_repo w') = spec_gauges (valid_items ?b) (mem_gauge_of (w_repo w))"
      "mem_counter_of (w_repo w') = spec_counters (valid_items ?b) (mem_counter_of (w_repo w))"
    by blast
  have view: "rs_status (?view ws) = 200" "drainAndDiscard (?view ws) = None" "rs_close (?view ws) = None"
    using srv(2,3) by (simp_all add: client_view_def Let_def)
  obtain pl1 got where pl1: "Pool_Get j pl = (pl1, got)" by fastforce
  have gzip: "gzipBytes env j ?plain pl = (pl1, Inr z)" using pl1 z gz by (simp add: gzipBytes_def)
  have "send_op env (Inr req) ((pool, w), None) = (((pool', w'), Some (?view ws)), None)"
    by (simp add: send_op_def net loop_Do_def srv)
  from Retry_ok_first [where operation = "send_op env (Inr req)", OF this]
  have send: "sendWithRetry env (Inr req) (pool, w) = ((pool', w'), Inr (Some (?view ws)))" by (simp add: sendWithRetry_def)
  have "?b \<noteq> []" using server(3) by auto
  then have "SendBatch env cl j ?b (pl, (pool, w)) = ((payload_Release z pl1, (pool', w')), None)"
    using gzip gz(2) send req view by (simp add: SendBatch_def doGzJSON_def marshalJSON_def checkHTTPStatus_def Let_def)
  with stored show ?thesis by blast
qed

section \<open>Reports of the collector\<close>

lemma plain_valid:
  assumes "\<forall>k \<in> fst ` set g \<union> fst ` set cs. plain_name k"
  shows "valid_items (snapshot_items g cs) = snapshot_items g cs"
proof (rule valid_items_all, rule ballI)
  fix m assume m: "m \<in> set (snapshot_items g cs)"
  then have "plain_name (ID m)" using assms by (auto simp: snapshot_items_def gauge_metric_def counter_metric_def rev_image_eqI)
  then have "TrimSpace (ID m) = ID m" "ID m \<noteq> ''''" using TrimSpace_visible by (auto simp: plain_name_def)
  with m show "valid_item m = Some m"
    by (auto simp: snapshot_items_def valid_item_def gauge_metric_def counter_metric_def)
qed

definition report_of :: "Metrics list \<Rightarrow> bool" where
  "report_of b \<longleftrightarrow> b \<noteq> [] \<and> valid_items b = b \<and> (\<exists>g cs. b = snapshot_items g cs)"

lemma enqueueSnapshot_report:
  assumes "stats_ok (col_st col)" and "plain_stats (col_st col)" and "enqueueSnapshot (collector_Snapshot col) = Some b"
  shows "report_of b"
proof -
  obtain g cs where snap: "collector_Snapshot col = (g, cs)" by fastforce
  with assms(3) have b: "b = snapshot_items g cs" "g \<noteq> [] \<or> cs \<noteq> []" by (auto simp: enqueueSnapshot_def split: if_splits)
  have "map_of g = map_of (st_gauges (col_st col))" "map_of cs = map_of (st_counters (col_st col))"
    using snap assms(1) by (auto simp: collector_Snapshot_def stats_Snapshot_def stats_ok_def)
  then have "\<forall>k \<in> fst ` set g \<union> fst ` set cs. plain_name k"
    using assms(2) by (metis dom_map_of_conv_image_fst plain_stats_def)
  from plain_valid [OF this] b show ?thesis by (auto simp: report_of_def snapshot_items_def)
qed

lemma agent_loop_reports:
  "stats_ok (col_st col) \<Longrightarrow> plain_stats (col_st col) \<Longrightarrow> b \<in> set (agent_loop f col es) \<Longrightarrow> report_of b"
proof (induction f col es rule: agent_loop.induct)
  case (2 f col e es)
  have "stats_ok (col_st (col_step f col e))" using col_run_ok [OF 2(2), of f "[e]"] by simp
  with 2 plain_step show ?case by simp
next
  case (3 f col es)
  then show ?case using enqueueSnapshot_report by (auto split: option.splits)
qed simp

lemma agent_Run_reports: "b \<in> set (agent_Run f es) \<Longrightarrow> report_of b"
  unfolding agent_Run_def
  by (rule agent_loop_reports) (auto simp: New_ok plain_stats_def collector_New_def newStats_def stats_ok_def)

section \<open>The whole system\<close>

lemma publish_report:
  assumes conn: "connected env me henv render NewReader cl key" and net: "he_Do env = loop_Do (serve me key henv render s ctx ip i) (client_view NewReader status_text)"
    and server: "svc_repo s = memory_repo" "mem_inv (w_repo w)" and b: "carries env me henv b" "report_of b"
  shows "\<exists>pl' pool' w'. publish_batch (http_publisher env cl pick) c b (pl, (pool, w)) = (pl', (pool', w')) \<and> mem_inv (w_repo w') \<and>
    mem_gauge_of (w_repo w') = spec_gauges b (mem_gauge_of (w_repo w)) \<and> mem_counter_of (w_repo w') = spec_counters b (mem_counter_of (w_repo w))"
proof -
  from b(2) obtain g cs where g: "b = snapshot_items g cs" and v: "b \<noteq> []" "valid_items b = b" by (auto simp: report_of_def)
  from SendBatch_stored [OF conn net b(1) [unfolded g] server] v g
  have "\<exists>pl' pool' w'. SendBatch env cl (pick (pl, (pool, w))) b (pl, (pool, w)) = ((pl', (pool', w')), None) \<and> mem_inv (w_repo w') \<and>
      mem_gauge_of (w_repo w') = spec_gauges b (mem_gauge_of (w_repo w)) \<and> mem_counter_of (w_repo w') = spec_counters b (mem_counter_of (w_repo w))"
    by simp
  with v show ?thesis by (auto simp: publish_batch_def http_publisher_def)
qed

lemma publish_reports:
  assumes conn: "connected env me henv render NewReader cl key" and net: "he_Do env = loop_Do (serve me key henv render s ctx ip i) (client_view NewReader status_text)"
    and server: "svc_repo s = memory_repo"
  shows "mem_inv (w_repo w) \<Longrightarrow> \<forall>b \<in> set bs. carries env me henv b \<and> report_of b \<Longrightarrow>
    \<exists>pl' pool' w'. publish_all (http_publisher env cl pick) c bs (pl, (pool, w)) = (pl', (pool', w')) \<and>
      mem_gauge_of (w_repo w') = spec_gauges (concat bs) (mem_gauge_of (w_repo w)) \<and>
      mem_counter_of (w_repo w') = spec_counters (concat bs) (mem_counter_of (w_repo w))"
proof (induction bs arbitrary: pl pool w)
  case (Cons b bs)
  then obtain pl1 pool1 w1 where first: "publish_batch (http_publisher env cl pick) c b (pl, (pool, w)) = (pl1, (pool1, w1))" "mem_inv (w_repo w1)"
      "mem_gauge_of (w_repo w1) = spec_gauges b (mem_gauge_of (w_repo w))" "mem_counter_of (w_repo w1) = spec_counters b (mem_counter_of (w_repo w))"
    using publish_report [OF conn net server, of w b pick c pl pool] by auto
  from Cons.IH [OF first(2), of pl1 pool1] Cons.prems(2) first show ?case by (simp add: spec_gauges_append spec_counters_append)
qed simp

lemma system_at_rest:
  assumes conn: "connected env me henv render NewReader cl key" and net: "he_Do env = loop_Do (serve me key henv render s ctx ip i) (client_view NewReader status_text)"
    and server: "svc_repo s = memory_repo" "mem_inv (w_repo w)"
    and carried: "\<forall>b \<in> set (agent_Run f es). carries env me henv b"
    and run: "agent_reach f (http_publisher env cl pick) c n (pl, (pool, w)) p es" and one: "sint n \<le> 1"
    and rest: "pending_list p = []" "sn_jobs (ap_sender p) = []" "\<forall>x \<in> set (sn_workers (ap_sender p)). x \<in> {Idle, Exited}"
  shows "\<exists>pl' pool' w'. sn_w (ap_sender p) = (pl', (pool', w')) \<and>
    mem_gauge_of (w_repo w') = spec_gauges (concat (agent_Run f es)) (mem_gauge_of (w_repo w)) \<and>
    mem_counter_of (w_repo w') = spec_counters (concat (agent_Run f es)) (mem_counter_of (w_repo w))"
proof -
  note inv = agent_reach_inv [OF run, unfolded agent_inv_def]
  have "in_order (http_publisher env cl pick) c (pl, (pool, w)) (ap_sender p)" by (rule in_order_reach [OF conjunct1 [OF inv] one])
  then obtain x where x: "sn_workers (ap_sender p) = [x]" "sn_submitted (ap_sender p) = sn_done (ap_sender p) @ current x @ sn_jobs (ap_sender p)"
      "wind_up (http_publisher env cl pick) c x (sn_w (ap_sender p)) =
         publish_all (http_publisher env cl pick) c (sn_done (ap_sender p) @ current x) (pl, (pool, w))"
    by (auto simp: in_order_def)
  with rest(3) have "current x = []" "wind_up (http_publisher env cl pick) c x (sn_w (ap_sender p)) = sn_w (ap_sender p)" by auto
  with x inv rest(1,2) have "sn_w (ap_sender p) = publish_all (http_publisher env cl pick) c (agent_Run f es) (pl, (pool, w))" by simp
  with publish_reports [OF conn net server(1,2), of "agent_Run f es" pick c pl pool] carried agent_Run_reports show ?thesis by auto
qed

end
