(* ===== verification/Reset_Gen.thy ===== *)
theory Reset_Gen
  imports Filesystem
begin

text \<open>
  The code generator for \<open>Reset\<close> methods (\<open>cmd/reset\<close>): finding the module root, choosing the marked
  structs, import aliases, emitting the methods, and rewriting \<open>reset.gen.go\<close> in every package.

  What the generator learns from \<open>golang.org/x/tools/go/packages\<close> and \<open>go/types\<close> is data: packages with
  their declarations and method sets, types with the names they mention. \<open>go/format\<close> and the printing of
  a type are arguments. Go types may refer to themselves through pointers, so a named type is a
  reference into an environment of underlying types, and the two mutually recursive emitters, which the
  source leaves to the stack, run on fuel: \<open>None\<close> means that the recursion is deeper than the fuel.
\<close>

section \<open>args.go\<close>

text \<open>\<open>statOK p\<close>: \<open>os.Stat(p)\<close> succeeds.\<close>

lemma filepath_Dir_short_len: "length d < 2 \<Longrightarrow> length (filepath_Dir d) < 2"
proof (cases d)
  case Nil
  then show ?thesis by (simp add: filepath_Dir_def filepath_Clean_def HasPrefix_iff last_slash_prefix_def slash_def)
next
  case (Cons c cs)
  moreover assume "length d < 2"
  ultimately have "d = [c]" by simp
  then show ?thesis
    by (cases "c = slash")
       (simp_all add: filepath_Dir_def filepath_Clean_def HasPrefix_iff last_slash_prefix_def slash_def)
qed

definition dir_measure :: "string \<Rightarrow> nat" where
  "dir_measure d = (if length d < 2 then (if filepath_Dir d = d then 0 else 1) else 2 * length d)"

lemma dir_measure_step: "filepath_Dir d \<noteq> d \<Longrightarrow> dir_measure (filepath_Dir d) < dir_measure d"
proof (cases "length d < 2")
  case True
  then show "filepath_Dir d \<noteq> d \<Longrightarrow> ?thesis"
    by (simp add: dir_measure_def filepath_Dir_short filepath_Dir_short_len)
next
  case False
  then show ?thesis using length_filepath_Dir [of d] by (auto simp: dir_measure_def)
qed

function module_root_from :: "(string \<Rightarrow> bool) \<Rightarrow> string \<Rightarrow> string option" where
  "module_root_from statOK dir =
     (if statOK (filepath_Join dir ''go.mod'') then Some dir
      else if filepath_Dir dir = dir then None
      else module_root_from statOK (filepath_Dir dir))"
  by pat_completeness auto
termination
  by (relation "measure (\<lambda>(st, d). dir_measure d)") (auto simp: dir_measure_step)

declare module_root_from.simps [simp del]

definition findModuleRoot :: "go_error + string \<Rightarrow> (string \<Rightarrow> bool) \<Rightarrow> go_error + string" where
  "findModuleRoot getwd statOK =
     (case getwd of
        Inl err \<Rightarrow> Inl err
      | Inr wd \<Rightarrow> (case module_root_from statOK wd of
                      Some dir \<Rightarrow> Inr dir
                    | None \<Rightarrow> Inl (ErrNew (''go.mod not found upwards from '' @ wd))))"

section \<open>helpers.go: markers and method sets\<close>

definition marker :: string where
  "marker = ''generate:reset''"

definition comment_matches :: "string \<Rightarrow> bool" where
  "comment_matches text =
     (let t1 = ToLower (TrimSpace text);
          t2 = TrimPrefix t1 ''//'';
          t3 = TrimPrefix t2 ''/*'';
          t4 = TrimSuffix t3 ''*/''
      in TrimSpace t4 = CHR ''+'' # marker)"

definition hasMarker :: "string list option \<Rightarrow> string list option \<Rightarrow> bool" where
  "hasMarker genDoc specDoc =
     (let check = (\<lambda>cg. case cg of None \<Rightarrow> False | Some cs \<Rightarrow> list_ex comment_matches cs)
      in check specDoc \<or> check genDoc)"

text \<open>A method as its set lists it: name, whether it is a function object, and its arities.\<close>

record go_method =
  mt_name :: string
  mt_func :: bool
  mt_params :: nat
  mt_results :: nat

definition hasResetMethod :: "go_method list \<Rightarrow> bool" where
  "hasResetMethod ms = list_ex (\<lambda>m. mt_name m = ''Reset'' \<and> mt_func m \<and> mt_params m = 0 \<and> mt_results m = 0) ms"

section \<open>Types\<close>

datatype basic_kind = KBool | KString | KUntypedNil | KNumeric | KUnsafePointer | KInvalid

datatype gtype =
    TBasic basic_kind
  | TSlice gtype
  | TMap gtype gtype
  | TPointer gtype
  | TStruct "(string \<times> gtype) list"
  | TArray nat gtype
  | TChan gtype
  | TSignature
  | TInterface
  | TOther
  | TNamed string string

record go_pkg =
  gp_path :: string
  gp_name :: string

text \<open>
  What \<open>go/types\<close> knows: the underlying type of a named type (never itself named), the method sets of a
  type and of the pointer to it, the packages a type mentions in the order in which printing asks for their
  qualifiers, and the text for given qualifiers.
\<close>

record types_env =
  te_under :: "string \<Rightarrow> string \<Rightarrow> gtype"
  te_methods :: "gtype \<Rightarrow> go_method list"
  te_ptr_methods :: "gtype \<Rightarrow> go_method list"
  te_pkgs :: "gtype \<Rightarrow> go_pkg list"
  te_print :: "gtype \<Rightarrow> string list \<Rightarrow> string"

fun Underlying :: "types_env \<Rightarrow> gtype \<Rightarrow> gtype" where
  "Underlying te (TNamed p n) = te_under te p n"
| "Underlying te t = t"

fun zeroBasic :: "basic_kind \<Rightarrow> string" where
  "zeroBasic KBool = ''false''"
| "zeroBasic KString = [CHR 0x22, CHR 0x22]"
| "zeroBasic KUntypedNil = ''nil''"
| "zeroBasic _ = ''0''"

definition accessibleStruct :: "types_env \<Rightarrow> gtype \<Rightarrow> string \<Rightarrow> (string \<times> gtype) list option" where
  "accessibleStruct te t localPkgPath =
     (case t of
        TStruct fs \<Rightarrow> Some fs
      | TNamed p n \<Rightarrow>
          (case te_under te p n of
             TStruct fs \<Rightarrow> if p = localPkgPath then Some fs else None
           | _ \<Rightarrow> None)
      | _ \<Rightarrow> None)"

section \<open>helpers.go: the import manager\<close>

record importManager =
  im_local :: string
  im_byPath :: "string gomap"
  im_used :: "string list"

definition newImportManager :: "string \<Rightarrow> importManager" where
  "newImportManager localPkgPath = \<lparr>im_local = localPkgPath, im_byPath = [], im_used = []\<rparr>"

text \<open>\<open>fmt.Sprintf("%s%d", base, i)\<close>.\<close>

definition numbered :: "string \<Rightarrow> nat \<Rightarrow> string" where
  "numbered base i = base @ nat_digits i"

lemma nat_digits_inj: "nat_digits i = nat_digits j \<Longrightarrow> i = j"
  by (metis option.inject parse_nat_digits)

lemma numbered_inj [simp]: "numbered base i = numbered base j \<longleftrightarrow> i = j"
  by (auto simp: numbered_def dest: nat_digits_inj)

text \<open>The numbers from \<open>i\<close> on that are taken: finitely many, and one fewer after each turn of the loop.\<close>

definition taken_from :: "string list \<Rightarrow> string \<Rightarrow> nat \<Rightarrow> nat set" where
  "taken_from used base i = {j. i \<le> j \<and> numbered base j \<in> set used}"

lemma finite_taken: "finite (taken_from used base i)"
proof -
  have "inj_on (numbered base) (taken_from used base i)" by (simp add: inj_on_def)
  moreover have "numbered base ` taken_from used base i \<subseteq> set used" by (auto simp: taken_from_def)
  ultimately show ?thesis using finite_subset finite_imageD by (metis List.finite_set)
qed

lemma taken_step: "numbered base i \<in> set used \<Longrightarrow> card (taken_from used base (Suc i)) < card (taken_from used base i)"
proof (rule psubset_card_mono [OF finite_taken])
  assume "numbered base i \<in> set used"
  then have "i \<in> taken_from used base i" "i \<notin> taken_from used base (Suc i)" by (auto simp: taken_from_def)
  moreover have "taken_from used base (Suc i) \<subseteq> taken_from used base i" by (auto simp: taken_from_def)
  ultimately show "taken_from used base (Suc i) \<subset> taken_from used base i" by blast
qed

function free_alias :: "string list \<Rightarrow> string \<Rightarrow> nat \<Rightarrow> string" where
  "free_alias used base i =
     (if numbered base i \<notin> set used then numbered base i else free_alias used base (Suc i))"
  by pat_completeness auto
termination
  by (relation "measure (\<lambda>(used, base, i). card (taken_from used base i))") (auto simp: taken_step)

declare free_alias.simps [simp del]

definition qualifier :: "importManager \<Rightarrow> go_pkg option \<Rightarrow> importManager \<times> string" where
  "qualifier im p0 =
     (case p0 of
        None \<Rightarrow> (im, '''')
      | Some p \<Rightarrow>
          if gp_path p = im_local im then (im, '''')
          else case map_of (im_byPath im) (gp_path p) of
                 Some alias \<Rightarrow> (im, alias)
               | None \<Rightarrow>
                   (let base = gp_name p;
                        alias = (if base \<in> set (im_used im) then free_alias (im_used im) base 2 else base)
                    in (im\<lparr>im_used := alias # im_used im, im_byPath := gm_set (gp_path p) alias (im_byPath im)\<rparr>, alias)))"

fun qualifiers :: "importManager \<Rightarrow> go_pkg list \<Rightarrow> importManager \<times> string list" where
  "qualifiers im [] = (im, [])"
| "qualifiers im (p # ps) =
     (let (im1, a) = qualifier im (Some p); (im2, as) = qualifiers im1 ps in (im2, a # as))"

definition typeString :: "types_env \<Rightarrow> importManager \<Rightarrow> gtype \<Rightarrow> importManager \<times> string" where
  "typeString te im t = (let (im1, as) = qualifiers im (te_pkgs te t) in (im1, te_print te t as))"

definition after_last_slash :: "string \<Rightarrow> string" where
  "after_last_slash p = rev (takeWhile (\<lambda>c. c \<noteq> CHR ''/'') (rev p))"

text \<open>The imports in path order; an alias equal to the last path element is left out.\<close>

definition sortedImports :: "importManager \<Rightarrow> (string \<times> string) list" where
  "sortedImports im =
     map (\<lambda>p. let alias = (case map_of (im_byPath im) p of Some a \<Rightarrow> a | None \<Rightarrow> '''')
              in (p, if alias = after_last_slash p then '''' else alias))
         (sort (map fst (im_byPath im)))"

section \<open>main.go: emitting code\<close>

definition code_line :: "nat \<Rightarrow> string \<Rightarrow> string \<Rightarrow> string" where
  "code_line indent s buf = buf @ replicate indent (CHR 0x09) @ s @ [CHR 0x0A]"

text \<open>The default branch of \<open>zeroExpr\<close> and its named branches; only the struct and array case prints the type.\<close>

definition zeroExpr :: "types_env \<Rightarrow> importManager \<Rightarrow> gtype \<Rightarrow> importManager \<times> string" where
  "zeroExpr te im t =
     (case Underlying te t of
        TBasic k \<Rightarrow> (im, zeroBasic k)
      | TStruct fs \<Rightarrow> (let (im1, s) = typeString te im t in (im1, s @ ''{}''))
      | TArray n e \<Rightarrow> (let (im1, s) = typeString te im t in (im1, s @ ''{}''))
      | _ \<Rightarrow> (im, ''nil''))"

type_synonym emit_state = "string \<times> importManager"

definition emit :: "nat \<Rightarrow> string \<Rightarrow> emit_state \<Rightarrow> emit_state" where
  "emit indent s st = (code_line indent s (fst st), snd st)"

fun each_field :: "(string \<times> gtype \<Rightarrow> emit_state \<Rightarrow> emit_state option) \<Rightarrow> (string \<times> gtype) list \<Rightarrow> emit_state \<Rightarrow> emit_state option" where
  "each_field f [] st = Some st"
| "each_field f (x # xs) st = (case f x st of None \<Rightarrow> None | Some st' \<Rightarrow> each_field f xs st')"

definition emit_composite :: "types_env \<Rightarrow> nat \<Rightarrow> string \<Rightarrow> gtype \<Rightarrow> emit_state \<Rightarrow> emit_state" where
  "emit_composite te indent lhs t st =
     (let (im1, s) = typeString te (snd st) t in emit indent (lhs @ '' = '' @ s @ ''{}'') (fst st, im1))"

definition emit_zero :: "types_env \<Rightarrow> nat \<Rightarrow> string \<Rightarrow> gtype \<Rightarrow> emit_state \<Rightarrow> emit_state" where
  "emit_zero te indent lhs t st =
     (let (im1, s) = zeroExpr te (snd st) t in emit indent (lhs @ '' = '' @ s) (fst st, im1))"

fun emitResetForExpr :: "nat \<Rightarrow> types_env \<Rightarrow> string \<Rightarrow> string \<Rightarrow> gtype \<Rightarrow> emit_state \<Rightarrow> emit_state option"
and emitResetThroughPointer :: "nat \<Rightarrow> types_env \<Rightarrow> string \<Rightarrow> string \<Rightarrow> gtype \<Rightarrow> emit_state \<Rightarrow> emit_state option" where
  "emitResetForExpr 0 te local expr t st = None"
| "emitResetForExpr (Suc fuel) te local expr t st =
     (case Underlying te t of
        TBasic k \<Rightarrow> Some (emit 1 (expr @ '' = '' @ zeroBasic k) st)
      | TSlice e \<Rightarrow> Some (emit 1 (expr @ '' = '' @ expr @ ''[:0]'') st)
      | TMap k e \<Rightarrow> Some (emit 1 (''clear('' @ expr @ '')'') st)
      | TPointer e \<Rightarrow>
          (case emitResetThroughPointer fuel te local expr e (emit 1 (''if '' @ expr @ '' != nil {'') st) of
             None \<Rightarrow> None
           | Some st' \<Rightarrow> Some (emit 1 ''}'' st'))
      | TStruct fs \<Rightarrow>
          if hasResetMethod (te_ptr_methods te t) then Some (emit 1 (''(&'' @ expr @ '').Reset()'') st)
          else if hasResetMethod (te_methods te t) then Some (emit 1 (expr @ ''.Reset()'') st)
          else
            (case accessibleStruct te t local of
               Some gs \<Rightarrow> each_field (\<lambda>(n, ft). emitResetForExpr fuel te local (expr @ ''.'' @ n) ft) gs st
             | None \<Rightarrow> Some (emit_composite te 1 expr t st))
      | TArray n e \<Rightarrow> Some (emit_composite te 1 expr t st)
      | _ \<Rightarrow> Some (emit_zero te 1 expr t st))"
| "emitResetThroughPointer 0 te local ptr elem st = None"
| "emitResetThroughPointer (Suc fuel) te local ptr elem st =
     (case Underlying te elem of
        TBasic k \<Rightarrow> Some (emit 2 (''*'' @ ptr @ '' = '' @ zeroBasic k) st)
      | TSlice e \<Rightarrow> Some (emit 2 (''*'' @ ptr @ '' = (*'' @ ptr @ '')[:0]'') st)
      | TMap k e \<Rightarrow> Some (emit 2 (''clear(*'' @ ptr @ '')'') st)
      | TPointer e \<Rightarrow>
          (case emitResetThroughPointer fuel te local (''*'' @ ptr) e (emit 2 (''if *'' @ ptr @ '' != nil {'') st) of
             None \<Rightarrow> None
           | Some st' \<Rightarrow> Some (emit 2 ''}'' st'))
      | TStruct fs \<Rightarrow>
          if hasResetMethod (te_ptr_methods te elem) then Some (emit 2 (ptr @ ''.Reset()'') st)
          else
            (case accessibleStruct te elem local of
               Some gs \<Rightarrow> each_field (\<lambda>(n, ft). emitResetForExpr fuel te local (ptr @ ''.'' @ n) ft) gs st
             | None \<Rightarrow> Some (emit_composite te 2 (''*'' @ ptr) elem st))
      | TArray n e \<Rightarrow> Some (emit_composite te 2 (''*'' @ ptr) elem st)
      | _ \<Rightarrow> Some (emit_zero te 2 (''*'' @ ptr) elem st))"

text \<open>A marked struct: its name and its named type in the package.\<close>

record targetStruct =
  tg_name :: string
  tg_named :: gtype

text \<open>The outer \<open>None\<close> is missing fuel, \<open>Inl\<close> the error for a type that is not a struct.\<close>

definition emitResetMethod ::
  "nat \<Rightarrow> types_env \<Rightarrow> string \<Rightarrow> targetStruct \<Rightarrow> emit_state \<Rightarrow> (go_error + emit_state) option" where
  "emitResetMethod fuel te pkgPath t st =
     (case Underlying te (tg_named t) of
        TStruct fs \<Rightarrow>
          (let st1 = emit 0 '''' (emit 1 ''}'' (emit 2 ''return'' (emit 1 ''if x == nil {''
                       (emit 0 (''func (x *'' @ tg_name t @ '') Reset() {'') st))))
           in case each_field (\<lambda>(n, ft). emitResetForExpr fuel te pkgPath (''x.'' @ n) ft) fs st1 of
                None \<Rightarrow> None
              | Some st2 \<Rightarrow> Some (Inr (emit 0 ''}'' st2)))
      | _ \<Rightarrow> Some (Inl (ErrNew (tg_name t @ '' is not a struct type''))))"

section \<open>logic.go\<close>

fun emit_methods ::
  "nat \<Rightarrow> types_env \<Rightarrow> string \<Rightarrow> targetStruct list \<Rightarrow> emit_state \<Rightarrow> (go_error + emit_state) option" where
  "emit_methods fuel te path [] st = Some (Inr st)"
| "emit_methods fuel te path (t # ts) st =
     (case emitResetMethod fuel te path t st of
        None \<Rightarrow> None
      | Some (Inl e) \<Rightarrow> Some (Inl e)
      | Some (Inr st') \<Rightarrow> emit_methods fuel te path ts (emit 0 '''' st'))"

definition import_line :: "(string \<Rightarrow> string) \<Rightarrow> string \<times> string \<Rightarrow> string" where
  "import_line quote imp = (if snd imp = '''' then quote (fst imp) else snd imp @ '' '' @ quote (fst imp))"

definition generateResetFile ::
  "(string \<Rightarrow> go_error + string) \<Rightarrow> (string \<Rightarrow> string) \<Rightarrow> nat \<Rightarrow> types_env \<Rightarrow> go_pkg \<Rightarrow> targetStruct list \<Rightarrow> (go_error + string) option" where
  "generateResetFile format_Source quote fuel te pkg targets =
     (let head = code_line 0 '''' (code_line 0 (''package '' @ gp_name pkg)
                   (code_line 0 '''' (code_line 0 ''// Code generated by cmd/reset; DO NOT EDIT.'' '''')))
      in case emit_methods fuel te (gp_path pkg) targets ('''', newImportManager (gp_path pkg)) of
           None \<Rightarrow> None
         | Some (Inl e) \<Rightarrow> Some (Inl e)
         | Some (Inr (methods, im)) \<Rightarrow>
             (let imports = sortedImports im;
                  w = (if length imports > 0
                       then code_line 0 '''' (code_line 0 '')''
                              (foldl (\<lambda>b imp. code_line 1 (import_line quote imp) b) (code_line 0 ''import ('' head) imports))
                       else head)
              in case format_Source (w @ methods) of
                   Inl e \<Rightarrow> Some (Inl (Wrapf ''format'' e))
                 | Inr formatted \<Rightarrow> Some (Inr formatted)))"

text \<open>
  The declarations of a file: a \<open>type\<close> declaration with its doc comment and specs, or anything else. Of a
  spec: its name, whether it is a struct type expression, its doc, and the named type the package scope
  has for the name, if any.
\<close>

record type_spec =
  ts_name :: string
  ts_struct :: bool
  ts_doc :: "string list option"
  ts_lookup :: "gtype option"

datatype decl = TypeDecl "string list option" "type_spec list" | OtherDecl

definition spec_target :: "types_env \<Rightarrow> string list option \<Rightarrow> type_spec \<Rightarrow> targetStruct option" where
  "spec_target te genDoc ts =
     (if \<not> ts_struct ts then None
      else if \<not> hasMarker genDoc (ts_doc ts) then None
      else case ts_lookup ts of
             None \<Rightarrow> None
           | Some named \<Rightarrow>
               if hasResetMethod (te_methods te named) \<or> hasResetMethod (te_ptr_methods te named) then None
               else Some \<lparr>tg_name = ts_name ts, tg_named = named\<rparr>)"

fun decl_targets :: "types_env \<Rightarrow> decl \<Rightarrow> targetStruct list" where
  "decl_targets te (TypeDecl doc specs) = List.map_filter (spec_target te doc) specs"
| "decl_targets te OtherDecl = []"

definition findTargetStructs :: "types_env \<Rightarrow> decl list list \<Rightarrow> targetStruct list" where
  "findTargetStructs te syntax = sort_key tg_name (concat (map (\<lambda>f. concat (map (decl_targets te) f)) syntax))"

record loaded_pkg =
  lp_errors :: "string list"
  lp_files :: "string list"
  lp_pkg :: go_pkg
  lp_types :: types_env
  lp_syntax :: "decl list list"

definition out_path :: "loaded_pkg \<Rightarrow> string" where
  "out_path p = filepath_Join (filepath_Dir (hd (lp_files p))) ''reset.gen.go''"

text \<open>\<open>os.WriteFile\<close>: create or truncate, then write.\<close>

definition os_WriteFile :: "string \<Rightarrow> string \<Rightarrow> fs \<Rightarrow> fs \<times> go_error option" where
  "os_WriteFile path bytes s =
     (case fs_call s of
        (s1, Some e) \<Rightarrow> (s1, Some e)
      | (s1, None) \<Rightarrow> os_Write path bytes (fs_put path [] s1))"

text \<open>
  One turn of the loop of \<open>processPackages\<close>: the files, the number of changed ones, and the error with which
  \<open>log.Fatal\<close> ends the program, if it does.
\<close>

type_synonym gen_state = "fs \<times> nat"

definition process_package ::
  "(string \<Rightarrow> go_error + string) \<Rightarrow> (string \<Rightarrow> string) \<Rightarrow> nat \<Rightarrow> loaded_pkg \<Rightarrow> gen_state \<Rightarrow> (gen_state \<times> go_error option) option" where
  "process_package format_Source quote fuel p sn =
     (let (s, changed) = sn in
      if lp_errors p \<noteq> [] then Some (sn, Some (ErrNew ''package load errors''))
      else if lp_files p = [] then Some (sn, None)
      else
        (let targets = findTargetStructs (lp_types p) (lp_syntax p); path = out_path p in
         if targets = [] then
           (case os_Remove path s of
              (s1, None) \<Rightarrow> Some ((s1, changed + 1), None)
            | (s1, Some e) \<Rightarrow> Some ((s1, changed), if errors_Is e ErrNotExist then None else Some (Wrapf ''remove'' e)))
         else
           (case generateResetFile format_Source quote fuel (lp_types p) (lp_pkg p) targets of
              None \<Rightarrow> None
            | Some (Inl e) \<Rightarrow> Some (sn, Some (Wrapf ''generate'' e))
            | Some (Inr src) \<Rightarrow>
                (let cleanPath = filepath_Clean path in
                 case os_Open cleanPath s of
                   (s1, old) \<Rightarrow>
                     (if old = Inr src then Some ((s1, changed), None)
                      else case os_WriteFile cleanPath src s1 of
                             (s2, Some e) \<Rightarrow> Some ((s2, changed), Some (Wrapf ''write'' e))
                           | (s2, None) \<Rightarrow> Some ((s2, changed + 1), None))))))"

fun process_packages ::
  "(string \<Rightarrow> go_error + string) \<Rightarrow> (string \<Rightarrow> string) \<Rightarrow> nat \<Rightarrow> loaded_pkg list \<Rightarrow> gen_state \<Rightarrow> (gen_state \<times> go_error option) option" where
  "process_packages format_Source quote fuel [] sn = Some (sn, None)"
| "process_packages format_Source quote fuel (p # ps) sn =
     (case process_package format_Source quote fuel p sn of
        Some (sn', None) \<Rightarrow> process_packages format_Source quote fuel ps sn'
      | r \<Rightarrow> r)"

text \<open>\<open>load\<close> is \<open>packages.Load\<close> with the directory of the module.\<close>

definition processPackages ::
  "(string \<Rightarrow> go_error + loaded_pkg list) \<Rightarrow> (string \<Rightarrow> go_error + string) \<Rightarrow> (string \<Rightarrow> string) \<Rightarrow> nat \<Rightarrow> string \<Rightarrow> fs \<Rightarrow>
   (gen_state \<times> go_error option) option" where
  "processPackages load format_Source quote fuel root s =
     (case load root of
        Inl err \<Rightarrow> Some ((s, 0), Some err)
      | Inr pkgs \<Rightarrow> process_packages format_Source quote fuel pkgs (s, 0))"

text \<open>\<open>main\<close>; \<open>statOK p\<close>: \<open>os.Stat(p)\<close> succeeds.\<close>

definition reset_main ::
  "go_error + string \<Rightarrow> (string \<Rightarrow> bool) \<Rightarrow> (string \<Rightarrow> go_error + loaded_pkg list) \<Rightarrow> (string \<Rightarrow> go_error + string) \<Rightarrow> (string \<Rightarrow> string) \<Rightarrow>
   nat \<Rightarrow> fs \<Rightarrow> (gen_state \<times> go_error option) option" where
  "reset_main getwd statOK load format_Source quote fuel s =
     (case findModuleRoot getwd statOK of
        Inl err \<Rightarrow> Some ((s, 0), Some err)
      | Inr root \<Rightarrow> processPackages load format_Source quote fuel root s)"

section \<open>Facts about aliases\<close>

lemma free_alias_fresh: "free_alias used base i \<notin> set used"
proof (induction used base i rule: free_alias.induct)
  case (1 used base i)
  then show ?case by (cases "numbered base i \<in> set used") (simp_all add: free_alias.simps [of used base i])
qed

text \<open>The aliases in use are those handed out, each to one path.\<close>

definition im_inv :: "importManager \<Rightarrow> bool" where
  "im_inv im \<longleftrightarrow> gm_wf (im_byPath im) \<and> distinct (map snd (im_byPath im)) \<and> snd ` set (im_byPath im) = set (im_used im)"

lemma gm_set_fresh: "k \<notin> fst ` set m \<Longrightarrow> gm_set k v m = m @ [(k, v)]"
  by (induction m) auto

lemma qualifier_facts:
  assumes "im_inv im" and "qualifier im (Some p) = (im', a)"
  shows "im_inv im' \<and> im_local im' = im_local im \<and> map_of (im_byPath im) \<subseteq>\<^sub>m map_of (im_byPath im') \<and>
    (gp_path p \<noteq> im_local im \<longrightarrow> map_of (im_byPath im') (gp_path p) = Some a)"
proof (cases "gp_path p = im_local im \<or> map_of (im_byPath im) (gp_path p) \<noteq> None")
  case True
  with assms show ?thesis by (auto simp: qualifier_def map_le_def split: if_splits option.splits)
next
  case False
  then have none: "map_of (im_byPath im) (gp_path p) = None" by simp
  then have fresh: "gp_path p \<notin> fst ` set (im_byPath im)" by (simp add: map_of_eq_None_iff)
  have a: "a \<notin> set (im_used im)"
    using assms(2) False free_alias_fresh by (auto simp: qualifier_def Let_def split: if_splits)
  have im': "im' = im\<lparr>im_used := a # im_used im, im_byPath := im_byPath im @ [(gp_path p, a)]\<rparr>"
    using assms(2) False none by (auto simp: qualifier_def Let_def gm_set_fresh [OF fresh])
  have "im_inv im'" using assms(1) a fresh by (auto simp: im' im_inv_def gm_wf_def)
  moreover have "map_of (im_byPath im) \<subseteq>\<^sub>m map_of (im_byPath im')" by (auto simp: im' map_le_def map_add_def)
  moreover have "map_of (im_byPath im') (gp_path p) = Some a" using none by (simp add: im' map_add_def)
  ultimately show ?thesis by (simp add: im')
qed

lemma qualifiers_facts:
  assumes "im_inv im" and "qualifiers im ps = (im', as)"
  shows "im_inv im' \<and> im_local im' = im_local im \<and> map_of (im_byPath im) \<subseteq>\<^sub>m map_of (im_byPath im') \<and> length as = length ps \<and>
    (\<forall>i < length ps. gp_path (ps ! i) \<noteq> im_local im \<longrightarrow> map_of (im_byPath im') (gp_path (ps ! i)) = Some (as ! i))"
  using assms
proof (induction ps arbitrary: im as)
  case Nil
  then show ?case by auto
next
  case (Cons p ps)
  obtain im1 a where q: "qualifier im (Some p) = (im1, a)" by fastforce
  note f1 = qualifier_facts [OF Cons.prems(1) q]
  obtain as' where qs: "qualifiers im1 ps = (im', as')" and as: "as = a # as'"
    using Cons.prems(2) q by (auto split: prod.splits)
  from f1 Cons.IH [OF _ qs] have f2: "im_inv im'" "im_local im' = im_local im" "map_of (im_byPath im1) \<subseteq>\<^sub>m map_of (im_byPath im')"
      "length as' = length ps"
      "\<forall>i < length ps. gp_path (ps ! i) \<noteq> im_local im \<longrightarrow> map_of (im_byPath im') (gp_path (ps ! i)) = Some (as' ! i)"
    by auto
  have "gp_path p \<noteq> im_local im \<longrightarrow> map_of (im_byPath im') (gp_path p) = Some a"
    using f1 f2(3) by (metis domI map_le_def)
  with f1 f2 as show ?case by (auto simp: nth_Cons split: nat.split dest: map_le_trans)
qed

lemma new_im_inv: "im_inv (newImportManager l)"
  by (simp add: im_inv_def newImportManager_def)

lemma map_of_snd_inj:
  assumes "distinct (map snd m)" and "map_of m k = Some v" and "map_of m k' = Some v"
  shows "k = k'"
proof -
  have "(k, v) \<in> set m" "(k', v) \<in> set m" using assms(2,3) by (auto dest: map_of_SomeD)
  moreover have "inj_on snd (set m)" using assms(1) by (simp add: distinct_map)
  ultimately show ?thesis by (auto dest!: inj_onD [of snd "set m" "(k, v)" "(k', v)"])
qed

section \<open>Facts about the emitters\<close>

text \<open>The method set of \<open>*T\<close> contains that of \<open>T\<close>.\<close>

definition methods_ok :: "types_env \<Rightarrow> bool" where
  "methods_ok te \<longleftrightarrow> (\<forall>t. hasResetMethod (te_methods te t) \<longrightarrow> hasResetMethod (te_ptr_methods te t))"

text \<open>
  The parts of a value that a method of the package \<open>local\<close> has to reset itself: what a pointer leads to, and the
  fields of a struct that is written in place or declared in the package, unless the struct has a \<open>Reset\<close> method to call.
\<close>

inductive part_of :: "types_env \<Rightarrow> string \<Rightarrow> gtype \<Rightarrow> gtype \<Rightarrow> bool" for te :: types_env and local :: string where
  pointee: "Underlying te t = TPointer e \<Longrightarrow> part_of te local e t"
| field: "t = TStruct fs \<or> (\<exists>n. t = TNamed local n \<and> te_under te local n = TStruct fs) \<Longrightarrow>
     \<not> hasResetMethod (te_ptr_methods te t) \<Longrightarrow> (n, ft) \<in> set fs \<Longrightarrow> part_of te local ft t"

lemma part_of_field:
  assumes "Underlying te t = TStruct fs" and "\<not> hasResetMethod (te_ptr_methods te t)" and "accessibleStruct te t local = Some gs"
  shows "(n, ft) \<in> set gs \<Longrightarrow> part_of te local ft t"
  using assms by (auto simp: accessibleStruct_def split: gtype.splits if_splits intro: part_of.field)

lemma part_ofE:
  assumes "part_of te local e t"
  obtains "Underlying te t = TPointer e"
    | fs gs n where "Underlying te t = TStruct fs" "\<not> hasResetMethod (te_ptr_methods te t)" "accessibleStruct te t local = Some gs" "(n, e) \<in> set gs"
  using assms by (cases rule: part_of.cases) (auto simp: accessibleStruct_def)

text \<open>An element is in the accessible part of a relation if no infinite chain starts from it.\<close>

lemma accp_no_chain: "Wellfounded.accp R x \<longleftrightarrow> \<not> (\<exists>s. s 0 = x \<and> (\<forall>i. R (s (Suc i)) (s i)))"
proof
  assume "Wellfounded.accp R x"
  then show "\<not> (\<exists>s. s 0 = x \<and> (\<forall>i. R (s (Suc i)) (s i)))"
  proof (induction rule: accp_induct_rule)
    case (1 x)
    show ?case
    proof
      assume "\<exists>s. s 0 = x \<and> (\<forall>i. R (s (Suc i)) (s i))"
      then obtain s where s: "s 0 = x" "\<And>i. R (s (Suc i)) (s i)" by blast
      have "R (s (Suc 0)) x" using s(2) [of 0] s(1) by simp
      from 1(2) [OF this] s(2) show False by (auto intro: exI [of _ "\<lambda>i. s (Suc i)"])
    qed
  qed
next
  assume no: "\<not> (\<exists>s. s 0 = x \<and> (\<forall>i. R (s (Suc i)) (s i)))"
  show "Wellfounded.accp R x"
  proof (rule ccontr)
    assume x: "\<not> Wellfounded.accp R x"
    have "\<exists>s. \<forall>i. (\<not> Wellfounded.accp R (s i) \<and> (i = 0 \<longrightarrow> s i = x)) \<and> R (s (Suc i)) (s i)"
    proof (rule dependent_nat_choice)
      show "\<exists>y. \<not> Wellfounded.accp R y \<and> (0 = (0 :: nat) \<longrightarrow> y = x)" using x by blast
      show "\<exists>z. (\<not> Wellfounded.accp R z \<and> (Suc n = 0 \<longrightarrow> z = x)) \<and> R z y"
        if "\<not> Wellfounded.accp R y \<and> (n = 0 \<longrightarrow> y = x)" for y n
        using not_accp_down [of R y] that by blast
    qed
    with no show False by blast
  qed
qed

lemma each_field_some:
  "each_field f xs st \<noteq> None \<Longrightarrow> x \<in> set xs \<Longrightarrow> \<exists>st'. f x st' \<noteq> None"
proof (induction xs arbitrary: st)
  case (Cons y xs)
  then obtain st1 where st1: "f y st = Some st1" "each_field f xs st1 \<noteq> None" by (cases "f y st") auto
  show ?case
  proof (cases "x = y")
    case True
    with st1(1) show ?thesis by (metis option.distinct(1))
  next
    case False
    with Cons.prems(2) Cons.IH [OF st1(2)] show ?thesis by simp
  qed
qed simp

lemma each_field_total: "(\<And>x st. x \<in> set xs \<Longrightarrow> f x st \<noteq> None) \<Longrightarrow> each_field f xs st \<noteq> None"
  by (induction xs arbitrary: st) (auto split: option.split)

text \<open>With enough fuel the emitters reach the end of every type without an infinite chain of parts, and only of those.\<close>

lemma emit_total:
  assumes "methods_ok te" and "Wellfounded.accp (part_of te local) t"
  shows "\<exists>n. \<forall>fuel > n. \<forall>expr st. emitResetForExpr fuel te local expr t st \<noteq> None \<and> emitResetThroughPointer fuel te local expr t st \<noteq> None"
  using assms(2)
proof (induction rule: accp_induct_rule)
  case (1 t)
  define parts where "parts = {e. part_of te local e t}"
  have "finite parts"
  proof -
    have "parts \<subseteq> (case Underlying te t of TPointer e \<Rightarrow> {e} | TStruct fs \<Rightarrow> snd ` set fs | _ \<Rightarrow> {})"
      by (auto simp: parts_def elim!: part_of.cases split: gtype.split intro: rev_image_eqI)
    moreover have "finite (case Underlying te t of TPointer e \<Rightarrow> {e} | TStruct fs \<Rightarrow> snd ` set fs | _ \<Rightarrow> {})"
      by (simp split: gtype.split)
    ultimately show ?thesis using finite_subset by blast
  qed
  from 1(2) have "\<forall>e \<in> parts. \<exists>n. \<forall>fuel > n. \<forall>expr st. emitResetForExpr fuel te local expr e st \<noteq> None \<and>
      emitResetThroughPointer fuel te local expr e st \<noteq> None" by (auto simp: parts_def)
  then obtain need where need: "\<And>e fuel expr st. e \<in> parts \<Longrightarrow> need e < fuel \<Longrightarrow>
      emitResetForExpr fuel te local expr e st \<noteq> None \<and> emitResetThroughPointer fuel te local expr e st \<noteq> None"
    by metis
  obtain n where n: "\<And>e. e \<in> parts \<Longrightarrow> need e < n"
    using finite_nat_set_iff_bounded [of "need ` parts"] \<open>finite parts\<close> by auto
  have enough: "emitResetForExpr fuel te local expr e st \<noteq> None \<and> emitResetThroughPointer fuel te local expr e st \<noteq> None"
    if "part_of te local e t" "n < Suc fuel" for e fuel expr st
    using need [of e fuel] n [of e] that by (simp add: parts_def)
  have "emitResetForExpr (Suc fuel) te local expr t st \<noteq> None \<and> emitResetThroughPointer (Suc fuel) te local expr t st \<noteq> None"
    if fuel: "n < Suc fuel" for fuel expr st
  proof (cases "Underlying te t")
    case (TPointer e)
    with enough [OF part_of.pointee [OF TPointer] fuel] show ?thesis by (auto split: option.split)
  next
    case (TStruct fs)
    have "each_field (\<lambda>(n, ft). emitResetForExpr fuel te local (expr @ ''.'' @ n) ft) gs st' \<noteq> None"
      if "\<not> hasResetMethod (te_ptr_methods te t)" "accessibleStruct te t local = Some gs" for gs st'
      using enough [OF part_of_field [OF TStruct that] fuel] by (intro each_field_total) auto
    with TStruct show ?thesis by (auto simp del: not_None_eq split: option.split)
  qed auto
  then have "\<forall>fuel > n. \<forall>expr st. emitResetForExpr fuel te local expr t st \<noteq> None \<and> emitResetThroughPointer fuel te local expr t st \<noteq> None"
    by (metis Suc_pred gr0I less_nat_zero_code)
  then show ?case by blast
qed

lemma emit_needs:
  assumes "methods_ok te"
  shows "emitResetForExpr fuel te local expr t st \<noteq> None \<or> emitResetThroughPointer fuel te local expr t st \<noteq> None \<Longrightarrow>
    Wellfounded.accp (part_of te local) t"
proof (induction fuel arbitrary: expr t st)
  case (Suc fuel)
  show ?case
  proof (rule accpI)
    fix e assume "part_of te local e t"
    then show "Wellfounded.accp (part_of te local) e"
    proof (cases rule: part_ofE)
      case 1
      with Suc.prems have "emitResetThroughPointer fuel te local expr e (emit 1 (''if '' @ expr @ '' != nil {'') st) \<noteq> None \<or>
          emitResetThroughPointer fuel te local (''*'' @ expr) e (emit 2 (''if *'' @ expr @ '' != nil {'') st) \<noteq> None"
        by (auto split: option.splits)
      with Suc.IH show ?thesis by blast
    next
      case (2 fs gs n)
      have "\<not> hasResetMethod (te_methods te t)" using 2(2) assms by (auto simp: methods_ok_def)
      with Suc.prems 2 have "each_field (\<lambda>(n, ft). emitResetForExpr fuel te local (expr @ ''.'' @ n) ft) gs st \<noteq> None"
        by auto
      from each_field_some [OF this 2(4)] have "\<exists>st'. emitResetForExpr fuel te local (expr @ ''.'' @ n) e st' \<noteq> None" by simp
      with Suc.IH show ?thesis by blast
    qed
  qed
qed simp

section \<open>Properties\<close>

lemma module_root_from_iff:
  "case module_root_from statOK dir of
     Some d \<Rightarrow> (\<exists>k. d = (filepath_Dir ^^ k) dir \<and> statOK (filepath_Join d ''go.mod'') \<and>
                 (\<forall>j < k. \<not> statOK (filepath_Join ((filepath_Dir ^^ j) dir) ''go.mod'')))
   | None \<Rightarrow> (\<forall>k. \<not> statOK (filepath_Join ((filepath_Dir ^^ k) dir) ''go.mod''))"
proof (induction statOK dir rule: module_root_from.induct)
  case (1 statOK dir)
  show ?case
  proof (cases "statOK (filepath_Join dir ''go.mod'')")
    case True
    then show ?thesis by (simp add: module_root_from.simps [of statOK dir]) (auto intro: exI [of _ 0])
  next
    case False
    show ?thesis
    proof (cases "filepath_Dir dir = dir")
      case True
      then have "(filepath_Dir ^^ k) dir = dir" for k by (induction k) auto
      with False True show ?thesis by (simp add: module_root_from.simps [of statOK dir])
    next
      case step: False
      have iter: "(filepath_Dir ^^ k) (filepath_Dir dir) = (filepath_Dir ^^ Suc k) dir" for k
        by (simp add: funpow_swap1)
      have rec: "module_root_from statOK dir = module_root_from statOK (filepath_Dir dir)"
        using False step by (simp add: module_root_from.simps [of statOK dir])
      show ?thesis
      proof (cases "module_root_from statOK (filepath_Dir dir)")
        case None
        with "1.IH" [OF False step] have "\<not> statOK (filepath_Join ((filepath_Dir ^^ Suc k) dir) ''go.mod'')" for k
          by (simp add: iter del: funpow.simps)
        with False have "\<not> statOK (filepath_Join ((filepath_Dir ^^ k) dir) ''go.mod'')" for k by (cases k) auto
        with None rec show ?thesis by simp
      next
        case (Some d)
        with "1.IH" [OF False step] obtain k where k: "d = (filepath_Dir ^^ Suc k) dir" "statOK (filepath_Join d ''go.mod'')"
            "\<forall>j < k. \<not> statOK (filepath_Join ((filepath_Dir ^^ Suc j) dir) ''go.mod'')"
          by (auto simp: iter simp del: funpow.simps)
        with False have "\<forall>j < Suc k. \<not> statOK (filepath_Join ((filepath_Dir ^^ j) dir) ''go.mod'')"
          by (auto simp: less_Suc_eq_0_disj simp del: funpow.simps(2))
        with Some rec k show ?thesis by (auto intro!: exI [of _ "Suc k"] simp del: funpow.simps)
      qed
    qed
  qed
qed

text \<open>
  C38: the search for the module root terminates for every working directory and returns the nearest
  directory on the way up that has a \<open>go.mod\<close>; it fails only if none has.
\<close>

theorem findModuleRoot_nearest:
  "case findModuleRoot (Inr wd) statOK of
     Inr d \<Rightarrow> (\<exists>k. d = (filepath_Dir ^^ k) wd \<and> statOK (filepath_Join d ''go.mod'') \<and>
                 (\<forall>j < k. \<not> statOK (filepath_Join ((filepath_Dir ^^ j) wd) ''go.mod'')))
   | Inl e \<Rightarrow> (\<forall>k. \<not> statOK (filepath_Join ((filepath_Dir ^^ k) wd) ''go.mod''))"
  using module_root_from_iff [of statOK wd] by (auto simp: findModuleRoot_def split: option.splits)

theorem findModuleRoot_nearest_witness:
  "findModuleRoot (Inr ''/a/b'') (\<lambda>p. p = ''/a/go.mod'') = Inr ''/a'' \<and> (\<exists>k. ''/a'' = (filepath_Dir ^^ k) ''/a/b'')"
proof -
  have r: "findModuleRoot (Inr ''/a/b'') (\<lambda>p. p = ''/a/go.mod'') = Inr ''/a''" by code_simp
  show ?thesis using findModuleRoot_nearest [of "\<lambda>p. p = ''/a/go.mod''" "''/a/b''"] unfolding r by auto
qed

text \<open>
  C30: the aliases of generated imports are unambiguous: over any sequence of packages, two that are not the
  local one get the same alias exactly when they have the same path, and the search for a free alias
  terminates.
\<close>

theorem import_aliases_unique:
  assumes "qualifiers (newImportManager local) ps = (im, as)" and "i < length ps" and "j < length ps"
    and "gp_path (ps ! i) \<noteq> local" and "gp_path (ps ! j) \<noteq> local"
  shows "as ! i = as ! j \<longleftrightarrow> gp_path (ps ! i) = gp_path (ps ! j)"
proof -
  have l: "im_local (newImportManager local) = local" by (simp add: newImportManager_def)
  note f = qualifiers_facts [OF new_im_inv assms(1), unfolded l]
  have i: "map_of (im_byPath im) (gp_path (ps ! i)) = Some (as ! i)" and j: "map_of (im_byPath im) (gp_path (ps ! j)) = Some (as ! j)"
    using f assms(2-5) by auto
  have "distinct (map snd (im_byPath im))" using f by (simp add: im_inv_def)
  then have "as ! i = as ! j \<Longrightarrow> gp_path (ps ! i) = gp_path (ps ! j)" using i j map_of_snd_inj by fastforce
  moreover have "gp_path (ps ! i) = gp_path (ps ! j) \<Longrightarrow> as ! i = as ! j" using i j by simp
  ultimately show ?thesis by blast
qed

theorem import_aliases_unique_witness:
  "\<exists>im as. qualifiers (newImportManager ''m'') [\<lparr>gp_path = ''a/foo'', gp_name = ''foo''\<rparr>, \<lparr>gp_path = ''b/foo'', gp_name = ''foo''\<rparr>] = (im, as) \<and>
     as ! 0 \<noteq> as ! 1"
proof -
  obtain im as where q: "qualifiers (newImportManager ''m'') [\<lparr>gp_path = ''a/foo'', gp_name = ''foo''\<rparr>, \<lparr>gp_path = ''b/foo'', gp_name = ''foo''\<rparr>] = (im, as)"
    by fastforce
  from import_aliases_unique [OF q, of 0 1] q show ?thesis by auto
qed


abbreviation te_plain :: types_env where
  "te_plain \<equiv> \<lparr>te_under = (\<lambda>p n. TBasic KNumeric), te_methods = (\<lambda>t. []), te_ptr_methods = (\<lambda>t. []), te_pkgs = (\<lambda>t. []),
     te_print = (\<lambda>t as. ''T'')\<rparr>"

text \<open>A list node that points to the next one and has a \<open>Reset\<close> method: the method is called, and the chain ends there.\<close>

abbreviation te_node :: types_env where
  "te_node \<equiv> te_plain\<lparr>te_under := (\<lambda>p n. TStruct [(''next'', TPointer (TNamed ''m'' ''Node''))]),
     te_ptr_methods := (\<lambda>t. [\<lparr>mt_name = ''Reset'', mt_func = True, mt_params = 0, mt_results = 0\<rparr>])\<rparr>"


definition self_pointing :: "types_env \<Rightarrow> string \<Rightarrow> string \<Rightarrow> string \<Rightarrow> bool" where
  "self_pointing te local name fld \<longleftrightarrow>
     te_under te local name = TStruct [(fld, TPointer (TNamed local name))] \<and>
     \<not> hasResetMethod (te_ptr_methods te (TNamed local name))"

lemma emit_through_diverges:
  assumes "self_pointing te local name fld"
  shows "emitResetThroughPointer fuel te local ptr (TNamed local name) st = None"
proof (induction fuel arbitrary: ptr st rule: less_induct)
  case (less fuel)
  show ?case
  proof (cases fuel)
    case 0
    then show ?thesis by simp
  next
    case (Suc f)
    have "emitResetForExpr f te local e (TPointer (TNamed local name)) s = None" for e s
      using less.IH Suc by (cases f) auto
    with assms Suc show ?thesis by (simp add: self_pointing_def accessibleStruct_def)
  qed
qed

text \<open>
  a marked struct of the local package that holds a pointer to its own type, and has no \<open>Reset\<close> method yet,
  sends the generator into infinite recursion: no amount of fuel is enough.
\<close>

theorem generator_diverges:
  assumes "self_pointing te local name fld"
  shows "emitResetMethod fuel te local \<lparr>tg_name = name, tg_named = TNamed local name\<rparr> st = None"
proof -
  have "emitResetForExpr fuel te local e (TPointer (TNamed local name)) s = None" for e s
    by (cases fuel) (simp_all add: emit_through_diverges [OF assms])
  with assms show ?thesis by (simp add: emitResetMethod_def self_pointing_def)
qed

theorem generator_diverges_witness:
  "emitResetMethod 1000 (te_plain\<lparr>te_under := (\<lambda>p n. TStruct [(''next'', TPointer (TNamed ''m'' ''Node''))])\<rparr>) ''m''
     \<lparr>tg_name = ''Node'', tg_named = TNamed ''m'' ''Node''\<rparr> ('''', newImportManager ''m'') = None"
  by (rule generator_diverges [where fld = "''next''"]) (simp add: self_pointing_def hasResetMethod_def)

text \<open>
  The package as it is loaded by the next run, after the generated file has been written: the same
  declarations plus those of the generated file, which marks nothing, and the method sets grown by the
  generated methods.
\<close>

definition regenerated :: "loaded_pkg \<Rightarrow> loaded_pkg \<Rightarrow> bool" where
  "regenerated p q \<longleftrightarrow>
     lp_errors q = [] \<and> lp_files q \<noteq> [] \<and>
     (\<exists>gen. lp_syntax q = lp_syntax p @ [gen] \<and> concat (map (decl_targets (lp_types q)) gen) = []) \<and>
     (\<forall>t. hasResetMethod (te_methods (lp_types p) t) \<longrightarrow> hasResetMethod (te_methods (lp_types q) t)) \<and>
     (\<forall>t. hasResetMethod (te_ptr_methods (lp_types p) t) \<longrightarrow> hasResetMethod (te_ptr_methods (lp_types q) t)) \<and>
     (\<forall>tg \<in> set (findTargetStructs (lp_types p) (lp_syntax p)). hasResetMethod (te_ptr_methods (lp_types q) (tg_named tg)))"

lemma map_filter_set: "y \<in> set (List.map_filter f xs) \<longleftrightarrow> (\<exists>x \<in> set xs. f x = Some y)"
  by (induction xs) (auto simp: map_filter_simps split: option.splits)

lemma target_of_decl:
  "tg \<in> set (findTargetStructs te syntax) \<longleftrightarrow>
     (\<exists>f \<in> set syntax. \<exists>doc specs ts. TypeDecl doc specs \<in> set f \<and> ts \<in> set specs \<and> spec_target te doc ts = Some tg)"
proof -
  have "tg \<in> set (decl_targets te d) \<longleftrightarrow> (\<exists>doc specs ts. d = TypeDecl doc specs \<and> ts \<in> set specs \<and> spec_target te doc ts = Some tg)" for d
    by (cases d) (auto simp: map_filter_set)
  then show ?thesis unfolding findTargetStructs_def by (auto simp: set_sort) blast
qed

lemma regenerated_no_targets:
  assumes "regenerated p q"
  shows "findTargetStructs (lp_types q) (lp_syntax q) = []"
proof -
  obtain gen where gen: "lp_syntax q = lp_syntax p @ [gen]" "concat (map (decl_targets (lp_types q)) gen) = []"
    using assms by (auto simp: regenerated_def)
  have "tg \<notin> set (findTargetStructs (lp_types q) (lp_syntax p))" for tg
  proof
    assume "tg \<in> set (findTargetStructs (lp_types q) (lp_syntax p))"
    then obtain f doc specs ts where d: "f \<in> set (lp_syntax p)" "TypeDecl doc specs \<in> set f" "ts \<in> set specs"
        and q: "spec_target (lp_types q) doc ts = Some tg"
      by (auto simp: target_of_decl)
    then have "spec_target (lp_types p) doc ts = Some tg" and no: "\<not> hasResetMethod (te_ptr_methods (lp_types q) (tg_named tg))"
      using assms by (auto simp: spec_target_def regenerated_def split: if_splits option.splits)
    with d have "tg \<in> set (findTargetStructs (lp_types p) (lp_syntax p))" by (auto simp: target_of_decl)
    with assms no show False by (simp add: regenerated_def)
  qed
  then have "findTargetStructs (lp_types q) (lp_syntax p) = []" by (metis list.set_sel(1))
  then have "concat (map (\<lambda>f. concat (map (decl_targets (lp_types q)) f)) (lp_syntax p)) = []"
    by (metis findTargetStructs_def length_0_conv length_sort)
  with gen have "concat (map (\<lambda>f. concat (map (decl_targets (lp_types q)) f)) (lp_syntax q)) = []"
    by (simp only: map_append concat_append list.map concat.simps append_Nil append_Nil2)
  then show ?thesis by (simp only: findTargetStructs_def sort_key_simps)
qed

text \<open>
  running the generator twice undoes it: on the second run the marked structs have their (generated)
  \<open>Reset\<close> methods, so none is a target any more, and \<open>reset.gen.go\<close> is removed.
\<close>

theorem second_run_removes_file:
  assumes "regenerated p q" and "fs_faults s = []" and "fs_content (out_path q) s \<noteq> None"
  shows "\<exists>s'. process_package format_Source quote fuel q (s, n) = Some ((s', n + 1), None) \<and> fs_content (out_path q) s' = None"
proof -
  have "lp_errors q = []" "lp_files q \<noteq> []" using assms(1) by (auto simp: regenerated_def)
  moreover have "fs_call s = (s, None)" using assms(2) by (simp add: fs_call_def fs_next_def)
  ultimately show ?thesis
    using assms(3) regenerated_no_targets [OF assms(1)] by (auto simp: process_package_def os_Remove_def)
qed

abbreviation pkg_of :: "types_env \<Rightarrow> decl list list \<Rightarrow> loaded_pkg" where
  "pkg_of te syn \<equiv> \<lparr>lp_errors = [], lp_files = [''/d/a.go''], lp_pkg = \<lparr>gp_path = ''m'', gp_name = ''m''\<rparr>, lp_types = te, lp_syntax = syn\<rparr>"

theorem second_run_removes_file_witness:
  "\<exists>s'. process_package Inr (\<lambda>s. s) 9
     (pkg_of (te_plain\<lparr>te_ptr_methods := (\<lambda>t. [\<lparr>mt_name = ''Reset'', mt_func = True, mt_params = 0, mt_results = 0\<rparr>])\<rparr>)
        [[TypeDecl (Some [''// +generate:reset'']) [\<lparr>ts_name = ''T'', ts_struct = True, ts_doc = None, ts_lookup = Some (TNamed ''m'' ''T'')\<rparr>]], [OtherDecl]])
     (\<lparr>fs_files = [(out_path (pkg_of te_plain []), ''x'')], fs_faults = [], fs_rand = []\<rparr>, 0) = Some ((s', 1), None)"
proof -
  let ?syn = "[[TypeDecl (Some [''// +generate:reset'']) [\<lparr>ts_name = ''T'', ts_struct = True, ts_doc = None, ts_lookup = Some (TNamed ''m'' ''T'')\<rparr>]]]"
  let ?te = "te_plain\<lparr>te_ptr_methods := (\<lambda>t. [\<lparr>mt_name = ''Reset'', mt_func = True, mt_params = 0, mt_results = 0\<rparr>])\<rparr>"
  have r: "regenerated (pkg_of te_plain ?syn) (pkg_of ?te (?syn @ [[OtherDecl]]))"
    by (simp add: regenerated_def hasResetMethod_def)
  have o: "out_path (pkg_of ?te (?syn @ [[OtherDecl]])) = out_path (pkg_of te_plain [])" by (simp only: out_path_def loaded_pkg.simps)
  from second_run_removes_file [OF r, of "\<lparr>fs_files = [(out_path (pkg_of te_plain []), ''x'')], fs_faults = [], fs_rand = []\<rparr>" Inr "\<lambda>s. s" 9 0]
  show ?thesis unfolding o by (auto simp: fs_content_def)
qed

text \<open>
  The marker needs a plus sign, which the command's documentation leaves out; upper case and both comment
  forms are accepted.
\<close>

lemma marker_needs_plus:
  "hasMarker None (Some [''// +generate:reset'']) \<and> hasMarker (Some [''/* +Generate:Reset */'']) None \<and>
   \<not> hasMarker None (Some [''// generate:reset''])"
  by code_simp

text \<open>
  An alias that happens to be the last element of its path is left out of the import, although the package
  may have another name: here both imports bind the name \<open>foo\<close>.
\<close>

lemma import_alias_dropped:
  "sortedImports (fst (qualifiers (newImportManager ''m'')
      [\<lparr>gp_path = ''a/foo'', gp_name = ''foo''\<rparr>, \<lparr>gp_path = ''b/foo2'', gp_name = ''foo''\<rparr>])) =
   [(''a/foo'', ''''), (''b/foo2'', '''')]"
  by code_simp

end
