(* ===== verification/Reset_Code.thy ===== *)
theory Reset_Code
  imports Reset_Gen
begin

text \<open>
  What the methods that \<open>cmd/reset\<close> generates do. The text that the emitters of \<open>Reset_Gen\<close> write is shown to be
  the printing of a list of statements (\<open>gen\<close>, \<open>print_stmt\<close>), and the statements get the meaning that Go gives
  them, on a store of typed variables. Two facts follow: every field of the receiver, through nested
  structs and pointers, ends in its reset state (\<open>clean\<close>), and nothing else happens to the store than
  variables being reset (\<open>advances\<close>).

  The meaning is typed as Go's is: an assignment of a zero value runs only if the literal is one of the type of the
  variable, so that a text the compiler would refuse has no meaning. It covers what the statements can see. A value of a basic type, an array, a struct of another
  package, a channel, a function or an interface is a number, with 0 for the zero value of its type; a type
  with a \<open>Reset\<close> method of its own is a number too, and \<open>user\<close> says what its method makes of it. Pointers
  point to whole variables.
\<close>

section \<open>Statements and their text\<close>

datatype gexpr = EVar | EField gexpr string | EDeref gexpr

text \<open>A zero value is written as a literal, or as the composite literal of a type, whose text is given.\<close>

datatype gzero = ZLit string | ZComposite gtype string

fun print_zero :: "gzero \<Rightarrow> string" where
  "print_zero (ZLit s) = s"
| "print_zero (ZComposite t s) = s @ ''{}''"

datatype gstmt =
    SZero gexpr gzero
  | STrunc gexpr
  | SClear gexpr
  | SIfNotNil gexpr "gstmt list"
  | SCall gexpr gtype

text \<open>A selector binds more tightly than a dereference, so the operand of one needs parentheses.\<close>

fun print_expr :: "gexpr \<Rightarrow> string" and print_operand :: "gexpr \<Rightarrow> string" where
  "print_expr EVar = ''x''"
| "print_expr (EField e f) = print_operand e @ ''.'' @ f"
| "print_expr (EDeref e) = ''*'' @ print_expr e"
| "print_operand (EDeref e) = ''('' @ print_expr (EDeref e) @ '')''"
| "print_operand e = print_expr e"

fun indent_of :: "gexpr \<Rightarrow> nat" where
  "indent_of (EDeref e) = 2"
| "indent_of e = 1"

definition text_line :: "nat \<Rightarrow> string \<Rightarrow> string" where
  "text_line indent s = code_line indent s []"

fun print_call :: "gexpr \<Rightarrow> string" where
  "print_call (EDeref p) = print_operand p @ ''.Reset()''"
| "print_call e = ''(&'' @ print_expr e @ '').Reset()''"

primrec print_stmt :: "gstmt \<Rightarrow> string" where
  "print_stmt (SZero e z) = text_line (indent_of e) (print_expr e @ '' = '' @ print_zero z)"
| "print_stmt (STrunc e) = text_line (indent_of e) (print_expr e @ '' = '' @ print_operand e @ ''[:0]'')"
| "print_stmt (SClear e) = text_line (indent_of e) (''clear('' @ print_expr e @ '')'')"
| "print_stmt (SIfNotNil e ss) =
     text_line (indent_of e) (''if '' @ print_expr e @ '' != nil {'') @ concat (map print_stmt ss) @ text_line (indent_of e) ''}''"
| "print_stmt (SCall e t) = text_line (indent_of e) (print_call e)"

definition print_stmts :: "gstmt list \<Rightarrow> string" where
  "print_stmts ss = concat (map print_stmt ss)"

definition method_text :: "string \<Rightarrow> gstmt list \<Rightarrow> string" where
  "method_text name ss =
     text_line 0 (''func (x *'' @ name @ '') Reset() {'') @ text_line 1 ''if x == nil {'' @ text_line 2 ''return'' @
     text_line 1 ''}'' @ text_line 0 '''' @ print_stmts ss @ text_line 0 ''}''"

section \<open>The statements for a type\<close>

text \<open>A struct behind a pointer is selected through the pointer.\<close>

fun base :: "gexpr \<Rightarrow> gexpr" where
  "base (EDeref p) = p"
| "base e = e"

fun gen_fields ::
  "(string \<times> gtype \<Rightarrow> importManager \<Rightarrow> (gstmt list \<times> importManager) option) \<Rightarrow> (string \<times> gtype) list \<Rightarrow> importManager \<Rightarrow>
   (gstmt list \<times> importManager) option" where
  "gen_fields f [] im = Some ([], im)"
| "gen_fields f (x # xs) im =
     (case f x im of
        None \<Rightarrow> None
      | Some (ss, im1) \<Rightarrow> (case gen_fields f xs im1 of None \<Rightarrow> None | Some (ss', im2) \<Rightarrow> Some (ss @ ss', im2)))"

definition gen_composite :: "types_env \<Rightarrow> gexpr \<Rightarrow> gtype \<Rightarrow> importManager \<Rightarrow> gstmt list \<times> importManager" where
  "gen_composite te e t im = (let (im1, s) = typeString te im t in ([SZero e (ZComposite t s)], im1))"

definition gen_zero :: "types_env \<Rightarrow> gexpr \<Rightarrow> gtype \<Rightarrow> importManager \<Rightarrow> gstmt list \<times> importManager" where
  "gen_zero te e t im = (let (im1, s) = zeroExpr te im t in ([SZero e (ZLit s)], im1))"

fun gen :: "nat \<Rightarrow> types_env \<Rightarrow> string \<Rightarrow> gexpr \<Rightarrow> gtype \<Rightarrow> importManager \<Rightarrow> (gstmt list \<times> importManager) option" where
  "gen 0 te local e t im = None"
| "gen (Suc fuel) te local e t im =
     (case Underlying te t of
        TBasic k \<Rightarrow> Some ([SZero e (ZLit (zeroBasic k))], im)
      | TSlice el \<Rightarrow> Some ([STrunc e], im)
      | TMap k el \<Rightarrow> Some ([SClear e], im)
      | TPointer el \<Rightarrow> map_option (\<lambda>(ss, im1). ([SIfNotNil e ss], im1)) (gen fuel te local (EDeref e) el im)
      | TStruct fs \<Rightarrow>
          if hasResetMethod (te_ptr_methods te t) then Some ([SCall e t], im)
          else
            (case accessibleStruct te t local of
               Some gs \<Rightarrow> gen_fields (\<lambda>(n, ft). gen fuel te local (EField (base e) n) ft) gs im
             | None \<Rightarrow> Some (gen_composite te e t im))
      | TArray n el \<Rightarrow> Some (gen_composite te e t im)
      | _ \<Rightarrow> Some (gen_zero te e t im))"

text \<open>
  The emitters put no parentheses around a dereferenced operand. They need none as long as no pointer to a
  pointer leads to a struct whose fields or method are selected: \<open>emittable\<close> counts the dereferences on the way. It
  also asks what the Go compiler would refuse in the generated text: no field is blank and field names are unique
  (\<open>fields_ok\<close>), and no value of type \<open>unsafe.Pointer\<close>, of a type parameter or of an untyped or invalid type
  has to be set (\<open>settable\<close>, on underlying types, which are never named).
\<close>

definition fields_ok :: "(string \<times> gtype) list \<Rightarrow> bool" where
  "fields_ok gs \<longleftrightarrow> distinct (map fst gs) \<and> ''_'' \<notin> set (map fst gs)"

fun settable :: "gtype \<Rightarrow> bool" where
  "settable (TBasic k) = (k \<in> {KBool, KString, KNumeric})"
| "settable TOther = False"
| "settable (TNamed p n) = False"
| "settable _ = True"

fun emittable :: "nat \<Rightarrow> types_env \<Rightarrow> string \<Rightarrow> nat \<Rightarrow> gtype \<Rightarrow> bool" where
  "emittable 0 te local k t = True"
| "emittable (Suc fuel) te local k t =
     (case Underlying te t of
        TPointer el \<Rightarrow> emittable fuel te local (Suc k) el
      | TStruct fs \<Rightarrow>
          if hasResetMethod (te_ptr_methods te t) then k \<le> 1
          else
            (case accessibleStruct te t local of
               Some gs \<Rightarrow> k \<le> 1 \<and> fields_ok gs \<and> list_all (\<lambda>(n, ft). emittable fuel te local 0 ft) gs
             | None \<Rightarrow> True)
      | u \<Rightarrow> settable u)"

section \<open>The emitted text is the printed code\<close>

fun derefs :: "gexpr \<Rightarrow> nat" where
  "derefs (EDeref e) = Suc (derefs e)"
| "derefs e = 0"

lemma emit_text: "emit indent s (b, im) = (b @ text_line indent s, im)"
  by (simp add: emit_def text_line_def code_line_def)

lemma print_stmts_simps [simp]:
  "print_stmts [] = []" "print_stmts (s # ss) = print_stmt s @ print_stmts ss" "print_stmts (ss @ ss') = print_stmts ss @ print_stmts ss'"
  "concat (map print_stmt ss) = print_stmts ss"
  by (simp_all add: print_stmts_def)

abbreviation printed :: "string \<Rightarrow> (gstmt list \<times> importManager) option \<Rightarrow> emit_state option" where
  "printed b \<equiv> map_option (\<lambda>(ss, im). (b @ print_stmts ss, im))"

lemma each_field_gen:
  assumes "\<And>x b im. x \<in> set xs \<Longrightarrow> f x (b, im) = printed b (g x im)"
  shows "each_field f xs (b, im) = printed b (gen_fields g xs im)"
  using assms
proof (induction xs arbitrary: b im)
  case (Cons x xs)
  then show ?case by (auto split: option.splits prod.splits)
qed simp

lemma print_operand_plain [simp]: "derefs e = 0 \<Longrightarrow> print_operand e = print_expr e \<and> base e = e \<and> indent_of e = 1"
  by (cases e) auto

lemma print_call_plain [simp]: "derefs e = 0 \<Longrightarrow> print_call e = ''(&'' @ print_expr e @ '').Reset()''"
  by (cases e) auto

lemma emit_composite_gen: "emit_composite te indent (print_expr e) t (b, im) =
    (case gen_composite te e t im of (ss, im1) \<Rightarrow> (b @ print_stmts ss, im1))" if "indent = indent_of e"
  using that by (simp add: emit_composite_def gen_composite_def emit_text split: prod.split)

lemma emit_zero_gen: "emit_zero te indent (print_expr e) t (b, im) =
    (case gen_zero te e t im of (ss, im1) \<Rightarrow> (b @ print_stmts ss, im1))" if "indent = indent_of e"
  using that by (simp add: emit_zero_def gen_zero_def emit_text split: prod.split)

lemma emit_gen:
  assumes "methods_ok te"
  shows "derefs e = 0 \<Longrightarrow> emittable fuel te local 0 t \<Longrightarrow>
      emitResetForExpr fuel te local (print_expr e) t (b, im) = printed b (gen fuel te local e t im)"
    and "emittable fuel te local (Suc (derefs p)) t \<Longrightarrow>
      emitResetThroughPointer fuel te local (print_expr p) t (b, im) = printed b (gen fuel te local (EDeref p) t im)"
proof (induction fuel arbitrary: e t b im p)
  case (Suc fuel)
  have fields: "each_field (\<lambda>(n, ft). emitResetForExpr fuel te local (print_expr q @ ''.'' @ n) ft) gs (b', im') =
      printed b' (gen_fields (\<lambda>(n, ft). gen fuel te local (EField q n) ft) gs im')"
    if "derefs q = 0" "list_all (\<lambda>(n, ft). emittable fuel te local 0 ft) gs" for q gs b' im'
  proof (rule each_field_gen, clarify)
    fix n ft b'' im'' assume "(n, ft) \<in> set gs"
    with that Suc.IH(1) [of "EField q n" ft b'' im'']
    show "emitResetForExpr fuel te local (print_expr q @ ''.'' @ n) ft (b'', im'') = printed b'' (gen fuel te local (EField q n) ft im'')"
      by (auto simp: list_all_iff)
  qed
  {
    case 1
    have ptr: "emitResetThroughPointer fuel te local (print_expr e) el (b', im') = printed b' (gen fuel te local (EDeref e) el im')"
      if "Underlying te t = TPointer el" for el b' im'
      using Suc.IH(2) [of e el] 1 that by simp
    have "\<not> hasResetMethod (te_ptr_methods te t) \<Longrightarrow> \<not> hasResetMethod (te_methods te t)"
      using assms by (auto simp: methods_ok_def)
    with 1 ptr fields [of e] show ?case
      by (auto simp: emit_text emit_composite_gen emit_zero_gen split: gtype.split option.split prod.split)
  next
    case 2
    have ptr: "emitResetThroughPointer fuel te local (''*'' @ print_expr p) el (b', im') =
        printed b' (gen fuel te local (EDeref (EDeref p)) el im')"
      if "Underlying te t = TPointer el" for el b' im'
      using Suc.IH(2) [of "EDeref p" el b' im'] 2 that by simp
    from 2 ptr fields [of p] emit_composite_gen [of 2 "EDeref p"] emit_zero_gen [of 2 "EDeref p"] show ?case
      by (auto simp: emit_text split: gtype.split option.split prod.split)
  }
qed simp_all

text \<open>The statements of a whole method: those for the struct behind the receiver \<open>x\<close>.\<close>

definition method_stmts :: "nat \<Rightarrow> types_env \<Rightarrow> string \<Rightarrow> (string \<times> gtype) list \<Rightarrow> importManager \<Rightarrow> (gstmt list \<times> importManager) option" where
  "method_stmts fuel te local fs im = gen_fields (\<lambda>(n, ft). gen fuel te local (EField EVar n) ft) fs im"

lemma emitResetMethod_gen:
  assumes "methods_ok te" and "Underlying te (tg_named t) = TStruct fs" and "list_all (\<lambda>(n, ft). emittable fuel te pkgPath 0 ft) fs"
  shows "emitResetMethod fuel te pkgPath t (b, im) =
    map_option (\<lambda>(ss, im1). Inr (b @ method_text (tg_name t) ss, im1)) (method_stmts fuel te pkgPath fs im)"
proof -
  have "each_field (\<lambda>(n, ft). emitResetForExpr fuel te pkgPath (''x.'' @ n) ft) fs (b', im') =
      printed b' (method_stmts fuel te pkgPath fs im')" for b' im'
    unfolding method_stmts_def
  proof (rule each_field_gen, clarify)
    fix n ft b'' im'' assume "(n, ft) \<in> set fs"
    with assms(3) emit_gen(1) [OF assms(1), of "EField EVar n" fuel pkgPath ft b'' im'']
    show "emitResetForExpr fuel te pkgPath (''x.'' @ n) ft (b'', im'') = printed b'' (gen fuel te pkgPath (EField EVar n) ft im'')"
      by (auto simp: list_all_iff)
  qed
  with assms(2) show ?thesis
    by (auto simp: emitResetMethod_def Let_def emit_text method_text_def split: option.split)
qed

section \<open>The store\<close>

datatype gval =
    VData nat
  | VSlice "nat option" nat nat
  | VMap "nat option"
  | VPtr "nat option"
  | VStruct "(string \<times> gval) list"

text \<open>The variables, each with its type, and the entries of the maps.\<close>

record gstore =
  vars :: "nat \<Rightarrow> (gtype \<times> gval) option"
  maps :: "nat \<Rightarrow> nat list"

fun get_path :: "string list \<Rightarrow> gval \<Rightarrow> gval option" where
  "get_path [] v = Some v"
| "get_path (f # fs) (VStruct fvs) = (case map_of fvs f of None \<Rightarrow> None | Some w \<Rightarrow> get_path fs w)"
| "get_path (f # fs) _ = None"

fun put_path :: "string list \<Rightarrow> gval \<Rightarrow> gval \<Rightarrow> gval" where
  "put_path [] w v = w"
| "put_path (f # fs) w (VStruct fvs) = VStruct (map (\<lambda>(n, v). (n, if n = f then put_path fs w v else v)) fvs)"
| "put_path (f # fs) w v = v"

type_synonym gloc = "nat \<times> string list"

definition fetch :: "gstore \<Rightarrow> gloc \<Rightarrow> gval option" where
  "fetch h l = (case vars h (fst l) of None \<Rightarrow> None | Some (t, v) \<Rightarrow> get_path (snd l) v)"

definition assign :: "gstore \<Rightarrow> gloc \<Rightarrow> gval \<Rightarrow> gstore" where
  "assign h l w =
     (case vars h (fst l) of None \<Rightarrow> h | Some (t, v) \<Rightarrow> h\<lparr>vars := (vars h)(fst l \<mapsto> (t, put_path (snd l) w v))\<rparr>)"

text \<open>The variable an expression denotes; \<open>x\<close> is the address of the receiver variable. A nil pointer on the
  way panics, and a blank field cannot be selected.\<close>

fun loc :: "nat \<Rightarrow> gstore \<Rightarrow> gexpr \<Rightarrow> gloc option" where
  "loc x h EVar = Some (x, [])"
| "loc x h (EDeref e) =
     (case loc x h e of
        None \<Rightarrow> None
      | Some l \<Rightarrow> (case fetch h l of Some (VPtr (Some b)) \<Rightarrow> Some (b, []) | _ \<Rightarrow> None))"
| "loc x h (EField e f) =
     (case loc x h e of
        None \<Rightarrow> None
      | Some l \<Rightarrow>
          (case (if f = ''_'' then None else fetch h l) of
             Some (VPtr (Some b)) \<Rightarrow> Some (b, [f])
           | Some (VStruct fvs) \<Rightarrow> Some (fst l, snd l @ [f])
           | _ \<Rightarrow> None))"

text \<open>What the generated code can see of a type.\<close>

datatype shape = ShData | ShReset | ShSlice | ShMap | ShPtr gtype | ShStruct "(string \<times> gtype) list"

definition shape :: "types_env \<Rightarrow> string \<Rightarrow> gtype \<Rightarrow> shape" where
  "shape te local t =
     (case Underlying te t of
        TSlice el \<Rightarrow> ShSlice
      | TMap k el \<Rightarrow> ShMap
      | TPointer el \<Rightarrow> ShPtr el
      | TStruct fs \<Rightarrow>
          if hasResetMethod (te_ptr_methods te t) then ShReset
          else (case accessibleStruct te t local of Some gs \<Rightarrow> ShStruct gs | None \<Rightarrow> ShData)
      | _ \<Rightarrow> ShData)"

text \<open>The type of the variable at the end of a path of fields.\<close>

fun path_type :: "types_env \<Rightarrow> string \<Rightarrow> gtype \<Rightarrow> string list \<Rightarrow> gtype option" where
  "path_type te local t [] = Some t"
| "path_type te local t (f # fs) =
     (case shape te local t of
        ShStruct gs \<Rightarrow> (case map_of gs f of None \<Rightarrow> None | Some ft \<Rightarrow> path_type te local ft fs)
      | _ \<Rightarrow> None)"

definition var_type :: "types_env \<Rightarrow> string \<Rightarrow> gstore \<Rightarrow> gloc \<Rightarrow> gtype option" where
  "var_type te local h l = (case vars h (fst l) of None \<Rightarrow> None | Some (t, v) \<Rightarrow> path_type te local t (snd l))"

text \<open>The zero literals of a type.\<close>

fun zero_fits :: "types_env \<Rightarrow> gtype \<Rightarrow> gzero \<Rightarrow> bool" where
  "zero_fits te t (ZLit z) =
     (case Underlying te t of
        TBasic k \<Rightarrow>
          (case k of
             KBool \<Rightarrow> z = ''false''
           | KString \<Rightarrow> z = [CHR 0x22, CHR 0x22]
           | KNumeric \<Rightarrow> z = ''0''
           | KUnsafePointer \<Rightarrow> z = ''nil''
           | _ \<Rightarrow> False)
      | TSlice el \<Rightarrow> z = ''nil''
      | TMap k el \<Rightarrow> z = ''nil''
      | TPointer el \<Rightarrow> z = ''nil''
      | TChan el \<Rightarrow> z = ''nil''
      | TSignature \<Rightarrow> z = ''nil''
      | TInterface \<Rightarrow> z = ''nil''
      | _ \<Rightarrow> False)"
| "zero_fits te t (ZComposite u s) =
     (u = t \<and> (case Underlying te t of TStruct fs \<Rightarrow> True | TArray n el \<Rightarrow> True | _ \<Rightarrow> False))"

fun exec :: "types_env \<Rightarrow> string \<Rightarrow> (gtype \<Rightarrow> nat \<Rightarrow> nat) \<Rightarrow> nat \<Rightarrow> gstmt \<Rightarrow> gstore \<Rightarrow> gstore option"
and execs :: "types_env \<Rightarrow> string \<Rightarrow> (gtype \<Rightarrow> nat \<Rightarrow> nat) \<Rightarrow> nat \<Rightarrow> gstmt list \<Rightarrow> gstore \<Rightarrow> gstore option" where
  "exec te local user x (SZero e z) h =
     (case loc x h e of
        None \<Rightarrow> None
      | Some l \<Rightarrow>
          (case (fetch h l, var_type te local h l) of
             (Some (VData n), Some t) \<Rightarrow> if zero_fits te t z then Some (assign h l (VData 0)) else None
           | _ \<Rightarrow> None))"
| "exec te local user x (STrunc e) h =
     (case loc x h e of
        None \<Rightarrow> None
      | Some l \<Rightarrow> (case fetch h l of Some (VSlice r n c) \<Rightarrow> Some (assign h l (VSlice r 0 c)) | _ \<Rightarrow> None))"
| "exec te local user x (SClear e) h =
     (case loc x h e of
        None \<Rightarrow> None
      | Some l \<Rightarrow>
          (case fetch h l of
             Some (VMap None) \<Rightarrow> Some h
           | Some (VMap (Some m)) \<Rightarrow> Some (h\<lparr>maps := (maps h)(m := [])\<rparr>)
           | _ \<Rightarrow> None))"
| "exec te local user x (SIfNotNil e ss) h =
     (case loc x h e of
        None \<Rightarrow> None
      | Some l \<Rightarrow>
          (case fetch h l of
             Some (VPtr None) \<Rightarrow> Some h
           | Some (VPtr (Some b)) \<Rightarrow> execs te local user x ss h
           | _ \<Rightarrow> None))"
| "exec te local user x (SCall e t) h =
     (case loc x h e of
        None \<Rightarrow> None
      | Some l \<Rightarrow>
          (case fetch h l of
             Some (VData n) \<Rightarrow> if var_type te local h l = Some t then Some (assign h l (VData (user t n))) else None
           | _ \<Rightarrow> None))"
| "execs te local user x [] h = Some h"
| "execs te local user x (s # ss) h = (case exec te local user x s h of None \<Rightarrow> None | Some h' \<Rightarrow> execs te local user x ss h')"

section \<open>Well-typed stores\<close>

inductive val_ok :: "types_env \<Rightarrow> string \<Rightarrow> (nat \<Rightarrow> (gtype \<times> gval) option) \<Rightarrow> gtype \<Rightarrow> gval \<Rightarrow> bool"
  for te :: types_env and local :: string and vs :: "nat \<Rightarrow> (gtype \<times> gval) option" where
  data: "shape te local t \<in> {ShData, ShReset} \<Longrightarrow> val_ok te local vs t (VData n)"
| slice: "shape te local t = ShSlice \<Longrightarrow> val_ok te local vs t (VSlice r n c)"
| mapv: "shape te local t = ShMap \<Longrightarrow> val_ok te local vs t (VMap m)"
| ptr: "shape te local t = ShPtr el \<Longrightarrow> (\<And>a. p = Some a \<Longrightarrow> map_option fst (vs a) = Some el) \<Longrightarrow> val_ok te local vs t (VPtr p)"
| struct: "shape te local t = ShStruct gs \<Longrightarrow> map fst fvs = map fst gs \<Longrightarrow>
     (\<And>f ft w. map_of gs f = Some ft \<Longrightarrow> map_of fvs f = Some w \<Longrightarrow> val_ok te local vs ft w) \<Longrightarrow> val_ok te local vs t (VStruct fvs)"

inductive_simps val_ok_simps [simp]:
  "val_ok te local vs t (VData n)" "val_ok te local vs t (VSlice r n c)" "val_ok te local vs t (VMap m)"
  "val_ok te local vs t (VPtr p)" "val_ok te local vs t (VStruct fvs)"

definition store_ok :: "types_env \<Rightarrow> string \<Rightarrow> gstore \<Rightarrow> bool" where
  "store_ok te local h \<longleftrightarrow> (\<forall>a t v. vars h a = Some (t, v) \<longrightarrow> val_ok te local (vars h) t v)"

section \<open>Resetting\<close>

text \<open>A value that has only been reset, in some of its parts: pointers stay, slices keep their array.\<close>

inductive advances :: "types_env \<Rightarrow> string \<Rightarrow> (gtype \<Rightarrow> nat \<Rightarrow> nat) \<Rightarrow> gtype \<Rightarrow> gval \<Rightarrow> gval \<Rightarrow> bool"
  for te :: types_env and local :: string and user :: "gtype \<Rightarrow> nat \<Rightarrow> nat" where
  same: "advances te local user t v v"
| data: "shape te local t = ShData \<Longrightarrow> advances te local user t (VData n) (VData 0)"
| reset: "shape te local t = ShReset \<Longrightarrow> advances te local user t (VData n) (VData ((user t ^^ k) n))"
| slice: "shape te local t = ShSlice \<Longrightarrow> advances te local user t (VSlice r n c) (VSlice r 0 c)"
| struct: "shape te local t = ShStruct gs \<Longrightarrow> map fst fvs' = map fst fvs \<Longrightarrow>
     (\<And>f ft w w'. map_of gs f = Some ft \<Longrightarrow> map_of fvs f = Some w \<Longrightarrow> map_of fvs' f = Some w' \<Longrightarrow> advances te local user ft w w') \<Longrightarrow>
     advances te local user t (VStruct fvs) (VStruct fvs')"

definition store_advances :: "types_env \<Rightarrow> string \<Rightarrow> (gtype \<Rightarrow> nat \<Rightarrow> nat) \<Rightarrow> gstore \<Rightarrow> gstore \<Rightarrow> bool" where
  "store_advances te local user h h' \<longleftrightarrow>
     (\<forall>a. map_option fst (vars h' a) = map_option fst (vars h a)) \<and>
     (\<forall>a t v v'. vars h a = Some (t, v) \<longrightarrow> vars h' a = Some (t, v') \<longrightarrow> advances te local user t v v') \<and>
     (\<forall>m. maps h' m = maps h m \<or> maps h' m = [])"

text \<open>The reset state of a value, followed through nested structs and pointers.\<close>

inductive clean :: "types_env \<Rightarrow> string \<Rightarrow> (gtype \<Rightarrow> nat \<Rightarrow> nat) \<Rightarrow> gstore \<Rightarrow> gtype \<Rightarrow> gval \<Rightarrow> bool"
  for te :: types_env and local :: string and user :: "gtype \<Rightarrow> nat \<Rightarrow> nat" and h :: gstore where
  data: "shape te local t = ShData \<Longrightarrow> clean te local user h t (VData 0)"
| reset: "shape te local t = ShReset \<Longrightarrow> clean te local user h t (VData (user t n))"
| slice: "shape te local t = ShSlice \<Longrightarrow> clean te local user h t (VSlice r 0 c)"
| nil_map: "shape te local t = ShMap \<Longrightarrow> clean te local user h t (VMap None)"
| mapv: "shape te local t = ShMap \<Longrightarrow> maps h m = [] \<Longrightarrow> clean te local user h t (VMap (Some m))"
| nil_ptr: "shape te local t = ShPtr el \<Longrightarrow> clean te local user h t (VPtr None)"
| ptr: "shape te local t = ShPtr el \<Longrightarrow> vars h a = Some (el, v) \<Longrightarrow> clean te local user h el v \<Longrightarrow> clean te local user h t (VPtr (Some a))"
| struct: "shape te local t = ShStruct gs \<Longrightarrow> map fst fvs = map fst gs \<Longrightarrow>
     (\<And>f ft w. map_of gs f = Some ft \<Longrightarrow> map_of fvs f = Some w \<Longrightarrow> clean te local user h ft w) \<Longrightarrow> clean te local user h t (VStruct fvs)"

subsection \<open>Values\<close>

lemma map_of_dom: "map fst xs = map fst ys \<Longrightarrow> map_of xs k = None \<longleftrightarrow> map_of ys k = None"
  by (simp add: map_of_eq_None_iff) (metis list.set_map)

inductive_cases adv_ptrE: "advances te local user t (VPtr p) v'"
inductive_cases adv_mapE: "advances te local user t (VMap m) v'"
inductive_cases adv_sliceE: "advances te local user t (VSlice r n c) v'"
inductive_cases adv_dataE: "advances te local user t (VData n) v'"
inductive_cases adv_structE: "advances te local user t (VStruct fvs) v'"

lemma advances_trans:
  "advances te local user t u v \<Longrightarrow> advances te local user t v w \<Longrightarrow> advances te local user t u w"
proof (induction arbitrary: w rule: advances.induct)
  case (data t n)
  then show ?case by (auto elim!: adv_dataE intro: advances.intros)
next
  case (reset t n k)
  then show ?case
    using advances.reset [OF reset.hyps, of user n] funpow_add [of _ k "user t"]
    by (auto elim!: adv_dataE intro: advances.intros simp: fun_eq_iff) metis
next
  case (slice t r n c)
  then show ?case by (auto elim!: adv_sliceE intro: advances.intros)
next
  case (struct t gs fvs' fvs)
  from struct.prems show ?case
  proof (rule adv_structE)
    assume w: "w = VStruct fvs'"
    show ?thesis unfolding w by (rule advances.struct [OF struct.hyps(1,2)]) (rule struct.hyps(3))
  next
    fix gs' fvs''
    assume w: "w = VStruct fvs''" and gs': "shape te local t = ShStruct gs'" and names: "map fst fvs'' = map fst fvs'"
      and adv: "\<And>f ft w w'. map_of gs' f = Some ft \<Longrightarrow> map_of fvs' f = Some w \<Longrightarrow> map_of fvs'' f = Some w' \<Longrightarrow> advances te local user ft w w'"
    show ?thesis unfolding w
    proof (rule advances.struct [OF struct.hyps(1)])
      show "map fst fvs'' = map fst fvs" using names struct.hyps(2) by simp
      fix f ft w w''
      assume f: "map_of gs f = Some ft" "map_of fvs f = Some w" "map_of fvs'' f = Some w''"
      then obtain w' where w': "map_of fvs' f = Some w'"
        using map_of_dom [OF struct.hyps(2), of f] by (cases "map_of fvs' f") auto
      from struct.IH [OF f(1,2) w'] adv [OF _ w' f(3)] gs' struct.hyps(1) f(1) show "advances te local user ft w w''" by simp
    qed
  qed
qed (auto intro: advances.same)

lemma advances_val_ok: "advances te local user t v v' \<Longrightarrow> val_ok te local vs t v \<Longrightarrow> val_ok te local vs t v'"
proof (induction rule: advances.induct)
  case (struct t gs fvs' fvs)
  show ?case unfolding val_ok_simps
  proof (intro exI conjI allI impI)
    show "shape te local t = ShStruct gs" by fact
    show "map fst fvs' = map fst gs" using struct.prems struct.hyps by auto
    fix f ft w' assume f: "map_of gs f = Some ft" "map_of fvs' f = Some w'"
    then obtain w where w: "map_of fvs f = Some w"
      using map_of_dom [OF struct.hyps(2), of f] by (cases "map_of fvs f") auto
    from struct.prems struct.hyps(1) f(1) w have "val_ok te local vs ft w" by auto
    with struct.IH [OF f(1) w f(2)] show "val_ok te local vs ft w'" by simp
  qed
qed auto

lemma path_type_append:
  "path_type te local t (fs @ gs) = (case path_type te local t fs of None \<Rightarrow> None | Some u \<Rightarrow> path_type te local u gs)"
  by (induction fs arbitrary: t) (auto split: shape.split option.split)

lemma get_path_append: "get_path (fs @ gs) v = (case get_path fs v of None \<Rightarrow> None | Some w \<Rightarrow> get_path gs w)"
  by (induction fs v rule: get_path.induct) (auto split: option.split)

lemma val_ok_path:
  "val_ok te local vs t v \<Longrightarrow> path_type te local t fs = Some u \<Longrightarrow> \<exists>w. get_path fs v = Some w \<and> val_ok te local vs u w"
proof (induction fs arbitrary: t v)
  case (Cons f fs)
  from Cons.prems(2) obtain gs ft where gs: "shape te local t = ShStruct gs" "map_of gs f = Some ft" "path_type te local ft fs = Some u"
    by (auto split: shape.splits option.splits)
  from Cons.prems(1) gs(1) obtain fvs where v: "v = VStruct fvs" "map fst fvs = map fst gs"
    by (cases v) auto
  obtain w where w: "map_of fvs f = Some w" using map_of_dom [OF v(2), of f] gs(2) by (cases "map_of fvs f") auto
  with Cons.prems(1) v gs have "val_ok te local vs ft w" by auto
  from Cons.IH [OF this gs(3)] v w show ?case by simp
qed auto

lemma map_of_put: "map_of (map (\<lambda>(n, v). (n, if n = f then g v else v)) fvs) k = (if k = f then map_option g (map_of fvs f) else map_of fvs k)"
  by (induction fvs) auto

lemma put_path_advances:
  "path_type te local t fs = Some u \<Longrightarrow> get_path fs v = Some w \<Longrightarrow> advances te local user u w w' \<Longrightarrow>
     advances te local user t v (put_path fs w' v) \<and> get_path fs (put_path fs w' v) = Some w'"
proof (induction fs arbitrary: t v)
  case (Cons f fs)
  from Cons.prems(1) obtain gs ft where gs: "shape te local t = ShStruct gs" "map_of gs f = Some ft" "path_type te local ft fs = Some u"
    by (auto split: shape.splits option.splits)
  from Cons.prems(2) obtain fvs w0 where v: "v = VStruct fvs" "map_of fvs f = Some w0" "get_path fs w0 = Some w"
    by (cases v) (auto split: option.splits)
  note IH = Cons.IH [OF gs(3) v(3) Cons.prems(3)]
  have "advances te local user t (VStruct fvs) (VStruct (map (\<lambda>(n, v). (n, if n = f then put_path fs w' v else v)) fvs))"
  proof (rule advances.struct [OF gs(1)])
    show "map fst (map (\<lambda>(n, v). (n, if n = f then put_path fs w' v else v)) fvs) = map fst fvs"
      by (induction fvs) auto
    fix k kt x x'
    assume k: "map_of gs k = Some kt" "map_of fvs k = Some x"
      "map_of (map (\<lambda>(n, v). (n, if n = f then put_path fs w' v else v)) fvs) k = Some x'"
    then show "advances te local user kt x x'"
      using IH v(2) gs(2) by (cases "k = f") (auto simp: map_of_put intro: advances.same)
  qed
  with IH v show ?case by (simp add: map_of_put)
qed simp

lemma advances_path:
  "advances te local user t v v' \<Longrightarrow> path_type te local t fs = Some u \<Longrightarrow> get_path fs v = Some w \<Longrightarrow>
     \<exists>w'. get_path fs v' = Some w' \<and> advances te local user u w w'"
proof (induction fs arbitrary: t v v')
  case (Cons f fs)
  from Cons.prems(2) obtain gs ft where gs: "shape te local t = ShStruct gs" "map_of gs f = Some ft" "path_type te local ft fs = Some u"
    by (auto split: shape.splits option.splits)
  from Cons.prems(3) obtain fvs w0 where v: "v = VStruct fvs" "map_of fvs f = Some w0" "get_path fs w0 = Some w"
    by (cases v) (auto split: option.splits)
  from Cons.prems(1) [unfolded v(1)] obtain fvs' w1 where "v' = VStruct fvs'" "map_of fvs' f = Some w1" "advances te local user ft w0 w1"
  proof (rule adv_structE)
    assume "v' = VStruct fvs"
    with v(2) show thesis by (intro that) (auto intro: advances.same)
  next
    fix gs' fvs'
    assume v': "v' = VStruct fvs'" "shape te local t = ShStruct gs'" "map fst fvs' = map fst fvs"
      and adv: "\<And>f ft w w'. map_of gs' f = Some ft \<Longrightarrow> map_of fvs f = Some w \<Longrightarrow> map_of fvs' f = Some w' \<Longrightarrow> advances te local user ft w w'"
    from v' v(2) obtain w1 where "map_of fvs' f = Some w1" using map_of_dom [OF v'(3), of f] by (cases "map_of fvs' f") auto
    with adv [of f ft w0 w1] v' gs v(2) show thesis by (intro that) auto
  qed
  with Cons.IH [OF _ gs(3) v(3)] show ?case by auto
qed auto

subsection \<open>Stores\<close>

lemma store_advances_refl [simp]: "store_advances te local user h h"
  by (auto simp: store_advances_def intro: advances.same)

lemma store_advances_var:
  assumes "store_advances te local user h h'" and "vars h a = Some (t, v)"
  obtains v' where "vars h' a = Some (t, v')" and "advances te local user t v v'"
proof -
  from assms have "map_option fst (vars h' a) = Some t" by (simp add: store_advances_def)
  then obtain v' where "vars h' a = Some (t, v')" by auto
  with assms that show thesis by (auto simp: store_advances_def)
qed

lemma store_advances_trans:
  assumes "store_advances te local user h h'" and "store_advances te local user h' h''"
  shows "store_advances te local user h h''"
  unfolding store_advances_def
proof (intro conjI allI impI)
  show "map_option fst (vars h'' a) = map_option fst (vars h a)" for a using assms by (simp add: store_advances_def)
  show "maps h'' m = maps h m \<or> maps h'' m = []" for m using assms unfolding store_advances_def by metis
  fix a t v v'' assume v: "vars h a = Some (t, v)" "vars h'' a = Some (t, v'')"
  obtain v' where "vars h' a = Some (t, v')" "advances te local user t v v'" by (rule store_advances_var [OF assms(1) v(1)])
  with assms(2) v(2) show "advances te local user t v v''" by (auto simp: store_advances_def intro: advances_trans)
qed

lemma val_ok_types: "val_ok te local vs t v \<Longrightarrow> (\<And>a. map_option fst (vs' a) = map_option fst (vs a)) \<Longrightarrow> val_ok te local vs' t v"
proof (induction rule: val_ok.induct)
  case (ptr t el p)
  then show ?case by (intro val_ok.ptr) simp_all
qed (auto intro: val_ok.intros)

lemma store_ok_advances: "store_ok te local h \<Longrightarrow> store_advances te local user h h' \<Longrightarrow> store_ok te local h'"
  unfolding store_ok_def
proof (intro allI impI)
  fix a t v'
  assume ok: "\<forall>a t v. vars h a = Some (t, v) \<longrightarrow> val_ok te local (vars h) t v" and adv: "store_advances te local user h h'"
    and v': "vars h' a = Some (t, v')"
  from adv v' have "map_option fst (vars h a) = Some t" unfolding store_advances_def by (metis fst_conv option.map(2))
  then obtain v where v: "vars h a = Some (t, v)" by auto
  with adv v' have "advances te local user t v v'" by (auto simp: store_advances_def)
  with ok v have "val_ok te local (vars h) t v'" by (auto intro: advances_val_ok)
  with adv show "val_ok te local (vars h') t v'" by (auto simp: store_advances_def intro: val_ok_types)
qed

text \<open>An expression of a type: it denotes a variable of that type, and the same one however the store advances.\<close>

definition expr_ok :: "types_env \<Rightarrow> string \<Rightarrow> (gtype \<Rightarrow> nat \<Rightarrow> nat) \<Rightarrow> nat \<Rightarrow> gstore \<Rightarrow> gexpr \<Rightarrow> gtype \<Rightarrow> bool" where
  "expr_ok te local user x h e u \<longleftrightarrow>
     (\<forall>h'. store_advances te local user h h' \<longrightarrow> loc x h' e = loc x h e) \<and>
     (\<exists>a fs t v. loc x h e = Some (a, fs) \<and> vars h a = Some (t, v) \<and> path_type te local t fs = Some u)"

lemma expr_okE:
  assumes "expr_ok te local user x h e u"
  obtains a fs t v where "loc x h e = Some (a, fs)" "vars h a = Some (t, v)" "path_type te local t fs = Some u"
  using assms unfolding expr_ok_def by blast

lemma expr_ok_stable: "expr_ok te local user x h e u \<Longrightarrow> store_advances te local user h h' \<Longrightarrow> loc x h' e = loc x h e"
  unfolding expr_ok_def by blast

lemma expr_ok_advances:
  assumes "expr_ok te local user x h e u" and "store_advances te local user h h'"
  shows "expr_ok te local user x h' e u"
proof -
  obtain a fs t v where l: "loc x h e = Some (a, fs)" "vars h a = Some (t, v)" "path_type te local t fs = Some u"
    by (rule expr_okE [OF assms(1)])
  obtain v' where "vars h' a = Some (t, v')" by (rule store_advances_var [OF assms(2) l(2)])
  moreover have "loc x h'' e = Some (a, fs)" if "store_advances te local user h h''" for h''
    using expr_ok_stable [OF assms(1) that] l(1) by simp
  ultimately show ?thesis unfolding expr_ok_def using assms(2) l(3) store_advances_trans [OF assms(2)] by metis
qed

lemma expr_ok_fetch:
  assumes "store_ok te local h" and "expr_ok te local user x h e u"
  obtains a fs t v w where "loc x h e = Some (a, fs)" "vars h a = Some (t, v)" "path_type te local t fs = Some u"
    "get_path fs v = Some w" "fetch h (a, fs) = Some w" "val_ok te local (vars h) u w"
proof -
  obtain a fs t v where l: "loc x h e = Some (a, fs)" "vars h a = Some (t, v)" "path_type te local t fs = Some u"
    by (rule expr_okE [OF assms(2)])
  with assms(1) have "val_ok te local (vars h) t v" by (auto simp: store_ok_def)
  from val_ok_path [OF this l(3)] obtain w where "get_path fs v = Some w" "val_ok te local (vars h) u w" by blast
  with l show thesis by (intro that) (auto simp: fetch_def)
qed

text \<open>What the expression holds later is what it held, advanced.\<close>

lemma expr_ok_later:
  assumes "store_ok te local h" and "expr_ok te local user x h e u" and "store_advances te local user h h'"
    and "loc x h e = Some l" and "fetch h l = Some w"
  obtains w' where "loc x h' e = Some l" and "fetch h' l = Some w'" and "advances te local user u w w'"
proof -
  obtain a fs t v w0 where l: "loc x h e = Some (a, fs)" "vars h a = Some (t, v)" "path_type te local t fs = Some u"
      "get_path fs v = Some w0" "fetch h (a, fs) = Some w0"
    by (rule expr_ok_fetch [OF assms(1,2)])
  obtain v' where v': "vars h' a = Some (t, v')" "advances te local user t v v'" by (rule store_advances_var [OF assms(3) l(2)])
  from advances_path [OF v'(2) l(3,4)] obtain w' where "get_path fs v' = Some w'" "advances te local user u w0 w'" by blast
  moreover have "loc x h' e = loc x h e" by (rule expr_ok_stable [OF assms(2,3)])
  ultimately show thesis using assms(4,5) l v' by (intro that) (auto simp: fetch_def)
qed

lemma assign_advances:
  assumes "vars h a = Some (t, v)" "path_type te local t fs = Some u" "get_path fs v = Some w" "advances te local user u w w'"
  shows "store_advances te local user h (assign h (a, fs) w') \<and> fetch (assign h (a, fs) w') (a, fs) = Some w'"
  using put_path_advances [OF assms(2,3,4)] assms(1)
  by (auto simp: store_advances_def assign_def fetch_def intro: advances.same)

subsection \<open>Reset states last\<close>

lemma clean_advances:
  "clean te local user h t v \<Longrightarrow> store_advances te local user h h' \<Longrightarrow> advances te local user t v v' \<Longrightarrow> clean te local user h' t v'"
proof (induction arbitrary: v' rule: clean.induct)
  case (reset t n)
  from reset.prems(2) obtain k where "v' = VData ((user t ^^ k) (user t n))"
    by (rule adv_dataE) (use reset.hyps in \<open>auto intro: that [of 0]\<close>)
  moreover have "(user t ^^ k) (user t n) = user t ((user t ^^ k) n)" by (simp add: funpow_swap1)
  ultimately show ?case using clean.reset [OF reset.hyps] by simp
next
  case (mapv t m)
  then have "maps h' m = []" unfolding store_advances_def by metis
  with mapv show ?case by (auto elim!: adv_mapE intro: clean.mapv)
next
  case (ptr t el a v)
  obtain w where w: "vars h' a = Some (el, w)" "advances te local user el v w" by (rule store_advances_var [OF ptr.prems(1) ptr.hyps(2)])
  from ptr.prems(2) have "v' = VPtr (Some a)" by (auto elim: adv_ptrE)
  with clean.ptr [OF ptr.hyps(1) w(1) ptr.IH [OF ptr.prems(1) w(2)]] show ?case by simp
next
  case (struct t gs fvs)
  from struct.prems(2) show ?case
  proof (rule adv_structE)
    assume "v' = VStruct fvs"
    with struct.IH [OF _ _ struct.prems(1) advances.same] clean.struct [OF struct.hyps(1,2)] show ?thesis by blast
  next
    fix gs' fvs'
    assume v': "v' = VStruct fvs'" "shape te local t = ShStruct gs'" "map fst fvs' = map fst fvs"
      and adv: "\<And>f ft w w'. map_of gs' f = Some ft \<Longrightarrow> map_of fvs f = Some w \<Longrightarrow> map_of fvs' f = Some w' \<Longrightarrow> advances te local user ft w w'"
    have [simp]: "gs' = gs" using v'(2) struct.hyps(1) by simp
    show ?thesis unfolding v'(1)
    proof (rule clean.struct [OF struct.hyps(1)])
      show "map fst fvs' = map fst gs" using v'(3) struct.hyps(2) by simp
      fix f ft w' assume f: "map_of gs f = Some ft" "map_of fvs' f = Some w'"
      then obtain w where w: "map_of fvs f = Some w" using map_of_dom [OF v'(3), of f] by (cases "map_of fvs f") auto
      from struct.IH [OF f(1) w struct.prems(1) adv] f w show "clean te local user h' ft w'" by simp
    qed
  qed
qed (auto elim!: adv_dataE adv_sliceE adv_mapE adv_ptrE intro: clean.intros)

definition clean_at :: "types_env \<Rightarrow> string \<Rightarrow> (gtype \<Rightarrow> nat \<Rightarrow> nat) \<Rightarrow> nat \<Rightarrow> gstore \<Rightarrow> gexpr \<Rightarrow> gtype \<Rightarrow> bool" where
  "clean_at te local user x h e t \<longleftrightarrow> (\<exists>l w. loc x h e = Some l \<and> fetch h l = Some w \<and> clean te local user h t w)"

lemma clean_at_advances:
  assumes "store_ok te local h" "expr_ok te local user x h e t" "store_advances te local user h h'" "clean_at te local user x h e t"
  shows "clean_at te local user x h' e t"
proof -
  from assms(4) obtain l w where w: "loc x h e = Some l" "fetch h l = Some w" "clean te local user h t w" by (auto simp: clean_at_def)
  obtain w' where "loc x h' e = Some l" "fetch h' l = Some w'" "advances te local user t w w'"
    by (rule expr_ok_later [OF assms(1-3) w(1,2)])
  with clean_advances [OF w(3) assms(3)] show ?thesis by (auto simp: clean_at_def)
qed

subsection \<open>Places\<close>

text \<open>The places the generator writes to: variables, and the variables behind pointer variables.\<close>

definition place_ok :: "types_env \<Rightarrow> string \<Rightarrow> (gtype \<Rightarrow> nat \<Rightarrow> nat) \<Rightarrow> nat \<Rightarrow> gstore \<Rightarrow> gexpr \<Rightarrow> gtype \<Rightarrow> bool" where
  "place_ok te local user x h e t \<longleftrightarrow> expr_ok te local user x h e t \<and>
     (\<forall>p. e = EDeref p \<longrightarrow> (\<exists>u. expr_ok te local user x h p u \<and> shape te local u = ShPtr t))"

lemma place_ok_advances: "place_ok te local user x h e t \<Longrightarrow> store_advances te local user h h' \<Longrightarrow> place_ok te local user x h' e t"
  unfolding place_ok_def using expr_ok_advances by metis

lemma field_loc:
  assumes "store_ok te local h" "expr_ok te local user x h e t" "shape te local t = ShStruct gs" "f \<noteq> ''_''"
  shows "loc x h (EField (base e) f) = map_option (\<lambda>(a, fs). (a, fs @ [f])) (loc x h e)"
proof -
  obtain a fs t' v w where l: "loc x h e = Some (a, fs)" "fetch h (a, fs) = Some w" "val_ok te local (vars h) t w"
    by (rule expr_ok_fetch [OF assms(1,2)])
  from l(3) assms(3) obtain fvs where "w = VStruct fvs" by (cases w) auto
  with l assms(4) show ?thesis by (cases e) (auto split: option.splits gval.splits)
qed

lemma field_place:
  assumes "store_ok te local h" "expr_ok te local user x h e t" "shape te local t = ShStruct gs" "map_of gs f = Some ft" "f \<noteq> ''_''"
  shows "place_ok te local user x h (EField (base e) f) ft"
proof -
  obtain a fs u v where l: "loc x h e = Some (a, fs)" "vars h a = Some (u, v)" "path_type te local u fs = Some t"
    by (rule expr_okE [OF assms(2)])
  have "loc x h' (EField (base e) f) = Some (a, fs @ [f])" if "store_advances te local user h h'" for h'
    using field_loc [OF store_ok_advances [OF assms(1) that] expr_ok_advances [OF assms(2) that] assms(3,5)]
      expr_ok_stable [OF assms(2) that] l(1) by simp
  moreover from this [OF store_advances_refl] have "loc x h (EField (base e) f) = Some (a, fs @ [f])" .
  moreover have "path_type te local u (fs @ [f]) = Some ft" using l(3) assms(3,4) by (simp add: path_type_append)
  ultimately show ?thesis using l(2) unfolding place_ok_def expr_ok_def by auto
qed

lemma deref_place:
  assumes "store_ok te local h" "expr_ok te local user x h e u" "shape te local u = ShPtr el"
    and "loc x h e = Some l" "fetch h l = Some (VPtr (Some b))"
  shows "place_ok te local user x h (EDeref e) el"
proof -
  have "loc x h' (EDeref e) = Some (b, [])" if adv: "store_advances te local user h h'" for h'
  proof -
    obtain w' where "loc x h' e = Some l" "fetch h' l = Some w'" "advances te local user u (VPtr (Some b)) w'"
      by (rule expr_ok_later [OF assms(1,2) adv assms(4,5)])
    then show ?thesis by (auto elim: adv_ptrE)
  qed
  moreover obtain w where "fetch h l = Some w" "val_ok te local (vars h) u w"
    by (rule expr_ok_fetch [OF assms(1,2)]) (use assms(4) in auto)
  with assms(3,5) obtain v where "vars h b = Some (el, v)" by auto
  ultimately show ?thesis using assms(2-5) unfolding place_ok_def expr_ok_def by fastforce
qed

section \<open>The generated statements reset\<close>

lemma execs_append: "execs te local user x (ss @ ss') h = (case execs te local user x ss h of None \<Rightarrow> None | Some h' \<Rightarrow> execs te local user x ss' h')"
  by (induction ss arbitrary: h) (auto split: option.split)

lemma zeroBasic_fits: "Underlying te t = TBasic k \<Longrightarrow> settable (TBasic k) \<Longrightarrow> zero_fits te t (ZLit (zeroBasic k))"
  by (cases k) auto

lemma gen_zero_fits:
  assumes "shape te local t = ShData" and "settable (Underlying te t)" and "gen (Suc fuel) te local e t im = Some (ss, im')"
  shows "\<exists>z. ss = [SZero e z] \<and> zero_fits te t z"
  using assms zeroBasic_fits [of te t]
  by (auto simp: shape_def gen_composite_def gen_zero_def zeroExpr_def split: gtype.splits option.splits if_splits prod.splits)

lemma expr_ok_type: "expr_ok te local user x h e t \<Longrightarrow> loc x h e = Some l \<Longrightarrow> var_type te local h l = Some t"
  by (erule expr_okE) (auto simp: var_type_def)

text \<open>An assignment of a reset value to a place.\<close>

lemma assign_resets:
  assumes "store_ok te local h" "expr_ok te local user x h e t" "loc x h e = Some l" "fetch h l = Some w"
    and adv: "advances te local user t w w'" and cl: "\<And>h. clean te local user h t w'"
  shows "store_advances te local user h (assign h l w') \<and> clean_at te local user x (assign h l w') e t"
proof -
  obtain a fs u v w0 where l: "loc x h e = Some (a, fs)" "vars h a = Some (u, v)" "path_type te local u fs = Some t"
      "get_path fs v = Some w0" "fetch h (a, fs) = Some w0"
    by (rule expr_ok_fetch [OF assms(1,2)])
  with assms(3,4) have "l = (a, fs)" "w0 = w" by auto
  with assign_advances [OF l(2,3,4)] adv have "store_advances te local user h (assign h l w') \<and> fetch (assign h l w') l = Some w'"
    by simp
  with expr_ok_stable [OF assms(2)] assms(3) cl show ?thesis by (auto simp: clean_at_def)
qed

lemma zero_resets:
  assumes "store_ok te local h" "expr_ok te local user x h e t" "shape te local t = ShData" "zero_fits te t z"
  shows "\<exists>h'. execs te local user x [SZero e z] h = Some h' \<and> store_advances te local user h h' \<and> clean_at te local user x h' e t"
proof -
  obtain a fs w where l: "loc x h e = Some (a, fs)" "fetch h (a, fs) = Some w" "val_ok te local (vars h) t w"
    by (rule expr_ok_fetch [OF assms(1,2)])
  from l(3) assms(3) obtain n where "w = VData n" by (cases w) auto
  with assign_resets [OF assms(1,2) l(1,2), of "VData 0"] expr_ok_type [OF assms(2) l(1)] l assms(3,4) show ?thesis
    by (auto intro: advances.data clean.data)
qed

lemma map_resets:
  assumes "store_ok te local h" "expr_ok te local user x h e t" "shape te local t = ShMap"
  shows "\<exists>h'. execs te local user x [SClear e] h = Some h' \<and> store_advances te local user h h' \<and> clean_at te local user x h' e t"
proof -
  obtain a fs w where l: "loc x h e = Some (a, fs)" "fetch h (a, fs) = Some w" "val_ok te local (vars h) t w"
    by (rule expr_ok_fetch [OF assms(1,2)])
  from l(3) assms(3) obtain m where w: "w = VMap m" by (cases w) auto
  show ?thesis
  proof (cases m)
    case None
    with l w assms(3) show ?thesis by (auto simp: clean_at_def intro: clean.nil_map)
  next
    case (Some k)
    let ?h = "h\<lparr>maps := (maps h)(k := [])\<rparr>"
    have adv: "store_advances te local user h ?h" by (auto simp: store_advances_def intro: advances.same)
    have "fetch ?h (a, fs) = Some (VMap (Some k))" using l(2) w Some by (simp add: fetch_def)
    with expr_ok_stable [OF assms(2) adv] l(1) assms(3) have "clean_at te local user x ?h e t"
      by (auto simp: clean_at_def intro!: clean.mapv)
    with l w Some adv show ?thesis by simp
  qed
qed

lemma ptr_resets:
  assumes "store_ok te local h" "expr_ok te local user x h e t" "shape te local t = ShPtr el"
    and step: "place_ok te local user x h (EDeref e) el \<Longrightarrow>
      \<exists>h'. execs te local user x ss h = Some h' \<and> store_advances te local user h h' \<and> clean_at te local user x h' (EDeref e) el"
  shows "\<exists>h'. execs te local user x [SIfNotNil e ss] h = Some h' \<and> store_advances te local user h h' \<and> clean_at te local user x h' e t"
proof -
  obtain a fs w where l: "loc x h e = Some (a, fs)" "fetch h (a, fs) = Some w" "val_ok te local (vars h) t w"
    by (rule expr_ok_fetch [OF assms(1,2)])
  from l(3) assms(3) obtain p where w: "w = VPtr p" by (cases w) auto
  show ?thesis
  proof (cases p)
    case None
    with l w assms(3) show ?thesis by (auto simp: clean_at_def intro: clean.nil_ptr)
  next
    case (Some b)
    from step [OF deref_place [OF assms(1-3) l(1)]] l(2) w Some obtain h' where h': "execs te local user x ss h = Some h'"
        "store_advances te local user h h'" "clean_at te local user x h' (EDeref e) el"
      by auto
    obtain w' where w': "loc x h' e = Some (a, fs)" "fetch h' (a, fs) = Some w'" "advances te local user t w w'"
      by (rule expr_ok_later [OF assms(1,2) h'(2) l(1,2)])
    with w Some have "fetch h' (a, fs) = Some (VPtr (Some b))" by (auto elim: adv_ptrE)
    moreover from l(3) w Some assms(3) obtain v where "vars h b = Some (el, v)" by auto
    then obtain v' where "vars h' b = Some (el, v')" by (rule store_advances_var [OF h'(2)])
    ultimately have "clean_at te local user x h' e t"
      using h'(3) w'(1) assms(3) by (auto simp: clean_at_def fetch_def intro!: clean.ptr)
    with h' l w Some show ?thesis by simp
  qed
qed

lemma fields_reset:
  assumes gen: "gen_fields (\<lambda>(n, ft). g (EField (base e) n) ft) gs' im = Some (ss, im')"
    and step: "\<And>n ft im ss im' h. (n, ft) \<in> set gs' \<Longrightarrow> g (EField (base e) n) ft im = Some (ss, im') \<Longrightarrow>
      store_ok te local h \<Longrightarrow> place_ok te local user x h (EField (base e) n) ft \<Longrightarrow>
      \<exists>h'. execs te local user x ss h = Some h' \<and> store_advances te local user h h' \<and> clean_at te local user x h' (EField (base e) n) ft"
    and ok: "store_ok te local h" "expr_ok te local user x h e t"
    and sh: "shape te local t = ShStruct gs" "\<And>n ft. (n, ft) \<in> set gs' \<Longrightarrow> map_of gs n = Some ft \<and> n \<noteq> ''_''"
  shows "\<exists>h'. execs te local user x ss h = Some h' \<and> store_advances te local user h h' \<and>
    (\<forall>(n, ft) \<in> set gs'. clean_at te local user x h' (EField (base e) n) ft)"
  using gen step ok sh(2)
proof (induction gs' arbitrary: im ss h)
  case (Cons nf gs')
  obtain n ft where nf: "nf = (n, ft)" by fastforce
  from Cons.prems(1) nf obtain s1 im1 s2 where g: "g (EField (base e) n) ft im = Some (s1, im1)"
      "gen_fields (\<lambda>(n, ft). g (EField (base e) n) ft) gs' im1 = Some (s2, im')" "ss = s1 @ s2"
    by (auto split: option.splits)
  have pl: "place_ok te local user x h (EField (base e) n) ft"
    using field_place [OF Cons.prems(3,4) sh(1), of n ft] Cons.prems(5) [of n ft] nf by simp
  from Cons.prems(2) [OF _ g(1) Cons.prems(3) pl] nf obtain h1 where h1: "execs te local user x s1 h = Some h1" "store_advances te local user h h1"
      "clean_at te local user x h1 (EField (base e) n) ft"
    by auto
  have ok1: "store_ok te local h1" "expr_ok te local user x h1 e t" "place_ok te local user x h1 (EField (base e) n) ft"
    using store_ok_advances [OF Cons.prems(3) h1(2)] expr_ok_advances [OF Cons.prems(4) h1(2)] place_ok_advances [OF pl h1(2)] .
  have "\<exists>h'. execs te local user x s2 h1 = Some h' \<and> store_advances te local user h1 h' \<and>
      (\<forall>(n, ft) \<in> set gs'. clean_at te local user x h' (EField (base e) n) ft)"
  proof (rule Cons.IH [OF g(2) _ ok1(1,2)])
    show "\<exists>h'. execs te local user x ss h = Some h' \<and> store_advances te local user h h' \<and> clean_at te local user x h' (EField (base e) n) ft"
      if "(n, ft) \<in> set gs'" "g (EField (base e) n) ft im = Some (ss, im')" "store_ok te local h"
        "place_ok te local user x h (EField (base e) n) ft" for n ft im ss im' h
      using Cons.prems(2) [OF _ that(2-4)] that(1) by simp
  qed (rule Cons.prems(5), simp)
  then obtain h2 where h2: "execs te local user x s2 h1 = Some h2"
      "store_advances te local user h1 h2" "\<forall>(n, ft) \<in> set gs'. clean_at te local user x h2 (EField (base e) n) ft"
    by blast
  have "clean_at te local user x h2 (EField (base e) n) ft"
    using clean_at_advances [OF ok1(1) _ h2(2) h1(3)] ok1(3) by (simp add: place_ok_def)
  with h1 h2 g(3) nf store_advances_trans [OF h1(2) h2(2)] show ?case by (auto simp: execs_append)
qed auto

text \<open>A struct all of whose fields are reset is reset.\<close>

lemma struct_reset:
  assumes ok: "store_ok te local h" "expr_ok te local user x h e t" and sh: "shape te local t = ShStruct gs"
    and fields: "\<forall>(n, ft) \<in> set gs. clean_at te local user x h (EField (base e) n) ft" and names: "fields_ok gs"
  shows "clean_at te local user x h e t"
proof -
  obtain a fs w where l: "loc x h e = Some (a, fs)" "fetch h (a, fs) = Some w" "val_ok te local (vars h) t w"
    by (rule expr_ok_fetch [OF ok])
  from l(3) sh obtain fvs where w: "w = VStruct fvs" "map fst fvs = map fst gs" by (cases w) auto
  have "clean te local user h t (VStruct fvs)"
  proof (rule clean.struct [OF sh w(2)])
    fix f ft v assume f: "map_of gs f = Some ft" "map_of fvs f = Some v"
    with fields have "clean_at te local user x h (EField (base e) f) ft" by (auto dest: map_of_SomeD)
    moreover have "f \<noteq> ''_''" using names f(1) by (force simp: fields_ok_def dest: map_of_SomeD)
    then have "loc x h (EField (base e) f) = Some (a, fs @ [f])" using field_loc [OF ok sh] l(1) by simp
    moreover have "fetch h (a, fs @ [f]) = Some v"
      using l(2) w f(2) by (auto simp: fetch_def get_path_append split: option.splits)
    ultimately show "clean te local user h ft v" by (auto simp: clean_at_def)
  qed
  with l w show ?thesis by (auto simp: clean_at_def)
qed

lemma gen_fields_reset:
  assumes names: "fields_ok gs" and sh: "shape te local t = ShStruct gs"
    and gen: "gen_fields (\<lambda>(n, ft). g (EField (base e) n) ft) gs im = Some (ss, im')"
    and step: "\<And>n ft im ss im' h. (n, ft) \<in> set gs \<Longrightarrow> g (EField (base e) n) ft im = Some (ss, im') \<Longrightarrow>
      store_ok te local h \<Longrightarrow> place_ok te local user x h (EField (base e) n) ft \<Longrightarrow>
      \<exists>h'. execs te local user x ss h = Some h' \<and> store_advances te local user h h' \<and> clean_at te local user x h' (EField (base e) n) ft"
    and ok: "store_ok te local h" "expr_ok te local user x h e t"
  shows "\<exists>h'. execs te local user x ss h = Some h' \<and> store_advances te local user h h' \<and> clean_at te local user x h' e t"
proof -
  have "\<exists>h'. execs te local user x ss h = Some h' \<and> store_advances te local user h h' \<and>
      (\<forall>(n, ft) \<in> set gs. clean_at te local user x h' (EField (base e) n) ft)"
    by (rule fields_reset [OF gen _ ok sh]) (use step names in \<open>auto simp: fields_ok_def map_of_eq_Some_iff image_iff Bex_def\<close>)
  then show ?thesis
    using struct_reset [OF store_ok_advances [OF ok(1)] expr_ok_advances [OF ok(2)] sh _ names] by blast
qed

lemma gen_resets:
  "gen fuel te local e t im = Some (ss, im') \<Longrightarrow> store_ok te local h \<Longrightarrow> place_ok te local user x h e t \<Longrightarrow> emittable fuel te local k t \<Longrightarrow>
    \<exists>h'. execs te local user x ss h = Some h' \<and> store_advances te local user h h' \<and> clean_at te local user x h' e t"
proof (induction fuel arbitrary: e t im ss im' h k)
  case (Suc fuel)
  from Suc.prems(3) have ex: "expr_ok te local user x h e t" by (simp add: place_ok_def)
  obtain a fs w where l: "loc x h e = Some (a, fs)" "fetch h (a, fs) = Some w" "val_ok te local (vars h) t w"
    by (rule expr_ok_fetch [OF Suc.prems(2) ex])
  note set_to = assign_resets [OF Suc.prems(2) ex l(1,2)]
  show ?case
  proof (cases "shape te local t")
    case ShData
    have "settable (Underlying te t)"
      using ShData Suc.prems(4) by (auto simp: shape_def split: gtype.splits option.splits if_splits)
    from gen_zero_fits [OF ShData this Suc.prems(1)] zero_resets [OF Suc.prems(2) ex ShData] show ?thesis by blast
  next
    case ShReset
    with Suc.prems(1) have ss: "ss = [SCall e t]" by (auto simp: shape_def split: gtype.splits option.splits if_splits)
    from l(3) ShReset obtain n where "w = VData n" by (cases w) auto
    with set_to [of "VData (user t n)"] advances.reset [OF ShReset, of user n 1] clean.reset [OF ShReset] l ss expr_ok_type [OF ex l(1)] show ?thesis by auto
  next
    case ShSlice
    with Suc.prems(1) have ss: "ss = [STrunc e]" by (auto simp: shape_def split: gtype.splits option.splits if_splits)
    from l(3) ShSlice obtain r n c where "w = VSlice r n c" by (cases w) auto
    with set_to [of "VSlice r 0 c"] l ss ShSlice show ?thesis by (auto intro: advances.slice clean.slice)
  next
    case ShMap
    with Suc.prems(1) have "ss = [SClear e]" by (auto simp: shape_def split: gtype.splits option.splits if_splits)
    with map_resets [OF Suc.prems(2) ex ShMap] show ?thesis by simp
  next
    case (ShPtr el)
    then have u: "Underlying te t = TPointer el" by (auto simp: shape_def split: gtype.splits option.splits if_splits)
    with Suc.prems(1) obtain ss1 where g: "gen fuel te local (EDeref e) el im = Some (ss1, im')" "ss = [SIfNotNil e ss1]" by auto
    from u Suc.prems(4) have "emittable fuel te local (Suc k) el" by simp
    from Suc.IH [OF g(1) Suc.prems(2) _ this] show ?thesis unfolding g(2) by (rule ptr_resets [OF Suc.prems(2) ex ShPtr])
  next
    case (ShStruct gs)
    then have fields: "gen_fields (\<lambda>(n, ft). gen fuel te local (EField (base e) n) ft) gs im = Some (ss, im')"
      using Suc.prems(1) by (auto simp: shape_def split: gtype.splits option.splits if_splits)
    have names: "fields_ok gs" and sub: "\<And>n ft. (n, ft) \<in> set gs \<Longrightarrow> emittable fuel te local 0 ft"
      using ShStruct Suc.prems(4) by (auto simp: shape_def list_all_iff split: gtype.splits option.splits if_splits)
    show ?thesis
      by (rule gen_fields_reset [OF names ShStruct fields _ Suc.prems(2) ex]) (rule Suc.IH [OF _ _ _ sub])
  qed
qed simp

section \<open>Properties\<close>

text \<open>The statements of a method, run on a receiver that is not nil.\<close>

lemma method_resets:
  assumes fields: "fields_ok fs" "list_all (\<lambda>(f, ft). emittable fuel te local 0 ft) fs"
    and named: "shape te local named = ShStruct fs"
    and gen: "method_stmts fuel te local fs im = Some (ss, im')"
    and h: "store_ok te local h" "vars h x = Some (TPointer named, VPtr (Some a))"
  shows "\<exists>h' v. execs te local user x ss h = Some h' \<and> store_advances te local user h h' \<and>
    vars h' a = Some (named, v) \<and> clean te local user h' named v"
proof -
  have var: "expr_ok te local user x h EVar (TPointer named)" using h(2) by (auto simp: expr_ok_def)
  have "place_ok te local user x h (EDeref EVar) named"
    by (rule deref_place [OF h(1) var, where b = a and l = "(x, [])"]) (use h(2) in \<open>simp_all add: shape_def fetch_def\<close>)
  then have ex: "expr_ok te local user x h (EDeref EVar) named" by (simp add: place_ok_def)
  have gen': "gen_fields (\<lambda>(n, ft). gen fuel te local (EField (base (EDeref EVar)) n) ft) fs im = Some (ss, im')"
    using gen by (simp add: method_stmts_def)
  have "\<exists>h'. execs te local user x ss h = Some h' \<and> store_advances te local user h h' \<and> clean_at te local user x h' (EDeref EVar) named"
    by (rule gen_fields_reset [OF fields(1) named gen' _ h(1) ex]) (use fields(2) in \<open>auto simp: list_all_iff intro: gen_resets\<close>)
  then obtain h' where h': "execs te local user x ss h = Some h'"
      "store_advances te local user h h'" "clean_at te local user x h' (EDeref EVar) named"
    by blast
  have "loc x h' (EDeref EVar) = Some (a, [])" using expr_ok_stable [OF ex h'(2)] h(2) by (simp add: fetch_def)
  moreover from h(1,2) have "map_option fst (vars h a) = Some named" by (force simp: store_ok_def shape_def)
  with h'(2) have "map_option fst (vars h' a) = Some named" by (simp add: store_advances_def)
  ultimately show ?thesis using h' by (auto simp: clean_at_def fetch_def)
qed


text \<open>A struct with a number, a slice and a pointer to a struct that holds a map.\<close>

abbreviation sample_types :: types_env where
  "sample_types \<equiv> te_plain\<lparr>te_under := (\<lambda>p n. if n = ''S''
     then TStruct [(''n'', TBasic KNumeric), (''buf'', TSlice (TBasic KNumeric)), (''p'', TPointer (TNamed ''m'' ''T''))]
     else TStruct [(''m'', TMap (TBasic KString) (TBasic KNumeric))])\<rparr>"

abbreviation sample_store :: gstore where
  "sample_store \<equiv> \<lparr>vars = [0 \<mapsto> (TPointer (TNamed ''m'' ''S''), VPtr (Some 1)),
       1 \<mapsto> (TNamed ''m'' ''S'', VStruct [(''n'', VData 7), (''buf'', VSlice (Some 3) 4 8), (''p'', VPtr (Some 2))]),
       2 \<mapsto> (TNamed ''m'' ''T'', VStruct [(''m'', VMap (Some 5))])],
     maps = (\<lambda>k. [1, 2])\<rparr>"

lemmas sample_type_defs = shape_def accessibleStruct_def hasResetMethod_def

lemma sample_store_ok: "store_ok sample_types ''m'' sample_store"
  by (auto simp: store_ok_def sample_type_defs split: if_splits)


text \<open>
  For a pointer to a pointer to a struct the emitters write a selector after a dereference without the
  parentheses it needs: \<open>*x.p.n\<close>, which Go reads as \<open>*(x.p.n)\<close> and refuses.
\<close>

theorem double_pointer_text:
  assumes "te_under te pkg s = TStruct [(f, TBasic k)]" and "\<not> hasResetMethod (te_ptr_methods te (TNamed pkg s))"
  shows "map_option fst (emitResetForExpr (Suc (Suc (Suc (Suc fuel)))) te pkg ''x.p'' (TPointer (TPointer (TNamed pkg s))) ([], im)) =
      Some (text_line 1 ''if x.p != nil {'' @ text_line 2 ''if *x.p != nil {'' @ text_line 1 (''*x.p.'' @ f @ '' = '' @ zeroBasic k) @
        text_line 2 ''}'' @ text_line 1 ''}'')"
    and "print_expr (EField (EDeref (EField EVar ''p'')) f) = ''(*x.p).'' @ f"
  using assms by (simp_all add: emit_text accessibleStruct_def)

end
