(* ===== verification/Reset_Run.thy ===== *)
theory Reset_Run
  imports Reset_Gen
begin

text \<open>
  The generator as a program (\<open>main\<close> of \<open>cmd/reset/main.go\<close>, \<open>processPackages\<close> of \<open>cmd/reset/logic.go\<close>): what a run over a module
  leaves on disk. \<open>packages.Load\<close>, \<open>go/format\<close> and the quoting of import paths are arguments; the model is that of
  \<open>Reset_Gen\<close>, and the file system that of \<open>Filesystem\<close>.
\<close>

abbreviation targets_of :: "loaded_pkg \<Rightarrow> targetStruct list" where
  "targets_of p \<equiv> findTargetStructs (lp_types p) (lp_syntax p)"

text \<open>
  A package that declares a struct type whose doc comment, or that of its declaration, has the marker (with its plus sign), which the package
  scope knows as a named type, and for which neither the type nor the pointer to it has a \<open>Reset\<close> method yet.
\<close>

definition needs_reset :: "loaded_pkg \<Rightarrow> bool" where
  "needs_reset p \<longleftrightarrow>
     (\<exists>file \<in> set (lp_syntax p). \<exists>doc specs ts named cs c.
        TypeDecl doc specs \<in> set file \<and> ts \<in> set specs \<and> ts_struct ts \<and> ts_lookup ts = Some named \<and>
        (doc = Some cs \<or> ts_doc ts = Some cs) \<and> c \<in> set cs \<and> comment_matches c \<and>
        \<not> hasResetMethod (te_methods (lp_types p) named) \<and> \<not> hasResetMethod (te_ptr_methods (lp_types p) named))"

lemma needs_reset_targets: "needs_reset p \<longleftrightarrow> targets_of p \<noteq> []"
proof -
  have marked: "hasMarker doc sdoc \<longleftrightarrow> (\<exists>cs c. (doc = Some cs \<or> sdoc = Some cs) \<and> c \<in> set cs \<and> comment_matches c)" for doc sdoc
    by (cases doc; cases sdoc) (auto simp: hasMarker_def list_ex_iff)
  have target: "(\<exists>tg. spec_target te doc ts = Some tg) \<longleftrightarrow> ts_struct ts \<and> hasMarker doc (ts_doc ts) \<and>
      (\<exists>named. ts_lookup ts = Some named \<and> \<not> hasResetMethod (te_methods te named) \<and> \<not> hasResetMethod (te_ptr_methods te named))" for te doc ts
    by (auto simp: spec_target_def split: option.splits)
  have "targets_of p \<noteq> [] \<longleftrightarrow> (\<exists>tg. tg \<in> set (targets_of p))" by (metis ex_in_conv set_empty)
  also have "\<dots> \<longleftrightarrow> (\<exists>f \<in> set (lp_syntax p). \<exists>doc specs ts. TypeDecl doc specs \<in> set f \<and> ts \<in> set specs \<and>
      (\<exists>tg. spec_target (lp_types p) doc ts = Some tg))"
    unfolding target_of_decl by blast
  also have "\<dots> \<longleftrightarrow> needs_reset p" unfolding target marked needs_reset_def by blast
  finally show ?thesis by blast
qed

text \<open>What the output file of a package should hold: nothing without such a struct.\<close>

definition wanted :: "(loaded_pkg \<Rightarrow> string) \<Rightarrow> loaded_pkg \<Rightarrow> string option" where
  "wanted src p = (if needs_reset p then Some (src p) else None)"

text \<open>A package that was loaded without errors, and for which \<open>generateResetFile\<close> returns the text \<open>src p\<close>.\<close>

definition generates :: "(string \<Rightarrow> go_error + string) \<Rightarrow> (string \<Rightarrow> string) \<Rightarrow> nat \<Rightarrow> (loaded_pkg \<Rightarrow> string) \<Rightarrow> loaded_pkg \<Rightarrow> bool" where
  "generates format_Source quote fuel src p \<longleftrightarrow>
     lp_errors p = [] \<and>
     (lp_files p \<noteq> [] \<and> targets_of p \<noteq> [] \<longrightarrow>
        generateResetFile format_Source quote fuel (lp_types p) (lp_pkg p) (targets_of p) = Some (Inr (src p)))"

lemma out_path_clean [simp]: "filepath_Clean (out_path p) = out_path p"
  by (simp add: out_path_def filepath_Join_def filepath_Clean_idem)

lemma no_faults [simp]: "fs_faults s = [] \<Longrightarrow> fs_call s = (s, None)" "fs_faults s = [] \<Longrightarrow> fs_next s = (s, FsOk)"
  by (simp_all add: fs_call_def fs_next_def)

text \<open>One package: its output file gets what is wanted, no other file changes, and a change is counted.\<close>

lemma process_package_outputs:
  assumes "fs_faults s = []" and "generates format_Source quote fuel src p" and "lp_files p \<noteq> []"
  shows "\<exists>s'. process_package format_Source quote fuel p (s, n) =
      Some ((s', n + (if fs_content (out_path p) s = wanted src p then 0 else 1)), None) \<and> fs_faults s' = [] \<and>
    (\<forall>path. fs_content path s' = (if path = out_path p then wanted src p else fs_content path s))"
proof (cases "targets_of p = []")
  case True
  with assms show ?thesis
    by (cases "fs_content (out_path p) s") (auto simp: process_package_def generates_def os_Remove_def wanted_def needs_reset_targets)
next
  case False
  have written: "os_WriteFile (out_path p) b s = (fs_put (out_path p) b (fs_put (out_path p) [] s), None)" for b
    using assms(1) by (simp add: os_WriteFile_def os_Write_def)
  from False assms show ?thesis
    by (cases "fs_content (out_path p) s") (auto simp: process_package_def generates_def os_Open_def written wanted_def needs_reset_targets Let_def)
qed

lemma process_packages_outputs:
  assumes "fs_faults s = []" and "\<forall>p \<in> set pkgs. generates format_Source quote fuel src p"
    and "distinct (map out_path (filter (\<lambda>p. lp_files p \<noteq> []) pkgs))"
  shows "\<exists>s'. process_packages format_Source quote fuel pkgs (s, n) =
      Some ((s', n + length (filter (\<lambda>p. lp_files p \<noteq> [] \<and> fs_content (out_path p) s \<noteq> wanted src p) pkgs)), None) \<and>
    (\<forall>p \<in> set pkgs. lp_files p \<noteq> [] \<longrightarrow> fs_content (out_path p) s' = wanted src p) \<and>
    (\<forall>path. path \<notin> out_path ` {p \<in> set pkgs. lp_files p \<noteq> []} \<longrightarrow> fs_content path s' = fs_content path s)"
  using assms
proof (induction pkgs arbitrary: s n)
  case (Cons p pkgs)
  show ?case
  proof (cases "lp_files p = []")
    case True
    with Cons.prems(2) have "process_package format_Source quote fuel p (s, n) = Some ((s, n), None)"
      by (simp add: process_package_def generates_def)
    moreover have "{q \<in> set (p # pkgs). lp_files q \<noteq> []} = {q \<in> set pkgs. lp_files q \<noteq> []}" using True by auto
    ultimately show ?thesis using Cons.IH [OF Cons.prems(1), of n] Cons.prems(2,3) True by simp
  next
    case False
    with Cons.prems obtain s1 where s1: "process_package format_Source quote fuel p (s, n) =
          Some ((s1, n + (if fs_content (out_path p) s = wanted src p then 0 else 1)), None)" "fs_faults s1 = []"
        "\<forall>path. fs_content path s1 = (if path = out_path p then wanted src p else fs_content path s)"
      using process_package_outputs [of s format_Source quote fuel src p n] by auto
    have mine: "out_path p \<notin> out_path ` {q \<in> set pkgs. lp_files q \<noteq> []}" using Cons.prems(3) False by auto
    have other: "fs_content (out_path q) s1 = fs_content (out_path q) s" if "q \<in> set pkgs" "lp_files q \<noteq> []" for q
    proof -
      have "out_path q \<noteq> out_path p" using mine that by (metis (mono_tags, lifting) imageI mem_Collect_eq)
      with s1(3) show ?thesis by simp
    qed
    then have count: "filter (\<lambda>q. lp_files q \<noteq> [] \<and> fs_content (out_path q) s1 \<noteq> wanted src q) pkgs =
        filter (\<lambda>q. lp_files q \<noteq> [] \<and> fs_content (out_path q) s \<noteq> wanted src q) pkgs"
      by (auto intro: filter_cong)
    from Cons.IH [OF s1(2), of "n + (if fs_content (out_path p) s = wanted src p then 0 else 1)"] Cons.prems(2,3) False
    obtain s' where "process_packages format_Source quote fuel pkgs (s1, n + (if fs_content (out_path p) s = wanted src p then 0 else 1)) =
          Some ((s', n + (if fs_content (out_path p) s = wanted src p then 0 else 1) +
            length (filter (\<lambda>q. lp_files q \<noteq> [] \<and> fs_content (out_path q) s \<noteq> wanted src q) pkgs)), None)"
        "\<forall>q \<in> set pkgs. lp_files q \<noteq> [] \<longrightarrow> fs_content (out_path q) s' = wanted src q"
        "\<forall>path. path \<notin> out_path ` {q \<in> set pkgs. lp_files q \<noteq> []} \<longrightarrow> fs_content path s' = fs_content path s1"
      by (auto simp: count)
    moreover have "out_path ` {q \<in> set (p # pkgs). lp_files q \<noteq> []} = insert (out_path p) (out_path ` {q \<in> set pkgs. lp_files q \<noteq> []})"
      using False by auto
    ultimately show ?thesis using s1 mine False by (intro exI [of _ s']) (simp del: set_simps, simp)
  qed
qed simp

section \<open>Properties\<close>


abbreviation marked_types :: types_env where
  "marked_types \<equiv> te_plain\<lparr>te_under := (\<lambda>p n. TStruct [(''n'', TBasic KNumeric)])\<rparr>"

definition marked_pkg :: loaded_pkg where
  "marked_pkg = pkg_of marked_types
     [[TypeDecl (Some [''// +generate:reset'']) [\<lparr>ts_name = ''T'', ts_struct = True, ts_doc = None, ts_lookup = Some (TNamed ''m'' ''T'')\<rparr>]]]"

lemma marked_pkg_generates:
  "targets_of marked_pkg \<noteq> []"
  "case generateResetFile Inr (\<lambda>s. s) 9 (lp_types marked_pkg) (lp_pkg marked_pkg) (targets_of marked_pkg) of
     Some (Inr src) \<Rightarrow> True | _ \<Rightarrow> False"
  by code_simp+


end
