(* ===== verification/Os_Exit_Lint.thy ===== *)
theory Os_Exit_Lint
  imports Golib
begin

text \<open>
  The \<open>osexitmain\<close> analyzer of \<open>cmd/staticlint\<close>, which reports direct calls of \<open>os.Exit\<close> in the function \<open>main\<close>
  of a package \<open>main\<close>, and the assembly of the analyzers that \<open>cmd/staticlint\<close> runs.

  The syntax tree keeps the nodes the analyzer tells apart (function literals, calls, selectors) with their
  positions; every other node is \<open>OtherNode\<close> with its children in the order \<open>ast.Inspect\<close> visits them. The type
  checker's answers (\<open>TypesInfo.Uses\<close>) and the file names of positions belong to the pass.
\<close>

section \<open>The syntax tree and the pass\<close>

type_synonym pos = nat
type_synonym ident = nat

datatype node =
    FuncLit "node list"
  | CallExpr pos "node option" "node list"
  | SelectorExpr "node option" "ident option"
  | OtherNode "node list"

datatype object = FuncObj "string option" string | OtherObj

record func_decl =
  fd_recv :: bool
  fd_name :: "string option"
  fd_body :: "node option"

record lint_pass =
  ps_pkg :: "string option"
  ps_inspector :: bool
  ps_decls :: "func_decl list"
  ps_uses :: "(ident \<Rightarrow> object option) option"
  ps_filename :: "pos \<Rightarrow> string"

section \<open>The analyzer\<close>

definition isOsExitCall :: "lint_pass \<Rightarrow> node option \<Rightarrow> bool" where
  "isOsExitCall pass callee =
     (case callee of
        Some (SelectorExpr x (Some sel)) \<Rightarrow>
          x \<noteq> None \<and>
          (case ps_uses pass of
             None \<Rightarrow> False
           | Some uses \<Rightarrow>
               (case uses sel of
                  Some (FuncObj (Some path) name) \<Rightarrow> path = ''os'' \<and> name = ''Exit''
                | _ \<Rightarrow> False))
      | _ \<Rightarrow> False)"

definition go_build :: "lint_pass \<Rightarrow> pos \<Rightarrow> bool" where
  "go_build pass p \<longleftrightarrow> Contains (ps_filename pass p) ''/go-build/''"

text \<open>\<open>ast.Inspect\<close> with the callback of \<open>run\<close>: the positions reported, in the order of the visit.\<close>

fun inspect_body :: "lint_pass \<Rightarrow> node \<Rightarrow> pos list" where
  "inspect_body pass (FuncLit ns) = []"
| "inspect_body pass (CallExpr p callee args) =
     (if go_build pass p then []
      else (if isOsExitCall pass callee then [p] else []) @
           (case callee of None \<Rightarrow> [] | Some f \<Rightarrow> inspect_body pass f) @ concat (map (inspect_body pass) args))"
| "inspect_body pass (SelectorExpr x sel) = (case x of None \<Rightarrow> [] | Some e \<Rightarrow> inspect_body pass e)"
| "inspect_body pass (OtherNode ns) = concat (map (inspect_body pass) ns)"

definition inspect_decl :: "lint_pass \<Rightarrow> func_decl \<Rightarrow> pos list" where
  "inspect_decl pass fd =
     (if fd_recv fd \<or> fd_name fd \<noteq> Some ''main'' then []
      else case fd_body fd of None \<Rightarrow> [] | Some body \<Rightarrow> inspect_body pass body)"

definition lint_run :: "lint_pass \<Rightarrow> string + pos list" where
  "lint_run pass =
     (if ps_pkg pass \<noteq> Some ''main'' then Inr []
      else if \<not> ps_inspector pass then Inl ''failed to assert type: expected *inspector.Inspector''
      else Inr (concat (map (inspect_decl pass) (ps_decls pass))))"

section \<open>The analyzers of the multichecker\<close>

text \<open>
  An analyzer by its name (those of the fixed list by the package they come from); \<open>None\<close> is a nil entry of the lists that \<open>staticcheck\<close> and \<open>stylecheck\<close> export, which
  are arguments here.
\<close>

definition pass_analyzers :: "string list" where
  "pass_analyzers =
     [''assign'', ''atomic'', ''bools'', ''buildtag'', ''cgocall'', ''composite'', ''copylock'', ''errorsas'',
      ''httpresponse'', ''loopclosure'', ''lostcancel'', ''nilfunc'', ''printf'', ''shift'', ''stdmethods'',
      ''structtag'', ''tests'', ''unmarshal'', ''unreachable'', ''unsafeptr'', ''unusedresult'']"

fun sa_analyzers :: "string option list \<Rightarrow> string list" where
  "sa_analyzers [] = []"
| "sa_analyzers (None # as) = sa_analyzers as"
| "sa_analyzers (Some n # as) = (if HasPrefix n ''SA'' then n # sa_analyzers as else sa_analyzers as)"

fun find_st1000 :: "string option list \<Rightarrow> string option" where
  "find_st1000 [] = None"
| "find_st1000 (None # as) = find_st1000 as"
| "find_st1000 (Some n # as) = (if n = ''ST1000'' then Some n else find_st1000 as)"

definition staticlint_analyzers :: "string option list \<Rightarrow> string option list \<Rightarrow> string list" where
  "staticlint_analyzers staticcheck stylecheck =
     pass_analyzers @ sa_analyzers staticcheck @ (case find_st1000 stylecheck of None \<Rightarrow> [] | Some n \<Rightarrow> [n]) @
     [''nilerr'', ''forcetypeassert'', ''osexitmain'']"

section \<open>What a direct call is\<close>

text \<open>
  \<open>directly pass n m\<close>: \<open>m\<close> is \<open>n\<close> or occurs in it, not inside a function literal and not below a call that stands
  in a file of the build cache.
\<close>

inductive directly :: "lint_pass \<Rightarrow> node \<Rightarrow> node \<Rightarrow> bool" for pass :: lint_pass where
  here: "directly pass n n"
| callee: "directly pass f m \<Longrightarrow> \<not> go_build pass p \<Longrightarrow> directly pass (CallExpr p (Some f) args) m"
| arg: "a \<in> set args \<Longrightarrow> directly pass a m \<Longrightarrow> \<not> go_build pass p \<Longrightarrow> directly pass (CallExpr p callee args) m"
| selected: "directly pass x m \<Longrightarrow> directly pass (SelectorExpr (Some x) sel) m"
| child: "n \<in> set ns \<Longrightarrow> directly pass n m \<Longrightarrow> directly pass (OtherNode ns) m"

inductive_simps directly_FuncLit: "directly pass (FuncLit ns) m"
inductive_simps directly_CallExpr: "directly pass (CallExpr p callee args) m"
inductive_simps directly_SelectorExpr: "directly pass (SelectorExpr x sel) m"
inductive_simps directly_OtherNode: "directly pass (OtherNode ns) m"

lemmas directly_simps = directly_FuncLit directly_CallExpr directly_SelectorExpr directly_OtherNode

definition exit_call_at :: "lint_pass \<Rightarrow> node \<Rightarrow> pos \<Rightarrow> bool" where
  "exit_call_at pass body p \<longleftrightarrow>
     (\<exists>callee args. directly pass body (CallExpr p callee args) \<and> isOsExitCall pass callee \<and> \<not> go_build pass p)"

lemma inspect_body_sound: "directly pass n m \<Longrightarrow> m = CallExpr p callee args \<Longrightarrow> isOsExitCall pass callee \<Longrightarrow> \<not> go_build pass p \<Longrightarrow>
    p \<in> set (inspect_body pass n)"
  by (induction rule: directly.induct) auto

lemma inspect_body_iff: "p \<in> set (inspect_body pass n) \<longleftrightarrow> exit_call_at pass n p"
proof
  show "p \<in> set (inspect_body pass n) \<Longrightarrow> exit_call_at pass n p"
  proof (induction pass n rule: inspect_body.induct)
    case (2 pass q callee args)
    then show ?case
      unfolding exit_call_at_def
      by (auto split: if_splits option.splits intro: directly.intros) (blast intro: directly.intros)+
  next
    case (3 pass x sel)
    then show ?case
      unfolding exit_call_at_def by (auto split: option.splits) (blast intro: directly.intros)
  next
    case (4 pass ns)
    then show ?case
      unfolding exit_call_at_def by (auto intro: directly.intros) (blast intro: directly.intros)
  qed simp
qed (auto simp: exit_call_at_def intro: inspect_body_sound)

lemma isOsExitCall_iff:
  "isOsExitCall pass callee \<longleftrightarrow>
     (\<exists>x sel uses. callee = Some (SelectorExpr (Some x) (Some sel)) \<and> ps_uses pass = Some uses \<and>
        uses sel = Some (FuncObj (Some ''os'') ''Exit''))"
proof (cases "\<exists>x sel. callee = Some (SelectorExpr x (Some sel))")
  case True
  then obtain x sel where c: "callee = Some (SelectorExpr x (Some sel))" by blast
  show ?thesis
    unfolding c isOsExitCall_def by (cases x; cases "ps_uses pass") (auto split: option.splits object.splits)
next
  case False
  then show ?thesis by (auto simp: isOsExitCall_def split: option.split node.split)
qed

section \<open>Properties\<close>

text \<open>
  C29: the analyzer reports a position exactly if the package is \<open>main\<close> and the position is that of a selector
  call resolved to the function \<open>Exit\<close> of package \<open>os\<close> that occurs in the body of a function \<open>main\<close> without a
  receiver, outside function literals and build-cache files; methods named \<open>main\<close>, functions without a body
  and other packages are never reported.
\<close>

theorem lint_reports_direct_exit:
  assumes "ps_inspector pass"
  shows "\<exists>ps. lint_run pass = Inr ps \<and>
    (p \<in> set ps \<longleftrightarrow> ps_pkg pass = Some ''main'' \<and>
       (\<exists>fd body. fd \<in> set (ps_decls pass) \<and> \<not> fd_recv fd \<and> fd_name fd = Some ''main'' \<and> fd_body fd = Some body \<and>
          (\<exists>x sel args uses. directly pass body (CallExpr p (Some (SelectorExpr (Some x) (Some sel))) args) \<and> \<not> go_build pass p \<and>
             ps_uses pass = Some uses \<and> uses sel = Some (FuncObj (Some ''os'') ''Exit''))))"
proof -
  have "p \<in> set (inspect_decl pass fd) \<longleftrightarrow>
      \<not> fd_recv fd \<and> fd_name fd = Some ''main'' \<and> (\<exists>body. fd_body fd = Some body \<and> exit_call_at pass body p)" for fd
    by (cases "fd_body fd") (simp_all add: inspect_decl_def inspect_body_iff)
  then have "p \<in> set (concat (map (inspect_decl pass) (ps_decls pass))) \<longleftrightarrow>
      (\<exists>fd body. fd \<in> set (ps_decls pass) \<and> \<not> fd_recv fd \<and> fd_name fd = Some ''main'' \<and> fd_body fd = Some body \<and> exit_call_at pass body p)"
    by (simp only: set_concat set_map) blast
  moreover have "exit_call_at pass body p \<longleftrightarrow>
      (\<exists>x sel args uses. directly pass body (CallExpr p (Some (SelectorExpr (Some x) (Some sel))) args) \<and> \<not> go_build pass p \<and>
         ps_uses pass = Some uses \<and> uses sel = Some (FuncObj (Some ''os'') ''Exit''))" for body
    unfolding exit_call_at_def isOsExitCall_iff by blast
  ultimately show ?thesis using assms by (simp only: lint_run_def) simp
qed

abbreviation exit_call :: node where
  "exit_call \<equiv> CallExpr 7 (Some (SelectorExpr (Some (OtherNode [])) (Some 1))) []"

abbreviation sample_pass :: lint_pass where
  "sample_pass \<equiv> \<lparr>ps_pkg = Some ''main'', ps_inspector = True,
     ps_decls = [\<lparr>fd_recv = False, fd_name = Some ''main'', fd_body = Some (OtherNode [FuncLit [exit_call], exit_call])\<rparr>],
     ps_uses = Some (\<lambda>i. if i = 1 then Some (FuncObj (Some ''os'') ''Exit'') else None), ps_filename = (\<lambda>p. ''/src/main.go'')\<rparr>"

theorem lint_reports_direct_exit_witness:
  "lint_run sample_pass = Inr [7] \<and>
   (\<exists>x sel args. directly sample_pass (OtherNode [FuncLit [exit_call], exit_call]) (CallExpr 7 (Some (SelectorExpr (Some x) (Some sel))) args))"
proof -
  have r: "lint_run sample_pass = Inr [7]"
    by (simp add: lint_run_def inspect_decl_def isOsExitCall_def go_build_def) code_simp
  have "ps_inspector sample_pass" by simp
  from lint_reports_direct_exit [OF this, of 7] show ?thesis unfolding r by auto
qed

text \<open>
  The lists that \<open>cmd/staticlint\<close> assembles: every \<open>SA\<close> check of \<open>staticcheck\<close>, at most the first \<open>ST1000\<close>, and the
  project's own analyzer always and last.
\<close>

lemma staticlint_has_osexitmain: "last (staticlint_analyzers sc st) = ''osexitmain''"
  by (simp add: staticlint_analyzers_def)

lemma sa_analyzers_set: "set (sa_analyzers as) = {n. Some n \<in> set as \<and> HasPrefix n ''SA''}"
  by (induction as rule: sa_analyzers.induct) auto

end
