(* ===== verification/Spec2Isabelle.thy ===== *)
theory Spec2Isabelle
  imports Concurrent_Updates Concurrent_Saves Concurrent_Sampling Payload_Buffers Agent_Server Reset_Code Reset_Run Os_Exit_Lint
begin

text \<open>
  A verification development for Golectra, a metrics collector written in Go: an agent samples the runtime and
  the host and reports to a server, which stores gauges and counters in memory (with a snapshot file) or in
  Postgres, answers HTTP queries and writes an audit trail. Two tools live in the same repository, a generator
  of \<open>Reset\<close> methods and a linter.

  \<^bold>\<open>Parts and theories.\<close>
  \<^item> \<open>Golib\<close> is the prelude: Go's integers as words, maps as association lists in iteration order, and the
    functions of \<open>strings\<close> and \<open>strconv\<close> the sources use, with the facts every component needs.
  \<^item> \<open>Domain\<close> (\<open>internal/domain\<close>, \<open>internal/ports\<close>, \<open>internal/services/audit/context.go\<close>): errors as values with
    \<open>errors.Is\<close> and \<open>errors.As\<close>, metrics, snapshots, the repository port as a record of functions; the abstract
    meaning of a list of metrics (\<open>spec_gauges\<close>, \<open>spec_counters\<close>) and the contracts of a repository as the locales
    \<open>metrics_repo\<close> and \<open>separate_repo\<close>, and \<open>repo_keeps\<close> for what holds without any assumption on the network.
  \<^item> \<open>Misc\<close> (\<open>internal/misc\<close>, \<open>pkg/util\<close>): the retry loop with its rules, environment, checksum, object pool.
  \<^item> \<open>Filesystem\<close>: \<open>path/filepath\<close> and the system calls the sources make, over files with scripted faults.
  \<^item> \<open>Memory_Repo\<close> and \<open>Postgres_Repo\<close> (\<open>internal/adapters/repository\<close>): both repositories, each interpreting the
    contract; every statement sent to Postgres may fail before or after it took effect.
  \<^item> \<open>Audit_Log\<close> (\<open>pkg/observer\<close>, \<open>internal/services/audit\<close>, \<open>internal/adapters/audit\<close>): observers and audit sinks.
  \<^item> \<open>Metrics_Service\<close> (\<open>internal/services/metrics\<close>): reads, updates, batches, the bounded audit queue and its
    dispatcher as a step relation. \<open>Concurrent_Updates\<close> splits updates and batches into the repository calls they
    consist of and lets any number of requests interleave.
  \<^item> \<open>Persister\<close> (\<open>internal/adapters/persistence/file\<close>): the atomic write and the replay of snapshots.
    \<open>Concurrent_Saves\<close> splits the write into its system calls and lets any number of saves interleave.
  \<^item> \<open>Config\<close> (\<open>internal/config\<close>): package \<open>flag\<close>, precedence of settings, validation.
  \<^item> \<open>Collector\<close>, \<open>Agent\<close>, \<open>Http_Publisher\<close> (\<open>internal/adapters/collector\<close>, \<open>internal/services/agent\<close>,
    \<open>internal/adapters/publisher\<close>): sampling, reports, the worker pool as a step relation, the HTTP client.
    \<open>Concurrent_Sampling\<close> splits the ticks of the two sampling goroutines into their locked writes, \<open>Delivery_Order\<close>
    compares the pool with a sequential loop, and \<open>Payload_Buffers\<close> has the pooled buffers and gzip writers of the
    client as objects that concurrent calls share.
    \<open>Agent_Main\<close> (\<open>cmd/agent\<close>) is the program: its start and the process, in which the three run concurrently.
  \<^item> \<open>Http_Handler\<close>, \<open>Middleware\<close> (\<open>internal/adapters/http/ginserver\<close>): endpoints as steps of the service, the
    response writers of the middlewares as transformers of the calls made on them.
  \<^item> \<open>Server\<close> (\<open>cmd/server\<close>): start-up with fallback, the persistence hook, the periodic save, and the life of a
    server as a step relation with the list of what it acknowledged. \<open>Server_Main\<close> is the program: routes to handlers,
    a run as a list of requests, audit turns and ticks, and \<open>run\<close> and \<open>main\<close> around it. In both a request is one
    step; what requests that overlap can do is the subject of \<open>Concurrent_Updates\<close>.
  \<^item> \<open>Agent_Server\<close> connects the two programs: the agent's client on a network that hands every request to the
    middlewares, the router and the handlers of the server.
  \<^item> \<open>Reset_Gen\<close> (\<open>cmd/reset\<close>) and \<open>Os_Exit_Lint\<close> (\<open>cmd/staticlint\<close>): the two tools. \<open>Reset_Code\<close> gives the
    generated methods a meaning: statements whose printing is the emitted text, run on a store of typed variables.
    \<open>Reset_Run\<close> is about what a run of the generator leaves on disk.

  \<^bold>\<open>State and operations.\<close> A struct is a record, an operation a function that returns the new state and the
  result or the error (\<open>go_error option\<close>, or \<open>go_error + 'a\<close> with the error on the left). What a part reaches outside
  itself is threaded through as a world. Mutexes make the operations of a repository, a collector and a subject
  atomic; goroutines are steps of relations, in any order. In \<open>Collector\<close> and \<open>Agent_Main\<close> a tick
  is one step; its mutex only protects each single write, which is what \<open>Concurrent_Sampling\<close> adds. Names are those
  of the source, with a prefix where two packages share one (\<open>mem_\<close>, \<open>pg_\<close>, \<open>svc_\<close>).

  \<^bold>\<open>What the theorems show.\<close> Batches and updates have exactly their abstract effect in memory; in Postgres
  a batch is applied as a whole, under any failures, and once if no answer is lost; saves are atomic and are inverted by a restore, also when many of them
  interleave or the process is killed among their system calls; after any interleaving of requests, a server restarted
  after a batch that was saved undisturbed holds everything acknowledged up to then; over any run of requests one after
  the other the metrics are the effect of what the requests answered with 200 ask for; interleaved updates lose nothing,
  and every answer shows a state that was really reached; the audit queue is FIFO and bounded;
  stored metrics are typed whatever the database does; the worker pool loses no batch and terminates, and the agent as
  a whole submits every snapshot it takes; interleaved sampling leaves what the ticks in order would leave; a report
  passes the server's middlewares and is stored, and the agent can read the compressed answer; agent and server
  together store exactly the reports, in order; pooled buffers are never shared by two calls; compression
  and signing are transparent; the configuration that is accepted is valid; the generator terminates on exactly the types without a cycle it has to enter, its
  aliases are unambiguous, the methods it writes reset every field and it changes no file but its own; the linter
  reports exactly the direct calls. Some theorems state behaviour that is probably not intended, and say so in their
  text: counters applied twice after a lost answer, truncated snapshots, stale batch elements, statuses that are never
  retried, updates that are never saved, overlapping batches that leave an old snapshot in the file, reports dropped
  at shutdown, poll counts that are added up twice, reports that overtake each other, and request bodies that are
  given back too early.

  \<^bold>\<open>Bounds and fuel.\<close> Counters are 64-bit words that wrap; durations too. Only the emitters of
  \<open>Reset_Gen\<close> run on fuel, because Go types may be cyclic: \<open>emit_terminates\<close> shows that some fuel is
  enough exactly for the types without an infinite chain of parts, and \<open>generator_diverges\<close> that none is
  for a struct that points to itself. Every other loop is a total function.

  \<^bold>\<open>Not modelled.\<close> Libraries are arguments, with what is assumed of them written in the theorems:
  \<open>encoding/json\<close>'s text, \<open>compress/gzip\<close>, \<open>crypto/sha256\<close>,
  \<open>net/http\<close>, \<open>net/url\<close>, gin's routing, \<open>strconv.ParseFloat\<close> and
  \<open>FormatFloat\<close>, \<open>time.ParseDuration\<close>, \<open>go/types\<close> and \<open>go/format\<close>.
  What goose does with the SQL of the migrations, the agent's signal handling and the timeouts of
  \<open>http.Server\<close> are left out: they only call libraries. Which route a request matches is gin's decision.
  Of \<open>float64\<close> only the bit pattern is kept.
\<close>

section \<open>From the agent to the handlers of the server\<close>

text \<open>
  what the agent sends is what the handlers get: every request of a publisher whose key is the server's
  passes the whole middleware chain, is unpacked to the JSON text of the payload, is accepted by the checksum
  middleware (with or without a key), and the handler's answer goes back signed if there is a key. The one
  assumption about libraries is that the server's gzip reader inverts the agent's gzip writer.
\<close>

theorem agent_request_reaches_handler:
  assumes client: "httpjson_New url_Parse addr key = Inr cl"
    and sent: "doGzJSON (logged env) cl i path p (pl, (w, [])) = ((pl', (w', log)), x)" "req \<in> set log"
    and sha: "he_sha256 env = me_sha256 me"
    and gzip: "\<forall>z. he_gzClose env (he_json env p) = Inr z \<longrightarrow> me_NewReader me (Inr z) = Inr (Inr (he_json env p))"
  shows "\<exists>r. mq_body r = Inr (he_json env p) \<and> mq_method r = ''POST'' \<and> mq_uri r = endpoint env cl path \<and>
    fst (server_chain me key st0 (received req) handler) =
      GzipResponse (me_gzHead me) (me_gzTail me) st0 r (\<lambda>r. signed (me_sha256 me) (TrimSpace key) (handler r))"
  using request_reaches_handler [OF assms] .

lemma log_one_request:
  "\<exists>req log pl'. doGzJSON (logged (plain_env (resp_of 200))) cl 0 ''/updates'' p (NewPool '''' None, ((), [])) =
     ((pl', ((), req # log)), None)" if "\<not> list_ex json_refuses (payload_items p)"
  by (simp add: doGzJSON_def marshalJSON_def logged_def gzipBytes_def Pool_Get_def NewPool_def sendWithRetry_def Retry_def
        Retry_from.simps send_op_def newGzJSONRequest_def drainAndDiscard_def checkHTTPStatus_def Let_def that)

abbreviation sample_mw :: mw_env where
  "sample_mw \<equiv> \<lparr>me_sha256 = (\<lambda>s. s), me_gzHead = '''', me_gzTail = (\<lambda>s. s), me_NewReader = Inr, me_abortStatus = (\<lambda>n. [WWriteHeader n]),
     me_abortJSON = (\<lambda>n m. [WWriteHeader n, WWrite m])\<rparr>"

theorem agent_request_reaches_handler_witness:
  "\<exists>cl log pl' req r. httpjson_New (\<lambda>u. Inr \<lparr>u_Path = '''', u_rest = u\<rparr>) ''srv'' ''k'' = Inr cl \<and>
     doGzJSON (logged (plain_env (resp_of 200))) cl 0 ''/updates'' (Many [counter_metric ''c'' 1]) (NewPool '''' None, ((), [])) =
       ((pl', ((), log)), None) \<and> req \<in> set log \<and> mq_body r = Inr ''[]'' \<and>
     fst (server_chain sample_mw ''k'' 200 (received req) (\<lambda>r. [WWrite ''ok''])) =
       GzipResponse '''' (\<lambda>s. s) 200 r (\<lambda>r. signed (\<lambda>s. s) (TrimSpace ''k'') [WWrite ''ok''])"
proof -
  obtain cl where cl: "httpjson_New (\<lambda>u. Inr \<lparr>u_Path = '''', u_rest = u\<rparr>) ''srv'' ''k'' = Inr cl" by (simp add: httpjson_New_def)
  obtain req log pl' where run: "doGzJSON (logged (plain_env (resp_of 200))) cl 0 ''/updates'' (Many [counter_metric ''c'' 1])
      (NewPool '''' None, ((), [])) = ((pl', ((), req # log)), None)"
    using log_one_request [of "Many [counter_metric ''c'' 1]" cl] by auto
  obtain r where "mq_body r = Inr ''[]''" "fst (server_chain sample_mw ''k'' 200 (received req) (\<lambda>r. [WWrite ''ok''])) =
       GzipResponse '''' (\<lambda>s. s) 200 r (\<lambda>r. signed (\<lambda>s. s) (TrimSpace ''k'') [WWrite ''ok''])"
    using agent_request_reaches_handler [OF cl run, of req sample_mw 200 "\<lambda>r. [WWrite ''ok'']"] by auto
  with cl run show ?thesis by (intro exI [of _ cl] exI [of _ "req # log"] exI [of _ pl'] exI [of _ req] exI [of _ r]) simp
qed

section \<open>From a report to the repository\<close>

text \<open>
  C4: a report is stored: every request that \<open>SendBatch\<close> puts on the wire for a snapshot of the agent's collector
  passes the server's middlewares, and the batch handler answers the text they hand on with 200 and the number
  of metrics, after which the repository holds the gauges of the snapshot and its counters added to the old
  ones, whatever buffer the handler's pool provides. Assumed of the libraries: the gzip reader inverts the gzip
  writer, and decoding the JSON text gives the members that were encoded.
\<close>

theorem agent_report_is_stored:
  assumes client: "httpjson_New url_Parse addr key = Inr cl"
    and sent: "SendBatch (logged env) cl i (snapshot_items g cs) (pl, (w, [])) = ((pl', (w', log)), x)" "req \<in> set log"
    and sha: "he_sha256 env = me_sha256 me"
    and gzip: "\<forall>z. he_gzClose env (he_json env (Many (snapshot_items g cs))) = Inr z \<longrightarrow>
      me_NewReader me (Inr z) = Inr (Inr (he_json env (Many (snapshot_items g cs))))"
    and json: "dec (he_json env (Many (snapshot_items g cs))) = (map json_patch (snapshot_items g cs), None)"
    and server: "svc_repo s = memory_repo" "mem_inv (w_repo sw)" "valid_items (snapshot_items g cs) \<noteq> []"
  shows "\<exists>r body pool' sw'. mq_uri r = endpoint env cl ''/updates'' \<and> mq_body r = Inr body \<and>
    fst (server_chain me key st0 (received req) handler) =
      GzipResponse (me_gzHead me) (me_gzTail me) st0 r (\<lambda>r. signed (me_sha256 me) (TrimSpace key) (handler r)) \<and>
    UpdateMetricsBatchJSON dec j s ctx ip body (pool, sw) =
      ((pool', sw'), ReplyJSON 200 (JUpdated (length (valid_items (snapshot_items g cs))))) \<and>
    mem_gauge_of (w_repo sw') = spec_gauges (valid_items (snapshot_items g cs)) (mem_gauge_of (w_repo sw)) \<and>
    mem_counter_of (w_repo sw') = spec_counters (valid_items (snapshot_items g cs)) (mem_counter_of (w_repo sw))"
proof -
  have "snapshot_items g cs \<noteq> []" using server(3) by auto
  with sent(1) have "doGzJSON (logged env) cl i ''/updates'' (Many (snapshot_items g cs)) (pl, (w, [])) = ((pl', (w', log)), x)"
    by (simp add: SendBatch_def)
  from request_reaches_handler [OF client this sent(2) sha gzip, of st0 handler] batch_handler_stores [where dec = dec, OF server json, of j ctx ip pool]
  show ?thesis by blast
qed

theorem agent_report_is_stored_witness:
  "\<exists>pool' sw'. UpdateMetricsBatchJSON (\<lambda>body. ([json_patch (counter_metric ''c'' 5)], None)) 0 (svc_of memory_repo) Background ''::1'' ''[]''
      (metricsBatchPool, world_of mem_New) = ((pool', sw'), ReplyJSON 200 (JUpdated 1)) \<and> mem_counter_of (w_repo sw') ''c'' = Some 5"
proof -
  obtain cl where cl: "httpjson_New (\<lambda>u. Inr \<lparr>u_Path = '''', u_rest = u\<rparr>) ''srv'' ''k'' = Inr cl" by (simp add: httpjson_New_def)
  have b: "snapshot_items [] [(''c'', 5)] = [counter_metric ''c'' 5]" by (simp add: snapshot_items_def)
  obtain req log pl' where run: "SendBatch (logged (plain_env (resp_of 200))) cl 0 (snapshot_items [] [(''c'', 5)]) (NewPool '''' None, ((), [])) =
      ((pl', ((), req # log)), None)"
    using log_one_request [of "Many [counter_metric ''c'' 5]" cl] by (auto simp: b SendBatch_def)
  from agent_report_is_stored [OF cl run, of req sample_mw "\<lambda>body. ([json_patch (counter_metric ''c'' 5)], None)" "svc_of memory_repo" "world_of mem_New"
      200 "\<lambda>r. []" 0 Background "''::1''" metricsBatchPool]
  obtain r body pool' sw' where u: "UpdateMetricsBatchJSON (\<lambda>body. ([json_patch (counter_metric ''c'' 5)], None)) 0 (svc_of memory_repo) Background ''::1'' body
      (metricsBatchPool, world_of mem_New) = ((pool', sw'), ReplyJSON 200 (JUpdated 1))" "mem_counter_of (w_repo sw') ''c'' = Some 5"
    by (auto simp: b sample_valid)
  have "UpdateMetricsBatchJSON (\<lambda>body. ([json_patch (counter_metric ''c'' 5)], None)) 0 (svc_of memory_repo) Background ''::1'' ''[]'' st =
      UpdateMetricsBatchJSON (\<lambda>body. ([json_patch (counter_metric ''c'' 5)], None)) 0 (svc_of memory_repo) Background ''::1'' body st" for st
    by (simp add: UpdateMetricsBatchJSON_def decodeMetricsBatch_def)
  with u show ?thesis by metis
qed

section \<open>The whole system\<close>

text \<open>
  C1: agent and server together: an agent with one worker (the default) is connected to a server with the same key
  by a network that loses nothing. However its sampling goroutines, its report loop and its worker are
  scheduled, whenever nothing waits and nothing is under way the server's repository holds exactly the abstract effect of all
  its reports, in the order of their ticks: each gauge the value of the last report that had it, each counter its
  old value plus the reported totals. Assumed of the libraries: \<open>connected\<close> and, for each report, \<open>carries\<close>
  (the gzip reader of each side inverts the gzip writer of the other, JSON is inverted, gin routes \<open>/updates\<close> to its
  handler and writes its reply as JSON). That the agent can read the server's compressed answer, and so does not send a
  report again, is proved from the server's middlewares and the agent's \<open>drainAndDiscard\<close>.
\<close>

theorem system_stores_all_reports:
  assumes agent: "agent_main ut url_Parse aenv args = Inr (cfg, cl)" "ac_RateLimit cfg = 1"
    and conn: "connected env me henv render NewReader cl key"
    and net: "he_Do env = loop_Do (serve me key henv render s ctx ip i) (client_view NewReader status_text)"
    and server: "svc_repo s = memory_repo" "mem_inv (w_repo w)"
    and carried: "\<forall>b \<in> set (agent_Run f es). carries env me henv b"
    and run: "agent_reach f (http_publisher env cl pick) c (ac_RateLimit cfg) (pl, (pool, w)) p es"
    and rest: "pending_list p = []" "sn_jobs (ap_sender p) = []" "\<forall>x \<in> set (sn_workers (ap_sender p)). x \<in> {Idle, Exited}"
  shows "\<exists>pl' pool' w'. sn_w (ap_sender p) = (pl', (pool', w')) \<and>
    mem_gauge_of (w_repo w') = spec_gauges (concat (agent_Run f es)) (mem_gauge_of (w_repo w)) \<and>
    mem_counter_of (w_repo w') = spec_counters (concat (agent_Run f es)) (mem_counter_of (w_repo w))"
  by (rule system_at_rest [OF conn net server carried run _ rest]) (simp add: agent(2))

text \<open>
  A coding of the bodies for the witness: a stream begins with one mark and ends with another, and the reader refuses
  a stream that lacks either.
\<close>

definition frame :: "string \<Rightarrow> string" where
  "frame d = CHR ''<'' # d @ ''>''"

definition unframe :: "go_error + string \<Rightarrow> go_error + (go_error + string)" where
  "unframe body =
     (case body of
        Inr (c # cs) \<Rightarrow>
          (if c \<noteq> CHR ''<'' then Inl (ErrNew ''gzip: invalid header'')
           else if cs = [] \<or> last cs \<noteq> CHR ''>'' then Inr (Inl (ErrNew ''unexpected EOF'')) else Inr (Inr (butlast cs)))
      | _ \<Rightarrow> Inl (ErrNew ''EOF''))"

lemma unframe_frame [simp]: "unframe (Inr (frame d)) = Inr (Inr d)"
  by (simp add: unframe_def frame_def butlast_append)

abbreviation framed_mw :: mw_env where
  "framed_mw \<equiv> \<lparr>me_sha256 = (\<lambda>s. s), me_gzHead = ''<'', me_gzTail = (\<lambda>d. d @ ''>''), me_NewReader = unframe,
     me_abortStatus = (\<lambda>n. [WWriteHeader n]), me_abortJSON = (\<lambda>n m. [WWriteHeader n, WWrite m])\<rparr>"

text \<open>A server and a client with that coding.\<close>

abbreviation plain_http :: http_env where
  "plain_http \<equiv>
     \<lparr>hv_match = (\<lambda>routes m u. Matched HUpdateMetricsBatchJSON []), hv_ParseFloat = (\<lambda>t. None), hv_FormatFloat = (\<lambda>x. ''''),
      hv_decodeOne = (\<lambda>t. (no_members, None)), hv_decodeBatch = (\<lambda>t. (map json_patch memory_report, None)), hv_errText = (\<lambda>e. '''')\<rparr>"

abbreviation plain_render :: "reply \<Rightarrow> wcall list" where
  "plain_render r \<equiv> [WWriteHeader 200, WSetHeader ''Content-Type'' ''application/json; charset=utf-8'', WWrite ''{}'']"

abbreviation framed_view :: "wstate \<Rightarrow> http_response" where
  "framed_view \<equiv> client_view unframe (\<lambda>n. '''')"

abbreviation looped_env :: "(mem_Repo, unit) http_state httpjson_env" where
  "looped_env \<equiv>
     \<lparr>he_Do = loop_Do (serve framed_mw '''' plain_http plain_render (svc_of memory_repo) Background ''::1'' 0) framed_view,
      he_newRequest = (\<lambda>u. None), he_ctxErr = (\<lambda>w. (w, None)), he_wait = (\<lambda>d w. (w, None)), he_json = (\<lambda>p. ''[]''),
      he_gzWrite = (\<lambda>s. None), he_gzClose = (\<lambda>d. Inr (frame d)), he_sha256 = (\<lambda>s. s), he_urlString = u_Path\<rparr>"

lemma looped_carries: "carries looped_env framed_mw plain_http memory_report"
  by (simp add: carries_def json_refuses_def is_nonfinite_def gauge_metric_def)

lemma looped_connected: "cl_key cl = '''' \<Longrightarrow> connected looped_env framed_mw plain_http plain_render unframe cl ''''"
  using unframe_frame by (simp add: connected_def frame_def)

lemma memory_report_snapshot: "memory_report = snapshot_items [(''TotalMemory'', 0), (''FreeMemory'', 0)] []"
  by (simp add: snapshot_items_def)

lemma memory_report_valid: "valid_items memory_report = memory_report"
  using agent_Run_reports [of memory_report "\<lambda>x. 0" sample_and_report] by (simp add: memory_report_run report_of_def)

text \<open>The report of \<open>memory_report_queued\<close>, taken off the queue and sent.\<close>

lemma memory_report_sent:
  assumes "cl_key cl = ''''" and pub: "pub = http_publisher looped_env cl (\<lambda>st. 0)" and w0: "w0 = (pl, (pool, world_of mem_New))"
  shows "\<exists>p. agent_reach (\<lambda>x. 0) pub c 1 w0 p sample_and_report \<and> pending_list p = [] \<and>
    sn_jobs (ap_sender p) = [] \<and> sn_workers (ap_sender p) = [Idle]"
proof -
  obtain p where p: "agent_reach (\<lambda>x. 0) pub c 1 w0 p sample_and_report" "pending_list p = []"
    and s: "ap_sender p = \<lparr>sn_cap = 2, sn_jobs = [memory_report], sn_closed = False, sn_workers = [Idle], sn_w = w0,
       sn_submitted = [memory_report], sn_done = []\<rparr>"
    using memory_report_queued [of pub c w0] by blast
  let ?s1 = "(ap_sender p)\<lparr>sn_jobs := [], sn_workers := [Sending memory_report]\<rparr>"
  have "sender_step pub c (ap_sender p) ?s1"
    using sender_step.Receive [of 0 "ap_sender p" memory_report "[]" pub c] by (simp add: s set_worker_def)
  from agent_reach.work [OF p(1) this] have p1: "agent_reach (\<lambda>x. 0) pub c 1 w0 (p\<lparr>ap_sender := ?s1\<rparr>) sample_and_report" by simp
  have "mem_inv (w_repo (world_of mem_New))" by simp
  from SendBatch_stored [OF looped_connected [OF assms(1)], of "svc_of memory_repo" Background "''::1''" 0 "\<lambda>n. ''''" "[(''TotalMemory'', 0), (''FreeMemory'', 0)]" "[]"
      "world_of mem_New" 0 pl pool] looped_carries memory_report_valid this
  obtain w1 where "pub_SendBatch pub c memory_report w0 = (w1, None)"
    by (auto simp: pub w0 http_publisher_def simp flip: memory_report_snapshot)
  from sender_step.Batch_ok [of 0 ?s1 memory_report pub c w1] this s
  have "sender_step pub c ?s1 (?s1\<lparr>sn_workers := [Idle], sn_w := w1, sn_done := [memory_report]\<rparr>)"
    by (simp add: finish_worker_def set_worker_def)
  from agent_reach.work [OF p1 [simplified]] this p(2) show ?thesis
    by (fastforce simp: pending_list_def)
qed

theorem system_stores_all_reports_witness:
  "\<exists>cfg cl p pl' pool' w'. agent_main ut_any any_url [] [] = Inr (cfg, cl) \<and>
     agent_reach (\<lambda>x. 0) (http_publisher looped_env cl (\<lambda>st. 0)) Background (ac_RateLimit cfg)
       (NewPool '''' None, (metricsBatchPool, world_of mem_New)) p sample_and_report \<and>
     sn_w (ap_sender p) = (pl', (pool', w')) \<and> mem_gauge_of (w_repo w') ''TotalMemory'' = Some 0"
proof -
  obtain cfg cl where a: "agent_main ut_any any_url [] [] = Inr (cfg, cl)" and n: "ac_RateLimit cfg = 1" and k: "cl_key cl = ''''"
    using default_agent by blast
  let ?pub = "http_publisher looped_env cl (\<lambda>st. 0)" and ?w0 = "(NewPool '''' None, (metricsBatchPool, world_of mem_New))"
  obtain p where p: "agent_reach (\<lambda>x. 0) ?pub Background (ac_RateLimit cfg) ?w0 p sample_and_report" "pending_list p = []"
      "sn_jobs (ap_sender p) = []" "sn_workers (ap_sender p) = [Idle]"
    using memory_report_sent [OF k refl refl, of Background "NewPool '''' None" metricsBatchPool] n by metis
  have carried: "\<forall>b \<in> set (agent_Run (\<lambda>x. 0) sample_and_report). carries looped_env framed_mw plain_http b"
    using looped_carries by (simp add: memory_report_run)
  have net: "he_Do looped_env = loop_Do (serve framed_mw '''' plain_http plain_render (svc_of memory_repo) Background ''::1'' 0) framed_view"
    by simp
  have "svc_repo (svc_of memory_repo) = memory_repo" "mem_inv (w_repo (world_of mem_New))"
      "\<forall>x \<in> set (sn_workers (ap_sender p)). x \<in> {Idle, Exited}" using p(4) by simp_all
  from system_stores_all_reports [OF a n looped_connected [OF k] net this(1,2) carried p(1-3) this(3)]
  obtain pl' pool' w' where w: "sn_w (ap_sender p) = (pl', (pool', w'))"
      "mem_gauge_of (w_repo w') = spec_gauges (concat (agent_Run (\<lambda>x. 0) sample_and_report)) (mem_gauge_of (w_repo (world_of mem_New)))"
    by blast
  have "mem_gauge_of (w_repo w') ''TotalMemory'' = Some 0" unfolding w(2) memory_report_run by (simp add: gauge_metric_def)
  with a p(1) w(1) show ?thesis by blast
qed

section \<open>What the server counts when an agent reports\<close>

text \<open>Batches that reach the service one after the other.\<close>

definition deliver :: "('r, 'w) Service \<Rightarrow> go_context \<Rightarrow> Metrics list list \<Rightarrow> ('r, 'w) svc_world \<Rightarrow> ('r, 'w) svc_world" where
  "deliver s c batches w = foldl (\<lambda>w b. fst (svc_UpsertBatch s c b w)) w batches"

text \<open>A run of the agent that reports after each of the given rounds of samples.\<close>

definition rounds :: "col_event list list \<Rightarrow> agent_event list" where
  "rounds css = concat (map (\<lambda>es. map ASample es @ [AReport]) css)"

text \<open>The samples an agent has taken when it reports for the \<open>i\<close>-th time.\<close>

definition polls_until :: "col_event list list \<Rightarrow> nat \<Rightarrow> nat" where
  "polls_until css i = runtime_ticks False False (CStart # concat (take (Suc i) css))"

lemma agent_loop_round:
  "agent_loop f col (map ASample es @ AReport # rest) =
     (case enqueueSnapshot (collector_Snapshot (col_run f col es)) of
        None \<Rightarrow> agent_loop f (col_run f col es) rest
      | Some b \<Rightarrow> b # agent_loop f (col_run f col es) rest)"
  by (induction es arbitrary: col) (auto split: option.split)

lemma UpsertBatch_counters:
  assumes "svc_repo s = memory_repo" and "mem_inv (w_repo w)"
  shows "mem_inv (w_repo (fst (svc_UpsertBatch s c b w))) \<and>
    mem_counter_of (w_repo (fst (svc_UpsertBatch s c b w))) = spec_counters (valid_items b) (mem_counter_of (w_repo w))"
proof (cases "valid_items b = []")
  case True
  with assms show ?thesis by (simp add: svc_UpsertBatch_def batch_loop_valid)
next
  case False
  from mem.UpsertBatch_applies [OF assms False, of c] show ?thesis by auto
qed

lemma deltas_of_snapshot:
  assumes "gm_wf cs" and "map_of cs = (\<lambda>k. if k = MPollCount \<and> n \<noteq> 0 then Some (of_nat n) else None)"
  shows "sum_list (deltas_for MPollCount (valid_items (snapshot_items g cs))) = of_nat n"
proof -
  have cs: "cs = (if n = 0 then [] else [(MPollCount, of_nat n)])"
  proof (cases cs)
    case Nil
    with assms(2) have "(if MPollCount = MPollCount \<and> n \<noteq> 0 then Some (of_nat n :: int64) else None) = None" by (metis map_of.simps(1))
    with Nil show ?thesis by (simp split: if_splits)
  next
    case (Cons kv rest)
    obtain k v where kv: "kv = (k, v)" by fastforce
    have "map_of cs k = Some v" using Cons kv by simp
    with assms(2) have k: "k = MPollCount" "n \<noteq> 0" "v = of_nat n" by (auto split: if_splits)
    have "rest = []"
    proof (cases rest)
      case (Cons kv' rest')
      obtain k' v' where kv': "kv' = (k', v')" by fastforce
      have ne: "k' \<noteq> k" using assms(1) \<open>cs = kv # rest\<close> Cons kv kv' by auto
      then have "map_of cs k' = Some v'" using \<open>cs = kv # rest\<close> Cons kv kv' by auto
      with assms(2) ne k show ?thesis by (auto split: if_splits)
    qed simp
    with Cons kv k show ?thesis by simp
  qed
  have name: "TrimSpace MPollCount = MPollCount" by (rule TrimSpace_visible) (simp add: MPollCount_def visible_def)
  have gauges: "deltas_for k (valid_items (map (\<lambda>(k, v). gauge_metric k v) gs @ ms)) = deltas_for k (valid_items ms)" for k gs ms
    by (induction gs) (auto simp: valid_item_def split: option.split)
  have "valid_item (counter_metric MPollCount (of_nat n)) = Some (counter_metric MPollCount (of_nat n))"
    by (simp add: valid_item_def name counter_metric_def) (simp add: MPollCount_def)
  then show ?thesis by (cases "n = 0") (use gauges [where ms = "[]"] in \<open>simp_all add: snapshot_items_def gauges cs\<close>)
qed

lemma deliver_rounds:
  assumes "svc_repo s = memory_repo" and "mem_inv (w_repo w)"
  shows "counter_or_zero (mem_counter_of (w_repo (deliver s c (agent_loop f (col_run f collector_New pre) (rounds css)) w)) MPollCount) =
    counter_or_zero (mem_counter_of (w_repo w) MPollCount) +
      (\<Sum>i < length css. of_nat (runtime_ticks False False (pre @ concat (take (Suc i) css))))"
  using assms(2)
proof (induction css arbitrary: pre w)
  case Nil
  show ?case by (simp add: rounds_def deliver_def)
next
  case (Cons es css)
  let ?pre = "pre @ es" and ?n = "runtime_ticks False False (pre @ es)"
  let ?col = "col_run f collector_New (pre @ es)"
  let ?rest = "agent_loop f (col_run f collector_New ?pre) (rounds css)"
  obtain g cs where snap: "collector_Snapshot ?col = (g, cs)" by fastforce
  have wf: "gm_wf (st_counters (col_st ?col))" using col_run_ok [OF New_ok] by (simp add: stats_ok_def)
  have copy: "cs = maps_Copy [] (st_counters (col_st ?col))" using snap by (simp add: collector_Snapshot_def stats_Snapshot_def)
  have cs: "gm_wf cs" "map_of cs = (\<lambda>k. if k = MPollCount \<and> ?n \<noteq> 0 then Some (of_nat ?n) else None)"
    using maps_Copy_empty [OF wf] maps_Copy_wf [of "[]" "st_counters (col_st ?col)"] col_run_counters [of f collector_New ?pre]
    by (auto simp: copy collector_New_def newStats_def fun_eq_iff)
  have loop: "agent_loop f (col_run f collector_New pre) (rounds (es # css)) =
      (if g = [] \<and> cs = [] then ?rest else snapshot_items g cs # ?rest)"
    by (auto simp: rounds_def agent_loop_round snap enqueueSnapshot_def Let_def simp flip: col_run_append)
  have sum: "(\<Sum>i < length (es # css). of_nat (runtime_ticks False False (pre @ concat (take (Suc i) (es # css))))) =
      (of_nat ?n :: int64) + (\<Sum>i < length css. of_nat (runtime_ticks False False (?pre @ concat (take (Suc i) css))))"
    by (simp add: sum.lessThan_Suc_shift del: sum.lessThan_Suc)
  show ?case
  proof (cases "g = [] \<and> cs = []")
    case True
    with cs(2) have "?n = 0" by (metis map_of.simps(1) option.distinct(1))
    with True loop sum Cons.IH [OF Cons.prems, of ?pre] show ?thesis by simp
  next
    case False
    let ?w = "fst (svc_UpsertBatch s c (snapshot_items g cs) w)"
    note u = UpsertBatch_counters [OF assms(1) Cons.prems, of c "snapshot_items g cs"]
    then have "counter_or_zero (mem_counter_of (w_repo ?w) MPollCount) = counter_or_zero (mem_counter_of (w_repo w) MPollCount) + of_nat ?n"
      using deltas_of_snapshot [OF cs, of g] by (auto simp: spec_counters_sum)
    moreover from loop False have "agent_loop f (col_run f collector_New pre) (rounds (es # css)) = snapshot_items g cs # ?rest" by presburger
    ultimately show ?thesis using sum Cons.IH [of ?w ?pre] u by (simp add: deliver_def add.assoc)
  qed
qed

text \<open>
  C40: the agent reports its running total as the delta of a counter, and the server adds it up: after the reports
  of an agent have been delivered, the server's \<open>PollCount\<close> has grown by the sum, over all reports, of the
  samples taken since the agent started (modulo \<open>2^64\<close>), not by the number of samples.
\<close>

theorem server_PollCount:
  assumes "svc_repo s = memory_repo" and "mem_inv (w_repo w)"
  shows "counter_or_zero (mem_counter_of (w_repo (deliver s c (agent_Run f (rounds css)) w)) MPollCount) =
    counter_or_zero (mem_counter_of (w_repo w) MPollCount) + (\<Sum>i < length css. of_nat (polls_until css i))"
  using deliver_rounds [OF assms, of c f "[CStart]" css] by (simp add: agent_Run_def polls_until_def)

theorem server_PollCount_witness:
  "counter_or_zero (mem_counter_of (w_repo (deliver (svc_of memory_repo) Background
      (agent_Run (\<lambda>n. n) (rounds [[CRuntime \<lparr>ms_field = (\<lambda>k. 0), ms_GCCPUFraction = 0\<rparr> 0], [CRuntime \<lparr>ms_field = (\<lambda>k. 0), ms_GCCPUFraction = 0\<rparr> 0]]))
      (world_of mem_New))) MPollCount) = 3"
  using server_PollCount [of "svc_of memory_repo" "world_of mem_New" Background "\<lambda>n. n"
      "[[CRuntime \<lparr>ms_field = (\<lambda>k. 0), ms_GCCPUFraction = 0\<rparr> 0], [CRuntime \<lparr>ms_field = (\<lambda>k. 0), ms_GCCPUFraction = 0\<rparr> 0]]"]
  by (simp add: polls_until_def lessThan_Suc)

end
